(* ===== verification/Prelude.thy ===== *)
theory Prelude
  imports Main "HOL-Library.Char_ord" "HOL-Library.List_Lexorder" "HOL-Library.Monad_Syntax"
    "HOL-Library.Word"
begin

text \<open>
  Shared vocabulary of the development: the string and byte-string operations of the Rust
  standard library the sources use (\<open>split_once\<close>, \<open>strip_prefix\<close>, \<open>contains\<close>,
  decimal printing and parsing, slice \<open>split\<close>), with the generic lemmas on them.
  A Rust \<open>String\<close> is its sequence of UTF-8 bytes, so it is a \<open>string\<close> here (a list of
  8-bit \<open>char\<close>s), and the lexicographic order of \<open>HOL-Library.List_Lexorder\<close> is the
  byte order that \<open>Ord for str\<close> and \<open>BTreeMap<String, _>\<close> use.
\<close>

named_theorems text_simps \<open>rewrite rules for the string operations of the standard library\<close>
named_theorems store_simps \<open>lookup laws of the keyed stores\<close>
named_theorems json_simps \<open>rewrite rules for the accessors of a JSON value\<close>

type_synonym str = string
type_synonym u64 = "64 word"

section \<open>Prefixes, suffixes and splitting\<close>

fun strip_prefix :: "'a list \<Rightarrow> 'a list \<Rightarrow> 'a list option" where
  "strip_prefix [] s = Some s"
| "strip_prefix (p # ps) [] = None"
| "strip_prefix (p # ps) (c # cs) = (if p = c then strip_prefix ps cs else None)"

definition starts_with :: "'a list \<Rightarrow> 'a list \<Rightarrow> bool" where
  "starts_with p s \<longleftrightarrow> strip_prefix p s \<noteq> None"

definition strip_suffix :: "'a list \<Rightarrow> 'a list \<Rightarrow> 'a list option" where
  "strip_suffix p s = map_option rev (strip_prefix (rev p) (rev s))"

definition ends_with :: "'a list \<Rightarrow> 'a list \<Rightarrow> bool" where
  "ends_with p s \<longleftrightarrow> strip_suffix p s \<noteq> None"

fun split_once :: "'a list \<Rightarrow> 'a list \<Rightarrow> ('a list \<times> 'a list) option" where
  "split_once d [] = (if d = [] then Some ([], []) else None)"
| "split_once d (c # cs) =
     (case strip_prefix d (c # cs) of
        Some rest \<Rightarrow> Some ([], rest)
      | None \<Rightarrow> map_option (\<lambda>(a, b). (c # a, b)) (split_once d cs))"

definition contains_str :: "'a list \<Rightarrow> 'a list \<Rightarrow> bool" where
  "contains_str d s \<longleftrightarrow> split_once d s \<noteq> None"

definition rsplit_once :: "'a list \<Rightarrow> 'a list \<Rightarrow> ('a list \<times> 'a list) option" where
  "rsplit_once d s = map_option (\<lambda>(b, a). (rev a, rev b)) (split_once (rev d) (rev s))"

text \<open>\<open>slice::split\<close> and \<open>str::split\<close> at one separator element: always at least one part.\<close>

fun split_on :: "'a \<Rightarrow> 'a list \<Rightarrow> 'a list list" where
  "split_on d [] = [[]]"
| "split_on d (c # cs) =
     (if c = d then [] # split_on d cs
      else (case split_on d cs of p # ps \<Rightarrow> (c # p) # ps | [] \<Rightarrow> [[c]]))"

fun join_with :: "'a list \<Rightarrow> 'a list list \<Rightarrow> 'a list" where
  "join_with d [] = []"
| "join_with d [p] = p"
| "join_with d (p # q # ps) = p @ d @ join_with d (q # ps)"

lemma strip_prefix_Some [text_simps]: "strip_prefix p s = Some r \<longleftrightarrow> s = p @ r"
  by (induction p s rule: strip_prefix.induct) auto

lemma strip_prefix_None: "strip_prefix p s = None \<longleftrightarrow> (\<forall>r. s \<noteq> p @ r)"
  by (metis not_None_eq strip_prefix_Some)

lemma strip_prefix_append [simp]: "strip_prefix p (p @ r) = Some r"
  by (simp add: strip_prefix_Some)

lemma starts_with_iff [text_simps]: "starts_with p s \<longleftrightarrow> (\<exists>r. s = p @ r)"
  by (auto simp: starts_with_def strip_prefix_Some)

lemma strip_suffix_Some [text_simps]: "strip_suffix p s = Some r \<longleftrightarrow> s = r @ p"
  by (auto simp: strip_suffix_def strip_prefix_Some) (metis rev_append rev_rev_ident)

lemma ends_with_iff [text_simps]: "ends_with p s \<longleftrightarrow> (\<exists>r. s = r @ p)"
  by (auto simp: ends_with_def strip_suffix_Some)

lemma split_once_Some: "split_once d s = Some (a, b) \<Longrightarrow> s = a @ d @ b"
  by (induction d s arbitrary: a b rule: split_once.induct)
    (auto simp: strip_prefix_Some split: if_splits option.splits)

lemma strip_prefix_prefix:
  "strip_prefix d (a @ r) = None \<or> length a < length d \<or> strip_prefix d a \<noteq> None"
  by (induction d a rule: strip_prefix.induct) auto

lemma strip_prefix_length: "strip_prefix d s = Some r \<Longrightarrow> length s = length d + length r"
  by (simp add: strip_prefix_Some)

lemma strip_prefix_mono:
  "strip_prefix d s = Some r \<Longrightarrow> strip_prefix d (s @ t) = Some (r @ t)"
  by (simp add: strip_prefix_Some)

text \<open>
  The first occurrence stays the first when what follows the delimiter is replaced: the
  search never looks beyond the end of the delimiter it finds.
\<close>

lemma strip_prefix_change_rest:
  assumes "length d \<le> length s" "strip_prefix d (s @ t) = None"
  shows "strip_prefix d (s @ u) = None"
  using assms by (induction d s rule: strip_prefix.induct) auto

lemma split_once_change_rest:
  "split_once d s = Some (a, b) \<Longrightarrow> d \<noteq> [] \<Longrightarrow> split_once d (a @ d @ c) = Some (a, c)"
proof (induction d s arbitrary: a b rule: split_once.induct)
  case (1 d)
  then show ?case by simp
next
  case (2 d x cs)
  show ?case
  proof (cases "strip_prefix d (x # cs)")
    case None
    then obtain a' where a: "a = x # a'" and rec: "split_once d cs = Some (a', b)"
      using "2.prems" by auto
    from rec have cs: "x # cs = (x # a' @ d) @ b" by (simp add: split_once_Some)
    have "strip_prefix d ((x # a' @ d) @ c) = None"
      using None unfolding cs by (rule strip_prefix_change_rest [rotated]) simp
    then show ?thesis using a "2.IH" [OF None rec "2.prems"(2)] by simp
  next
    case (Some r)
    then show ?thesis using "2.prems" by (cases d) auto
  qed
qed

lemma split_once_None: "split_once d s = None \<longleftrightarrow> (\<forall>a b. s \<noteq> a @ d @ b)"
proof
  show "split_once d s = None \<Longrightarrow> \<forall>a b. s \<noteq> a @ d @ b"
  proof (induction d s rule: split_once.induct)
    case (2 d c cs)
    then have none: "strip_prefix d (c # cs) = None" and rec: "split_once d cs = None"
      by (auto split: option.splits)
    from "2.IH" [OF none rec] none show ?case
      by (metis append_Cons append_Nil append_eq_Cons_conv strip_prefix_Some option.distinct(1))
  qed (auto split: if_splits)
next
  assume "\<forall>a b. s \<noteq> a @ d @ b"
  then show "split_once d s = None"
    by (metis option.exhaust split_once_Some surj_pair)
qed

lemma contains_str_iff [text_simps]: "contains_str d s \<longleftrightarrow> (\<exists>a b. s = a @ d @ b)"
  by (auto simp: contains_str_def split_once_None simp del: not_None_eq)

lemma split_once_single:
  "x \<notin> set a \<Longrightarrow> split_once [x] (a @ x # b) = Some (a, b)"
  by (induction a) auto

lemma split_once_single_None: "split_once [x] s = None \<longleftrightarrow> x \<notin> set s"
  by (auto simp: split_once_None) (metis split_list)

lemma split_once_single_Some:
  "split_once [x] s = Some (a, b) \<longleftrightarrow> s = a @ x # b \<and> x \<notin> set a"
proof
  show "split_once [x] s = Some (a, b) \<Longrightarrow> s = a @ x # b \<and> x \<notin> set a"
    by (induction s arbitrary: a b) (auto split: if_splits)
qed (simp add: split_once_single)

lemma split_on_not_Nil [simp]: "split_on d s \<noteq> []"
  by (induction s) (auto split: list.splits)

lemma join_split_on [simp]: "join_with [d] (split_on d s) = s"
proof (induction s)
  case (Cons c cs)
  then show ?case
    by (cases "split_on d cs"; cases "tl (split_on d cs)") auto
qed simp

lemma split_on_no_sep: "p \<in> set (split_on d s) \<Longrightarrow> d \<notin> set p"
  by (induction s arbitrary: p) (auto split: list.splits if_splits)

lemma split_on_append_sep:
  "d \<notin> set p \<Longrightarrow> split_on d (p @ d # s) = p # split_on d s"
  by (induction p) auto

lemma split_on_single: "d \<notin> set p \<Longrightarrow> split_on d p = [p]"
  by (induction p) auto

section \<open>Decimal numbers\<close>

definition digit_char :: "nat \<Rightarrow> char" where
  "digit_char d = char_of (48 + d)"

definition digit_val :: "char \<Rightarrow> nat option" where
  "digit_val c = (let n = of_char c :: nat in if 48 \<le> n \<and> n \<le> 57 then Some (n - 48) else None)"

fun show_nat :: "nat \<Rightarrow> str" where
  "show_nat n = (if n < 10 then [digit_char n] else show_nat (n div 10) @ [digit_char (n mod 10)])"

declare show_nat.simps [simp del]

fun read_digits :: "nat \<Rightarrow> str \<Rightarrow> nat option" where
  "read_digits acc [] = Some acc"
| "read_digits acc (c # cs) =
     (case digit_val c of Some d \<Rightarrow> read_digits (10 * acc + d) cs | None \<Rightarrow> None)"

text \<open>
  \<open><uN as FromStr>::from_str\<close>: an optional \<open>+\<close>, at least one digit, no other byte, and a
  value that does not exceed the type's maximum.
\<close>

definition parse_unsigned :: "nat \<Rightarrow> str \<Rightarrow> nat option" where
  "parse_unsigned bound s =
     (let ds = (case s of CHR ''+'' # r \<Rightarrow> r | _ \<Rightarrow> s)
      in if ds = [] then None
         else case read_digits 0 ds of
                Some n \<Rightarrow> if n \<le> bound then Some n else None
              | None \<Rightarrow> None)"

lemma digit_val_digit_char [simp]: "d < 10 \<Longrightarrow> digit_val (digit_char d) = Some d"
  by (simp add: digit_val_def digit_char_def Let_def)

lemma digit_char_not_plus: "d < 10 \<Longrightarrow> digit_char d \<noteq> CHR ''+''"
proof
  assume "d < 10" and "digit_char d = CHR ''+''"
  then have "digit_val (CHR ''+'') = Some d" by (metis digit_val_digit_char)
  then show False by (simp add: digit_val_def)
qed

lemma read_digits_append:
  "read_digits acc (s @ t) = Option.bind (read_digits acc s) (\<lambda>n. read_digits n t)"
  by (induction acc s rule: read_digits.induct) (auto split: option.splits)

lemma read_show_nat [simp]: "read_digits 0 (show_nat n) = Some n"
proof (induction n rule: show_nat.induct)
  case (1 n)
  then show ?case
    by (subst show_nat.simps) (auto simp: read_digits_append)
qed

lemma show_nat_inject [simp]: "show_nat m = show_nat n \<longleftrightarrow> m = n"
  by (metis option.inject read_show_nat)

lemma show_nat_not_Nil [simp]: "show_nat n \<noteq> []"
  by (subst show_nat.simps) auto

definition is_digit_char :: "char \<Rightarrow> bool" where
  "is_digit_char c \<longleftrightarrow> digit_val c \<noteq> None"

lemma show_nat_digits: "c \<in> set (show_nat n) \<Longrightarrow> is_digit_char c"
proof (induction n rule: show_nat.induct)
  case (1 n)
  then show ?case
    by (subst (asm) show_nat.simps) (auto simp: is_digit_char_def split: if_splits)
qed

lemma parse_show_nat: "n \<le> bound \<Longrightarrow> parse_unsigned bound (show_nat n) = Some n"
proof -
  assume le: "n \<le> bound"
  obtain c cs where s: "show_nat n = c # cs" by (cases "show_nat n") auto
  then have "is_digit_char c" using show_nat_digits [of c n] by simp
  then have "c \<noteq> CHR ''+''" by (auto simp: is_digit_char_def digit_val_def)
  then have "(case show_nat n of CHR ''+'' # r \<Rightarrow> r | _ \<Rightarrow> show_nat n) = show_nat n"
    unfolding s by (auto split: list.splits char.splits bool.splits)
  then show ?thesis using le by (simp add: parse_unsigned_def)
qed

section \<open>Case and white space\<close>

text \<open>
  \<open>to_ascii_lowercase\<close>, and \<open>str::trim\<close>: the UTF-8 encodings of the code points with
  the Unicode \<open>White_Space\<close> property, removed from both ends.
\<close>

definition lower_char :: "char \<Rightarrow> char" where
  "lower_char c = (let n = of_char c :: nat in if 65 \<le> n \<and> n \<le> 90 then char_of (n + 32) else c)"

definition ascii_lower :: "str \<Rightarrow> str" where
  "ascii_lower s = map lower_char s"

definition white_space :: "str list" where
  "white_space =
     map (map char_of)
       ([[9], [10], [11], [12], [13], [32], [194, 133], [194, 160], [225, 154, 128]] @
        map (\<lambda>n. [226, 128, n]) ([128, 129, 130, 131, 132, 133, 134, 135, 136, 137, 138] @ [168, 169, 175]) @
        [[226, 129, 159], [227, 128, 128 :: nat]])"

function trim_seqs :: "'a list list \<Rightarrow> 'a list \<Rightarrow> 'a list" where
  "trim_seqs ws s =
     (case List.find (\<lambda>w. w \<noteq> [] \<and> starts_with w s) ws of
        None \<Rightarrow> s
      | Some w \<Rightarrow> trim_seqs ws (drop (length w) s))"
  by pat_completeness auto
termination
  by (relation "measure (\<lambda>(ws, s). length s)") (auto simp: find_Some_iff starts_with_iff)

declare trim_seqs.simps [simp del]

definition trim_str :: "str \<Rightarrow> str" where
  "trim_str s = rev (trim_seqs (map rev white_space) (rev (trim_seqs white_space s)))"

text \<open>A text with no white space at its ends, both conditions evaluable.\<close>

definition trimmed :: "str \<Rightarrow> bool" where
  "trimmed s \<longleftrightarrow>
     \<not> list_ex (\<lambda>w. starts_with w s) white_space \<and>
     \<not> list_ex (\<lambda>w. starts_with w (rev s)) (map rev white_space)"

lemma trim_seqs_id: "\<not> list_ex (\<lambda>w. starts_with w s) ws \<Longrightarrow> trim_seqs ws s = s"
proof -
  assume "\<not> list_ex (\<lambda>w. starts_with w s) ws"
  then have "List.find (\<lambda>w. w \<noteq> [] \<and> starts_with w s) ws = None"
    by (simp add: list_ex_iff find_None_iff)
  then show ?thesis by (simp add: trim_seqs.simps [of ws s])
qed

lemmas trimmed_eval = trimmed_def white_space_def starts_with_def char_of_eq_iff take_bit_nat_def

lemma trim_str_trimmed: "trimmed s \<Longrightarrow> trim_str s = s"
  by (simp add: trimmed_def trim_str_def trim_seqs_id)

lemma trim_seqs_suffix: "\<exists>p. s = p @ trim_seqs ws s"
proof (induction ws s rule: trim_seqs.induct)
  case (1 ws s)
  show ?case
  proof (cases "List.find (\<lambda>w. w \<noteq> [] \<and> starts_with w s) ws")
    case None
    then show ?thesis by (simp add: trim_seqs.simps [of ws s])
  next
    case (Some w)
    then have "s = w @ drop (length w) s" by (auto simp: find_Some_iff starts_with_iff)
    moreover obtain p where "drop (length w) s = p @ trim_seqs ws (drop (length w) s)"
      using "1.IH" [OF Some] by blast
    ultimately show ?thesis
      using Some by (simp add: trim_seqs.simps [of ws s]) (metis append.assoc)
  qed
qed

lemma trim_seqs_stops: "w \<in> set ws \<Longrightarrow> w \<noteq> [] \<Longrightarrow> \<not> starts_with w (trim_seqs ws s)"
proof (induction ws s rule: trim_seqs.induct)
  case (1 ws s)
  show ?case
  proof (cases "List.find (\<lambda>w. w \<noteq> [] \<and> starts_with w s) ws")
    case None
    then have "trim_seqs ws s = s" by (simp add: trim_seqs.simps [of ws s])
    then show ?thesis using None "1.prems" by (auto simp: find_None_iff)
  next
    case (Some w')
    then show ?thesis using "1.IH" "1.prems" by (simp add: trim_seqs.simps [of ws s])
  qed
qed

section \<open>First occurrences\<close>

text \<open>\<open>firsts\<close> lists the distinct elements in order of first occurrence.\<close>

fun firsts :: "'a list \<Rightarrow> 'a list \<Rightarrow> 'a list" where
  "firsts seen [] = []"
| "firsts seen (x # xs) = (if x \<in> set seen then firsts seen xs else x # firsts (x # seen) xs)"

lemma firsts_snoc:
  "firsts seen (xs @ [x]) = firsts seen xs @ (if x \<in> set seen \<union> set xs then [] else [x])"
  by (induction seen xs rule: firsts.induct) auto

lemma set_firsts: "set (firsts seen xs) = set xs - set seen"
  by (induction seen xs rule: firsts.induct) auto

lemma distinct_firsts: "distinct (firsts seen xs)"
  by (induction seen xs rule: firsts.induct) (auto simp: set_firsts)

text \<open>The first value in a list of options.\<close>

fun first_some :: "'a option list \<Rightarrow> 'a option" where
  "first_some [] = None"
| "first_some (x # xs) = (case x of Some v \<Rightarrow> Some v | None \<Rightarrow> first_some xs)"

lemma first_some_append:
  "first_some (xs @ ys) = (case first_some xs of Some v \<Rightarrow> Some v | None \<Rightarrow> first_some ys)"
  by (induction xs) (auto split: option.splits)

section \<open>\<open>std::io::Error\<close>\<close>

datatype io_kind =
    InvalidData | InvalidInput | TimedOut | ConnectionAborted | UnexpectedEof | PermissionDenied
  | NotFound | NotConnected | Unsupported | OtherIo

datatype io_error = IoError io_kind str

end
