(* ===== verification/Store.thy ===== *)
theory Store
  imports Prelude "HOL-Library.Product_Lexorder"
begin

text \<open>
  The keyed containers of the sources. \<open>serde_json::Map\<close> (a \<open>BTreeMap\<close>, as the
  crate is built without \<open>preserve_order\<close>) and every \<open>HashMap\<close> with string keys are
  association lists kept sorted by key, so equal maps are equal lists and the iteration of a
  \<open>BTreeMap\<close> is the list itself. No definition of the development iterates over a map
  that is a \<open>HashMap\<close> in the code unless the code sorts what it collects, but for one search:
  \<open>call_target\<close> looks for the override with a given exposed name, where the code takes whichever
  its iteration meets first and the model the first by key.
  The locale \<open>keyed_store\<close> is the interface the components use: what a lookup returns
  after an insert and after a removal; \<open>smap\<close> is its interpretation.
\<close>

section \<open>The interface of a keyed store\<close>

locale keyed_store =
  fixes get :: "'k \<Rightarrow> 's \<Rightarrow> 'v option"
    and put :: "'k \<Rightarrow> 'v \<Rightarrow> 's \<Rightarrow> 's"
    and del :: "'k \<Rightarrow> 's \<Rightarrow> 's"
    and emp :: 's
  assumes get_emp: "get k emp = None"
    and get_put: "get k (put k' v s) = (if k = k' then Some v else get k s)"
    and get_del: "get k (del k' s) = (if k = k' then None else get k s)"
begin

lemma get_put_same: "get k (put k v s) = Some v"
  by (simp add: get_put)

lemma get_put_other: "k \<noteq> k' \<Longrightarrow> get k (put k' v s) = get k s"
  by (simp add: get_put)

lemma get_del_same: "get k (del k s) = None"
  by (simp add: get_del)

lemma get_puts:
  "get k (foldl (\<lambda>s (k, v). put k v s) s kvs) =
     (case map_of (rev kvs) k of Some v \<Rightarrow> Some v | None \<Rightarrow> get k s)"
  by (induction kvs arbitrary: s)
    (auto simp: get_put map_add_def split: option.splits)

lemma get_puts_notin:
  "k \<notin> fst ` set kvs \<Longrightarrow> get k (foldl (\<lambda>s (k, v). put k v s) s kvs) = get k s"
  by (simp add: get_puts map_of_eq_None_iff [THEN iffD2])

lemma get_puts_in:
  "distinct (map fst kvs) \<Longrightarrow> (k, v) \<in> set kvs \<Longrightarrow>
     get k (foldl (\<lambda>s (k, v). put k v s) s kvs) = Some v"
  by (simp add: get_puts map_of_is_SomeI rev_map [symmetric])

lemma get_dels:
  "get k (foldl (\<lambda>s k. del k s) s ks) = (if k \<in> set ks then None else get k s)"
  by (induction ks arbitrary: s) (auto simp: get_del)

end

section \<open>Sorted association lists\<close>

type_synonym ('k, 'v) smap = "('k \<times> 'v) list"

fun smap_get :: "'k \<Rightarrow> ('k, 'v) smap \<Rightarrow> 'v option" where
  "smap_get k [] = None"
| "smap_get k ((a, v) # m) = (if k = a then Some v else smap_get k m)"

fun smap_put :: "'k::linorder \<Rightarrow> 'v \<Rightarrow> ('k, 'v) smap \<Rightarrow> ('k, 'v) smap" where
  "smap_put k v [] = [(k, v)]"
| "smap_put k v ((a, w) # m) =
     (if k < a then (k, v) # (a, w) # m
      else if k = a then (k, v) # m
      else (a, w) # smap_put k v m)"

definition smap_del :: "'k \<Rightarrow> ('k, 'v) smap \<Rightarrow> ('k, 'v) smap" where
  "smap_del k m = filter (\<lambda>e. fst e \<noteq> k) m"

definition smap_puts :: "('k::linorder, 'v) smap \<Rightarrow> ('k \<times> 'v) list \<Rightarrow> ('k, 'v) smap" where
  "smap_puts m kvs = foldl (\<lambda>s (k, v). smap_put k v s) m kvs"

abbreviation smap_keys :: "('k, 'v) smap \<Rightarrow> 'k list" where
  "smap_keys m \<equiv> map fst m"

definition smap_wf :: "('k::linorder, 'v) smap \<Rightarrow> bool" where
  "smap_wf m \<longleftrightarrow> sorted_wrt (<) (smap_keys m)"

lemma smap_get_put: "smap_get k (smap_put k' v m) = (if k = k' then Some v else smap_get k m)"
  by (induction m) auto

lemma smap_get_del: "smap_get k (smap_del k' m) = (if k = k' then None else smap_get k m)"
  by (induction m) (auto simp: smap_del_def)

interpretation smap: keyed_store smap_get smap_put smap_del "[]"
  by unfold_locales (simp_all add: smap_get_put smap_get_del)

declare smap_get_put [store_simps] smap_get_del [store_simps]

lemma smap_get_None: "smap_get k m = None \<longleftrightarrow> k \<notin> set (smap_keys m)"
  by (induction k m rule: smap_get.induct) auto

lemma smap_get_in: "smap_get k m = Some v \<Longrightarrow> (k, v) \<in> set m"
  by (induction m) (auto split: if_splits)

lemma smap_get_of_in: "smap_wf m \<Longrightarrow> (k, v) \<in> set m \<Longrightarrow> smap_get k m = Some v"
  by (induction m) (auto simp: smap_wf_def)

lemma smap_keys_put: "set (smap_keys (smap_put k v m)) = insert k (set (smap_keys m))"
  by (induction k v m rule: smap_put.induct) auto

lemma smap_keys_del: "set (smap_keys (smap_del k m)) = set (smap_keys m) - {k}"
  by (auto simp: smap_del_def)

lemma smap_wf_Nil [simp]: "smap_wf []"
  by (simp add: smap_wf_def)

lemma smap_wf_put: "smap_wf m \<Longrightarrow> smap_wf (smap_put k v m)"
proof (induction m)
  case (Cons e m)
  then show ?case
    using smap_keys_put [of k v m] by (cases e) (auto simp: smap_wf_def)
qed (simp add: smap_wf_def)

lemma smap_wf_del: "smap_wf m \<Longrightarrow> smap_wf (smap_del k m)"
  by (induction m) (auto simp: smap_wf_def smap_del_def)

lemma smap_wf_puts: "smap_wf m \<Longrightarrow> smap_wf (smap_puts m kvs)"
  by (induction kvs arbitrary: m) (auto simp: smap_puts_def smap_wf_put)

lemma smap_wf_filter: "smap_wf m \<Longrightarrow> smap_wf (filter p m)"
  by (induction m) (auto simp: smap_wf_def)

lemma smap_wf_distinct: "smap_wf m \<Longrightarrow> distinct (smap_keys m)"
  by (simp add: smap_wf_def strict_sorted_iff)

text \<open>Two well-formed maps with the same lookups are the same list.\<close>

lemma smap_wf_map_of: "smap_get k m = map_of m k"
  by (induction m) auto

lemma smap_ext:
  assumes "smap_wf m" "smap_wf n" "\<And>k. smap_get k m = smap_get k n"
  shows "m = n"
proof (rule map_sorted_distinct_set_unique [where f = fst])
  show "set m = set n"
    using assms smap_get_in smap_get_of_in by (metis subrelI subset_antisym)
  then show "inj_on fst (set m \<union> set n)"
    using smap_wf_distinct [OF assms(1)] by (simp add: distinct_map)
  show "sorted (smap_keys m)" "distinct (smap_keys m)"
    "sorted (smap_keys n)" "distinct (smap_keys n)"
    using assms(1,2) by (auto simp: smap_wf_def strict_sorted_iff)
qed

lemma smap_put_same: "smap_wf m \<Longrightarrow> smap_get k m = Some v \<Longrightarrow> smap_put k v m = m"
  by (rule smap_ext) (auto simp: smap_wf_put smap_get_put)

lemma smap_del_absent: "k \<notin> set (smap_keys m) \<Longrightarrow> smap_del k m = m"
  by (induction m) (auto simp: smap_del_def)

lemma smap_get_puts:
  "smap_get k (smap_puts m kvs) =
     (case map_of (rev kvs) k of Some v \<Rightarrow> Some v | None \<Rightarrow> smap_get k m)"
  unfolding smap_puts_def by (rule smap.get_puts)

lemma smap_get_puts_wf:
  assumes "smap_wf m"
  shows "smap_get k (smap_puts s m) = (case smap_get k m of Some v \<Rightarrow> Some v | None \<Rightarrow> smap_get k s)"
proof -
  have "distinct (map fst (rev m))"
    using smap_wf_distinct [OF assms] by (simp add: rev_map [symmetric])
  then have "map_of (rev m) = map_of m"
    using smap_wf_distinct [OF assms] by (intro map_of_eqI) auto
  then show ?thesis unfolding smap_get_puts by (simp add: smap_wf_map_of)
qed

end
