(* ===== verification/Json.thy ===== *)
theory Json
  imports Store F64
begin

text \<open>
  \<open>serde_json::Value\<close> and the helpers of \<open>src/src/jsonrpc.rs\<close> over it. An object is
  a \<open>smap\<close>: \<open>serde_json::Map\<close> is a \<open>BTreeMap\<close> in this build. A number keeps the
  three variants of \<open>serde_json::Number\<close> (\<open>PosInt(u64)\<close>, \<open>NegInt(i64)\<close>,
  \<open>Float(f64)\<close>), whose derived equality never identifies two variants. Text encoding
  and parsing are the \<open>serde_json\<close> crate's and are parameters wherever they are used.
\<close>

datatype num = PosInt nat | NegInt int | Float f64

datatype json =
    JNull
  | JBool bool
  | JNum num
  | JStr str
  | JArr "json list"
  | JObj "(str \<times> json) list"

text \<open>The ranges of \<open>u64\<close> and \<open>i64\<close>, and sorted keys at every level.\<close>

fun wf_num :: "num \<Rightarrow> bool" where
  "wf_num (PosInt n) = (n < 2 ^ 64)"
| "wf_num (NegInt i) = (- (2 ^ 63) \<le> i \<and> i < 0)"
| "wf_num (Float x) = (x \<noteq> PInf \<and> x \<noteq> NInf \<and> x \<noteq> NaN)"

lemma size_json_entry [termination_simp]:
  "(k, v) \<in> set kvs \<Longrightarrow> size v < Suc (size_list (size_prod size size) kvs)"
  by (induction kvs) auto

fun wf_json :: "json \<Rightarrow> bool" where
  "wf_json (JNum n) = wf_num n"
| "wf_json (JArr vs) = (\<forall>v \<in> set vs. wf_json v)"
| "wf_json (JObj kvs) = (smap_wf kvs \<and> (\<forall>(k, v) \<in> set kvs. wf_json v))"
| "wf_json _ = True"

section \<open>Building objects and arrays\<close>

definition jobj :: "(str \<times> json) list \<Rightarrow> json" where
  "jobj kvs = JObj (smap_puts [] kvs)"

definition jint :: "int \<Rightarrow> json" where
  "jint i = JNum (if i < 0 then NegInt i else PosInt (nat i))"

definition jnat :: "nat \<Rightarrow> json" where
  "jnat n = JNum (PosInt n)"

definition jopt_str :: "str option \<Rightarrow> json" where
  "jopt_str s = (case s of None \<Rightarrow> JNull | Some t \<Rightarrow> JStr t)"

section \<open>Accessors\<close>

text \<open>\<open>Value::get(&str)\<close>, \<open>Value::as_*\<close> and \<open>value["key"]\<close> (\<open>Null\<close> when absent).\<close>

fun jget :: "str \<Rightarrow> json \<Rightarrow> json option" where
  "jget k (JObj ob) = smap_get k ob"
| "jget k _ = None"

fun as_str :: "json \<Rightarrow> str option" where
  "as_str (JStr s) = Some s"
| "as_str _ = None"

fun as_array :: "json \<Rightarrow> json list option" where
  "as_array (JArr vs) = Some vs"
| "as_array _ = None"

fun as_object :: "json \<Rightarrow> (str, json) smap option" where
  "as_object (JObj ob) = Some ob"
| "as_object _ = None"

fun as_bool :: "json \<Rightarrow> bool option" where
  "as_bool (JBool b) = Some b"
| "as_bool _ = None"

fun as_u64 :: "json \<Rightarrow> nat option" where
  "as_u64 (JNum (PosInt n)) = Some n"
| "as_u64 _ = None"

fun as_i64 :: "json \<Rightarrow> int option" where
  "as_i64 (JNum (PosInt n)) = (if n < 2 ^ 63 then Some (int n) else None)"
| "as_i64 (JNum (NegInt i)) = Some i"
| "as_i64 _ = None"

fun as_f64 :: "json \<Rightarrow> f64 option" where
  "as_f64 (JNum (PosInt n)) = Some (f64_of_nat n)"
| "as_f64 (JNum (NegInt i)) = Some (f64_of_int i)"
| "as_f64 (JNum (Float x)) = Some x"
| "as_f64 _ = None"

definition is_object :: "json \<Rightarrow> bool" where
  "is_object v \<longleftrightarrow> as_object v \<noteq> None"

definition jindex :: "json \<Rightarrow> str \<Rightarrow> json" where
  "jindex v k = (case jget k v of Some w \<Rightarrow> w | None \<Rightarrow> JNull)"

definition unwrap_or :: "'a option \<Rightarrow> 'a \<Rightarrow> 'a" where
  "unwrap_or x d = (case x of Some v \<Rightarrow> v | None \<Rightarrow> d)"

text \<open>\<open>v.get(k).and_then(Value::as_str)\<close>, the most common chain of the sources.\<close>

definition get_str :: "str \<Rightarrow> json \<Rightarrow> str option" where
  "get_str k v = Option.bind (jget k v) as_str"

definition get_array :: "str \<Rightarrow> json \<Rightarrow> json list option" where
  "get_array k v = Option.bind (jget k v) as_array"

text \<open>\<open>if let Some(object) = v.as_object_mut() { object.insert(k, w); }\<close> and the removal.\<close>

fun jput :: "str \<Rightarrow> json \<Rightarrow> json \<Rightarrow> json" where
  "jput k w (JObj ob) = JObj (smap_put k w ob)"
| "jput k w v = v"

fun jdel :: "str \<Rightarrow> json \<Rightarrow> json" where
  "jdel k (JObj ob) = JObj (smap_del k ob)"
| "jdel k v = v"

text \<open>\<open>if let Some(x) = v.get_mut(k) { *x = f(x) }\<close>\<close>

definition jmodify :: "str \<Rightarrow> (json \<Rightarrow> json) \<Rightarrow> json \<Rightarrow> json" where
  "jmodify k f v = (case jget k v of Some x \<Rightarrow> jput k (f x) v | None \<Rightarrow> v)"

text \<open>\<open>v.as_object().cloned().unwrap_or_default()\<close>, and the same as a value.\<close>

definition obj_or_empty :: "json \<Rightarrow> (str, json) smap" where
  "obj_or_empty v = unwrap_or (as_object v) []"

section \<open>JSON-RPC helpers (\<open>jsonrpc.rs\<close>)\<close>

definition INVALID_REQUEST :: int where "INVALID_REQUEST = - 32600"
definition METHOD_NOT_FOUND :: int where "METHOD_NOT_FOUND = - 32601"
definition INVALID_PARAMS :: int where "INVALID_PARAMS = - 32602"
definition INTERNAL_ERROR :: int where "INTERNAL_ERROR = - 32603"

lemmas jsonrpc_code_defs =
  INVALID_REQUEST_def METHOD_NOT_FOUND_def INVALID_PARAMS_def INTERNAL_ERROR_def

definition method_of :: "json \<Rightarrow> str option" where
  "method_of v = get_str ''method'' v"

text \<open>The two reply shapes every layer builds with \<open>json!\<close>.\<close>

definition rpc_result :: "json \<Rightarrow> json \<Rightarrow> json" where
  "rpc_result rid r = jobj [(''jsonrpc'', JStr ''2.0''), (''id'', rid), (''result'', r)]"

definition rpc_error_value :: "json \<Rightarrow> json \<Rightarrow> json" where
  "rpc_error_value rid e = jobj [(''jsonrpc'', JStr ''2.0''), (''id'', rid), (''error'', e)]"

definition rpc_error :: "json \<Rightarrow> int \<Rightarrow> str \<Rightarrow> json" where
  "rpc_error rid code msg =
     rpc_error_value rid (jobj [(''code'', jint code), (''message'', JStr msg)])"

section \<open>Lemmas\<close>

lemma jget_jput [json_simps]:
  "jget k (jput k' w v) = (if k = k' \<and> is_object v then Some w else jget k v)"
  by (cases v) (auto simp: store_simps is_object_def)

lemma jget_jdel [json_simps]: "jget k (jdel k' v) = (if k = k' then None else jget k v)"
  by (cases v) (auto simp: store_simps)

lemma jget_is_object: "jget k v = Some w \<Longrightarrow> is_object v"
  by (cases v) (auto simp: is_object_def)

lemma jget_jmodify [json_simps]:
  "jget k (jmodify k' f v) = (if k = k' then map_option f (jget k v) else jget k v)"
  by (auto simp: jmodify_def jget_jput jget_is_object split: option.splits)

lemma is_object_jput [simp]: "is_object (jput k w v) = is_object v"
  by (cases v) (auto simp: is_object_def)

lemma is_object_JObj [simp]: "is_object (JObj ob)"
  by (simp add: is_object_def)

lemma is_objectE: "is_object v \<Longrightarrow> (\<And>ob. v = JObj ob \<Longrightarrow> P) \<Longrightarrow> P"
  by (cases v) (auto simp: is_object_def)

lemma jget_jobj [json_simps]: "jget k (jobj kvs) = map_of (rev kvs) k"
  by (auto simp: jobj_def smap_get_puts split: option.splits)

lemma is_object_jobj [simp]: "is_object (jobj kvs)"
  by (simp add: jobj_def)

lemma jobj_eq_JObj: "jobj kvs = JObj ob \<longleftrightarrow> ob = smap_puts [] kvs"
  by (auto simp: jobj_def)

lemma jindex_jobj [json_simps]: "jindex (jobj kvs) k = unwrap_or (map_of (rev kvs) k) JNull"
  by (simp add: jindex_def json_simps unwrap_or_def)

lemma unwrap_or_simps [simp]: "unwrap_or (Some v) d = v" "unwrap_or None d = d"
  by (simp_all add: unwrap_or_def)

lemma as_str_Some: "as_str v = Some s \<longleftrightarrow> v = JStr s" "Some s = as_str v \<longleftrightarrow> v = JStr s"
  by (cases v; auto)+

lemma as_array_Some: "as_array v = Some vs \<longleftrightarrow> v = JArr vs" "Some vs = as_array v \<longleftrightarrow> v = JArr vs"
  by (cases v; auto)+

lemma as_object_Some: "as_object v = Some ob \<longleftrightarrow> v = JObj ob" "Some ob = as_object v \<longleftrightarrow> v = JObj ob"
  by (cases v; auto)+

lemma get_as_object [json_simps]: "smap_get k (unwrap_or (as_object v) []) = jget k v"
  by (cases v) auto

lemma get_str_jput:
  "get_str k (jput k' (JStr s) v) = (if k = k' \<and> is_object v then Some s else get_str k v)"
  by (simp add: get_str_def json_simps)

lemma wf_json_jput: "wf_json v \<Longrightarrow> wf_json w \<Longrightarrow> wf_json (jput k w v)"
proof (cases v)
  case (JObj ob)
  assume wf: "wf_json v" "wf_json w"
  have "set (smap_put k w ob) \<subseteq> insert (k, w) (set ob)"
    by (induction k w ob rule: smap_put.induct) auto
  then show ?thesis using wf JObj by (auto simp: smap_wf_put)
qed auto

lemma wf_json_puts:
  "wf_json (JObj ob) \<Longrightarrow> \<forall>(k, v) \<in> set kvs. wf_json v \<Longrightarrow> wf_json (JObj (smap_puts ob kvs))"
proof (induction kvs arbitrary: ob)
  case (Cons e kvs)
  obtain k v where e: "e = (k, v)" by force
  have "wf_json (jput k v (JObj ob))" using Cons.prems e by (intro wf_json_jput) auto
  then show ?case using Cons e by (auto simp: smap_puts_def)
qed (simp add: smap_puts_def)

lemma wf_json_jobj: "\<forall>(k, v) \<in> set kvs. wf_json v \<Longrightarrow> wf_json (jobj kvs)"
  unfolding jobj_def by (rule wf_json_puts) (auto simp del: wf_json.simps simp: wf_json.simps(3))

lemma wf_json_get: "wf_json v \<Longrightarrow> jget k v = Some w \<Longrightarrow> wf_json w"
  by (cases v) (auto dest: smap_get_in)

end
