(* ===== verification/Cache.thy ===== *)
theory Cache
  imports Json
begin

text \<open>
  \<open>src/src/cache.rs\<close>: the shared cache of backend list results, keyed by backend and
  method. Times are \<open>f64\<close> seconds handed in by the caller. The last section relates a
  cache to the history of the operations on it: what a lookup serves is exactly what the
  latest store for that key left, unless something evicted it since.
\<close>

definition TTL_MS_KEY :: str where "TTL_MS_KEY = ''ttlMs''"
definition CACHE_SCOPE_KEY :: str where "CACHE_SCOPE_KEY = ''cacheScope''"
definition PUBLIC :: str where "PUBLIC = ''public''"
definition PRIVATE :: str where "PRIVATE = ''private''"
definition DEFAULT_TTL_MS :: f64 where "DEFAULT_TTL_MS = Fin 300000"

lemmas cache_key_defs = TTL_MS_KEY_def CACHE_SCOPE_KEY_def PUBLIC_def PRIVATE_def

record cache_entry =
  ce_result :: json
  ce_expires_at :: f64
  ce_scope :: str
  ce_principal :: "str option"

record list_cache =
  entries :: "(str \<times> str, cache_entry) smap"
  default_ttl_ms :: f64

definition cache_new :: "f64 \<Rightarrow> list_cache" where
  "cache_new ttl = \<lparr>entries = [], default_ttl_ms = ttl\<rparr>"

definition cache_get ::
  "str \<Rightarrow> str \<Rightarrow> str option \<Rightarrow> f64 \<Rightarrow> list_cache \<Rightarrow> json option \<times> list_cache" where
  "cache_get backend_id method princ now c =
     (let key = (backend_id, method)
      in case smap_get key (entries c) of
           None \<Rightarrow> (None, c)
         | Some e \<Rightarrow>
             if f64_le (ce_expires_at e) now
             then (None, c\<lparr>entries := smap_del key (entries c)\<rparr>)
             else if ce_scope e = PRIVATE \<and> ce_principal e \<noteq> princ then (None, c)
             else (Some (ce_result e), c))"

definition ttl_of :: "f64 \<Rightarrow> json \<Rightarrow> f64" where
  "ttl_of dflt result = unwrap_or (Option.bind (jget TTL_MS_KEY result) as_f64) dflt"

definition scope_of :: "json \<Rightarrow> str" where
  "scope_of result = (if get_str CACHE_SCOPE_KEY result = Some PRIVATE then PRIVATE else PUBLIC)"

definition make_entry :: "f64 \<Rightarrow> str option \<Rightarrow> json \<Rightarrow> f64 \<Rightarrow> cache_entry" where
  "make_entry dflt princ result now =
     \<lparr>ce_result = result,
      ce_expires_at = f64_add now (f64_div_const (ttl_of dflt result) 1000),
      ce_scope = scope_of result,
      ce_principal = (if scope_of result = PRIVATE then princ else None)\<rparr>"

definition cache_put ::
  "str \<Rightarrow> str \<Rightarrow> str option \<Rightarrow> json \<Rightarrow> f64 \<Rightarrow> list_cache \<Rightarrow> list_cache" where
  "cache_put backend_id method princ result now c =
     (let key = (backend_id, method)
      in if f64_le (ttl_of (default_ttl_ms c) result) (Fin 0)
         then c\<lparr>entries := smap_del key (entries c)\<rparr>
         else c\<lparr>entries := smap_put key (make_entry (default_ttl_ms c) princ result now) (entries c)\<rparr>)"

definition invalidate_backend :: "str \<Rightarrow> list_cache \<Rightarrow> list_cache" where
  "invalidate_backend backend_id c =
     c\<lparr>entries := filter (\<lambda>((bid, _), _). bid \<noteq> backend_id) (entries c)\<rparr>"

section \<open>Histories\<close>

datatype cache_op =
    CGet str str "str option" f64
  | CPut str str "str option" json f64
  | CInvalidate str

fun cache_step :: "list_cache \<Rightarrow> cache_op \<Rightarrow> list_cache" where
  "cache_step c (CGet b m p now) = snd (cache_get b m p now c)"
| "cache_step c (CPut b m p r now) = cache_put b m p r now c"
| "cache_step c (CInvalidate b) = invalidate_backend b c"

definition cache_run :: "f64 \<Rightarrow> cache_op list \<Rightarrow> list_cache" where
  "cache_run dflt ops = foldl cache_step (cache_new dflt) ops"

text \<open>The operations that remove or replace the entry \<open>e\<close> stored under key \<open>k\<close>.\<close>

fun evicts :: "str \<times> str \<Rightarrow> cache_entry \<Rightarrow> cache_op \<Rightarrow> bool" where
  "evicts k e (CGet b m p now) = ((b, m) = k \<and> f64_le (ce_expires_at e) now)"
| "evicts k e (CPut b m p r now) = ((b, m) = k)"
| "evicts k e (CInvalidate b) = (b = fst k)"

definition stores :: "f64 \<Rightarrow> str \<times> str \<Rightarrow> cache_entry \<Rightarrow> cache_op \<Rightarrow> bool" where
  "stores dflt k e op \<longleftrightarrow>
     (\<exists>p r now. op = CPut (fst k) (snd k) p r now \<and>
        \<not> f64_le (ttl_of dflt r) (Fin 0) \<and> e = make_entry dflt p r now)"

lemma smap_get_invalidate:
  "smap_get (b, m) (filter (\<lambda>((bid, _), _). bid \<noteq> b') s) =
     (if b = b' then None else smap_get (b, m) s)"
  by (induction s) auto

lemma step_default_ttl: "default_ttl_ms (cache_step c op) = default_ttl_ms c"
  by (cases op) (auto simp: cache_get_def cache_put_def invalidate_backend_def Let_def split: option.splits)

lemma run_default_ttl: "default_ttl_ms (cache_run dflt ops) = dflt"
  by (induction ops rule: rev_induct) (simp_all add: cache_run_def cache_new_def step_default_ttl)

lemma step_entry:
  "smap_get k (entries (cache_step c op)) = Some e \<longleftrightarrow>
     stores (default_ttl_ms c) k e op \<or> smap_get k (entries c) = Some e \<and> \<not> evicts k e op"
proof (cases op)
  case (CGet b m p now)
  then show ?thesis
    by (auto simp: cache_get_def Let_def stores_def store_simps split: option.splits)
next
  case (CPut b m p r now)
  then show ?thesis
    by (cases k) (auto simp: cache_put_def Let_def stores_def store_simps)
next
  case (CInvalidate b)
  then show ?thesis
    by (cases k) (auto simp: invalidate_backend_def stores_def smap_get_invalidate)
qed

lemma run_entry:
  "smap_get k (entries (cache_run dflt ops)) = Some e \<longleftrightarrow>
     (\<exists>pre op post. ops = pre @ op # post \<and> stores dflt k e op \<and> (\<forall>x \<in> set post. \<not> evicts k e x))"
proof (induction ops rule: rev_induct)
  case Nil
  then show ?case by (simp add: cache_run_def cache_new_def)
next
  case (snoc x ops)
  have "smap_get k (entries (cache_run dflt (ops @ [x]))) = Some e \<longleftrightarrow>
      stores dflt k e x \<or> smap_get k (entries (cache_run dflt ops)) = Some e \<and> \<not> evicts k e x"
    using step_entry [of k "cache_run dflt ops" x e] by (simp add: cache_run_def run_default_ttl [unfolded cache_run_def])
  also have "\<dots> \<longleftrightarrow> (\<exists>pre op post. ops @ [x] = pre @ op # post \<and> stores dflt k e op \<and>
      (\<forall>y \<in> set post. \<not> evicts k e y))" (is "_ \<longleftrightarrow> ?rhs")
  proof
    assume "stores dflt k e x \<or> smap_get k (entries (cache_run dflt ops)) = Some e \<and> \<not> evicts k e x"
    then show ?rhs
    proof
      assume "stores dflt k e x"
      then show ?rhs by (intro exI [of _ ops] exI [of _ x] exI [of _ "[]"]) simp
    next
      assume a: "smap_get k (entries (cache_run dflt ops)) = Some e \<and> \<not> evicts k e x"
      then obtain pre op post where "ops = pre @ op # post" "stores dflt k e op"
          "\<forall>y \<in> set post. \<not> evicts k e y" using snoc.IH by blast
      with a show ?rhs
        by (intro exI [of _ pre] exI [of _ op] exI [of _ "post @ [x]"]) auto
    qed
  next
    assume ?rhs
    then obtain pre op post where d: "ops @ [x] = pre @ op # post" "stores dflt k e op"
      "\<forall>y \<in> set post. \<not> evicts k e y" by blast
    show "stores dflt k e x \<or> smap_get k (entries (cache_run dflt ops)) = Some e \<and> \<not> evicts k e x"
    proof (cases post rule: rev_cases)
      case Nil
      then show ?thesis using d by simp
    next
      case (snoc post' y)
      with d have "ops = pre @ op # post'" "x = y" by auto
      then show ?thesis using d snoc snoc.IH by (metis Un_iff append.assoc list.set_intros(1) set_append)
    qed
  qed
  finally show ?case .
qed

lemma cache_get_Some:
  "fst (cache_get b m q now c) = Some r \<longleftrightarrow>
     (\<exists>e. smap_get (b, m) (entries c) = Some e \<and> \<not> f64_le (ce_expires_at e) now \<and>
        (ce_scope e = PRIVATE \<longrightarrow> ce_principal e = q) \<and> r = ce_result e)"
  by (auto simp: cache_get_def Let_def split: option.splits)

section \<open>Properties\<close>

text \<open>C13: A lookup serves a result exactly when some \<open>put\<close> for that backend and method with
  a positive TTL stored it, nothing since replaced, expired or invalidated it, its lifetime is
  not over, and, if the backend marked it private, the caller is the principal it was stored
  for.\<close>
theorem cache_serves_iff:
  "fst (cache_get b m q now (cache_run dflt ops)) = Some r \<longleftrightarrow>
     (\<exists>pre p t post. ops = pre @ CPut b m p r t # post \<and>
        \<not> f64_le (ttl_of dflt r) (Fin 0) \<and>
        \<not> list_ex (evicts (b, m) (make_entry dflt p r t)) post \<and>
        \<not> f64_le (ce_expires_at (make_entry dflt p r t)) now \<and>
        (if scope_of r = PRIVATE then p = q else True))" (is "?l = ?r")
proof
  assume ?l
  then obtain e where e: "smap_get (b, m) (entries (cache_run dflt ops)) = Some e"
      "\<not> f64_le (ce_expires_at e) now" "ce_scope e = PRIVATE \<Longrightarrow> ce_principal e = q" "r = ce_result e"
    unfolding cache_get_Some by blast
  then obtain pre p r' t post where o: "ops = pre @ CPut b m p r' t # post"
      "\<not> f64_le (ttl_of dflt r') (Fin 0)" and d: "e = make_entry dflt p r' t"
      and ev: "\<forall>x \<in> set post. \<not> evicts (b, m) e x"
    unfolding run_entry stores_def by auto
  have r': "r' = r" using d e(4) by (simp add: make_entry_def)
  have "if scope_of r = PRIVATE then p = q else True"
    using e(3) unfolding d r' by (simp add: make_entry_def)
  then show ?r using o ev e(2) unfolding d r' list_ex_iff by blast
next
  assume ?r
  then obtain pre p t post where h: "ops = pre @ CPut b m p r t # post"
      "\<not> f64_le (ttl_of dflt r) (Fin 0)" "\<not> list_ex (evicts (b, m) (make_entry dflt p r t)) post"
      "\<not> f64_le (ce_expires_at (make_entry dflt p r t)) now"
      "if scope_of r = PRIVATE then p = q else True" by blast
  have "smap_get (b, m) (entries (cache_run dflt ops)) = Some (make_entry dflt p r t)"
    unfolding run_entry stores_def using h(1,2,3) by (fastforce simp: list_ex_iff)
  then show ?l unfolding cache_get_Some using h(4,5) by (auto simp: make_entry_def)
qed

text \<open>A private result is never served to another principal, nor to an anonymous caller
  when it was stored for someone, whatever the history.\<close>
theorem cache_private_isolation:
  assumes served: "fst (cache_get b m q now (cache_run dflt ops)) = Some r"
    and priv: "scope_of r = PRIVATE"
  shows "\<exists>t. CPut b m q r t \<in> set ops"
proof -
  obtain e where e: "smap_get (b, m) (entries (cache_run dflt ops)) = Some e"
      "ce_scope e = PRIVATE \<Longrightarrow> ce_principal e = q" "r = ce_result e"
    using served unfolding cache_get_Some by blast
  then obtain pre p r' t post where "ops = pre @ CPut b m p r' t # post" "e = make_entry dflt p r' t"
    unfolding run_entry stores_def by auto
  then show ?thesis using e priv by (auto simp: make_entry_def)
qed

theorem cache_private_isolation_witness:
  "\<exists>t. CPut ''a'' ''tools/list'' (Some ''eve'') (jobj [(''cacheScope'', JStr ''private'')]) t
        \<in> set [CPut ''a'' ''tools/list'' (Some ''eve'') (jobj [(''cacheScope'', JStr ''private'')]) (Fin 0)]"
proof (rule cache_private_isolation [where now = "Fin 1" and dflt = "Fin 5000"])
  show "fst (cache_get ''a'' ''tools/list'' (Some ''eve'') (Fin 1) (cache_run (Fin 5000)
      [CPut ''a'' ''tools/list'' (Some ''eve'') (jobj [(''cacheScope'', JStr ''private'')]) (Fin 0)])) =
    Some (jobj [(''cacheScope'', JStr ''private'')])" by code_simp
  show "scope_of (jobj [(''cacheScope'', JStr ''private'')]) = PRIVATE" by code_simp
qed

end
