(* ===== verification/Pool.thy ===== *)
theory Pool
  imports Json
begin

text \<open>
  \<open>src/src/pool.rs\<close>: admission, idle deadlines and the in-flight registry of
  server-originated calls. Millisecond clocks are \<open>u64\<close>, kept at their width, so the
  deadline addition wraps as the release build's does. The key of a request id is its JSON
  text, which the \<open>serde_json\<close> crate renders: \<open>render\<close> is a parameter.
\<close>

definition admit :: "nat \<Rightarrow> nat \<Rightarrow> bool" where
  "admit in_flight cap \<longleftrightarrow> cap = 0 \<or> in_flight < cap"

definition deadline :: "u64 \<Rightarrow> u64 \<Rightarrow> u64" where
  "deadline now_ms idle_ms = (if idle_ms = 0 then 0 else now_ms + idle_ms)"

definition expired :: "u64 \<Rightarrow> u64 \<Rightarrow> bool" where
  "expired deadline_ms now_ms \<longleftrightarrow> deadline_ms \<noteq> 0 \<and> deadline_ms \<le> now_ms"

definition cancel_request_id :: "json \<Rightarrow> json option" where
  "cancel_request_id message =
     (if method_of message \<noteq> Some ''notifications/cancelled'' then None
      else Option.bind (jget ''params'' message) (jget ''requestId''))"

definition progress_token :: "json \<Rightarrow> json option" where
  "progress_token message =
     (if method_of message \<noteq> Some ''notifications/progress'' then None
      else Option.bind (jget ''params'' message) (jget ''progressToken''))"

type_synonym in_flight = "(str, u64) smap"

definition id_key :: "(json \<Rightarrow> str) \<Rightarrow> json \<Rightarrow> str" where
  "id_key render i = render i"

definition if_register :: "(json \<Rightarrow> str) \<Rightarrow> json \<Rightarrow> u64 \<Rightarrow> in_flight \<Rightarrow> in_flight" where
  "if_register render i deadline_ms s = smap_put (id_key render i) deadline_ms s"

definition if_contains :: "(json \<Rightarrow> str) \<Rightarrow> json \<Rightarrow> in_flight \<Rightarrow> bool" where
  "if_contains render i s \<longleftrightarrow> smap_get (id_key render i) s \<noteq> None"

definition if_touch :: "(json \<Rightarrow> str) \<Rightarrow> json \<Rightarrow> u64 \<Rightarrow> in_flight \<Rightarrow> bool \<times> in_flight" where
  "if_touch render i deadline_ms s =
     (case smap_get (id_key render i) s of
        Some _ \<Rightarrow> (True, smap_put (id_key render i) deadline_ms s)
      | None \<Rightarrow> (False, s))"

definition if_remove :: "(json \<Rightarrow> str) \<Rightarrow> json \<Rightarrow> in_flight \<Rightarrow> bool \<times> in_flight" where
  "if_remove render i s =
     (smap_get (id_key render i) s \<noteq> None, smap_del (id_key render i) s)"

definition if_count :: "in_flight \<Rightarrow> nat" where
  "if_count s = length s"

definition at_capacity :: "nat \<Rightarrow> in_flight \<Rightarrow> bool" where
  "at_capacity cap s \<longleftrightarrow> \<not> admit (if_count s) cap"

definition expired_ids :: "u64 \<Rightarrow> in_flight \<Rightarrow> str list" where
  "expired_ids now_ms s = sort (map fst (filter (\<lambda>(_, d). expired d now_ms) s))"

section \<open>Bookkeeping laws\<close>

datatype pool_op = PRegister json u64 | PTouch json u64 | PRemove json

fun pool_step :: "(json \<Rightarrow> str) \<Rightarrow> nat \<Rightarrow> in_flight \<Rightarrow> pool_op \<Rightarrow> in_flight" where
  "pool_step render cap s (PRegister i d) = (if at_capacity cap s then s else if_register render i d s)"
| "pool_step render cap s (PTouch i d) = snd (if_touch render i d s)"
| "pool_step render cap s (PRemove i) = snd (if_remove render i s)"

definition pool_run :: "(json \<Rightarrow> str) \<Rightarrow> nat \<Rightarrow> pool_op list \<Rightarrow> in_flight" where
  "pool_run render cap ops = foldl (pool_step render cap) [] ops"

lemma length_smap_put:
  "smap_wf m \<Longrightarrow> length (smap_put k v m) = (if smap_get k m = None then Suc (length m) else length m)"
proof -
  assume wf: "smap_wf m"
  have card: "length x = card (set (smap_keys x))" if "smap_wf x" for x :: "('a, 'b) smap"
    using smap_wf_distinct [OF that] by (metis distinct_card length_map)
  show ?thesis
    using card [OF wf] card [OF smap_wf_put [OF wf, of k v]] smap_get_None [of k m]
    by (simp add: smap_keys_put card_insert_if del: set_map)
qed

lemma pool_step_wf: "smap_wf s \<Longrightarrow> smap_wf (pool_step render cap s op)"
  by (cases op)
    (auto simp: if_register_def if_touch_def if_remove_def smap_wf_put smap_wf_del split: option.splits)

lemma pool_step_bound:
  assumes "smap_wf s" "0 < cap" "if_count s \<le> cap"
  shows "if_count (pool_step render cap s op) \<le> cap"
  using assms
  by (cases op)
    (auto simp: if_register_def if_touch_def if_remove_def at_capacity_def admit_def if_count_def
      length_smap_put smap_del_def split: option.splits intro: order_trans [OF length_filter_le])

lemma pool_run_wf: "smap_wf (pool_run render cap ops)"
  by (induction ops rule: rev_induct) (simp_all add: pool_run_def pool_step_wf)

lemma pool_run_bound: "0 < cap \<Longrightarrow> if_count (pool_run render cap ops) \<le> cap"
proof (induction ops rule: rev_induct)
  case Nil
  then show ?case by (simp add: pool_run_def if_count_def)
next
  case (snoc op ops)
  then show ?case
    using pool_step_bound [OF pool_run_wf [of render cap ops], of cap render op]
    by (simp add: pool_run_def)
qed

lemma in_expired_ids:
  "smap_wf s \<Longrightarrow> k \<in> set (expired_ids now s) \<longleftrightarrow> (\<exists>d. smap_get k s = Some d \<and> expired d now)"
  using smap_get_in smap_get_of_in by (force simp: expired_ids_def)

lemma expired_ids_sorted: "smap_wf s \<Longrightarrow> sorted (expired_ids now s) \<and> distinct (expired_ids now s)"
  using smap_wf_distinct [OF smap_wf_filter [of s "\<lambda>(_, d). expired d now"]]
  by (simp add: expired_ids_def)

lemma deadline_expires:
  assumes "idle \<noteq> 0" "unat now + unat idle < 2 ^ 64"
  shows "expired (deadline now idle) t \<longleftrightarrow> unat now + unat idle \<le> unat t"
proof -
  have sum: "unat (now + idle) = unat now + unat idle"
    using assms(2) by (simp add: unat_word_ariths)
  moreover have "now + idle \<noteq> 0"
  proof
    assume "now + idle = 0"
    then have "unat now + unat idle = 0" using sum by simp
    then show False using assms(1) by (simp add: unat_eq_0)
  qed
  ultimately show ?thesis using assms(1) by (simp add: expired_def deadline_def word_le_nat_alt)
qed

section \<open>Properties\<close>

text \<open>With a non-zero cap and the admission check before every registration, the number
  of calls in flight never exceeds the cap, whatever the interleaving of registrations,
  progress touches and removals.\<close>
theorem pool_never_over_capacity:
  assumes "0 < cap"
  shows "if_count (pool_run render cap ops) \<le> cap"
  using assms by (rule pool_run_bound)

theorem pool_never_over_capacity_witness:
  "if_count (pool_run (\<lambda>v. unwrap_or (as_str v) []) 1
      [PRegister (JStr ''a'') 5, PRegister (JStr ''b'') 5, PRemove (JStr ''a''), PRegister (JStr ''c'') 9]) \<le> 1"
  by (rule pool_never_over_capacity) simp

text \<open>A deadline is met exactly when the millisecond clock reaches the sum of the two
  times reduced modulo 2^64, a sum that wraps to zero never expires, and the reaper's list
  holds exactly the expired ids, sorted and without repetition.\<close>
theorem expired_ids_exact:
  assumes "idle \<noteq> 0"
  shows "(expired (deadline now idle) t \<longleftrightarrow>
      (unat now + unat idle) mod 2 ^ 64 \<noteq> 0 \<and> (unat now + unat idle) mod 2 ^ 64 \<le> unat t) \<and>
    (k \<in> set (expired_ids t (pool_run render cap ops)) \<longleftrightarrow>
      (\<exists>d. smap_get k (pool_run render cap ops) = Some d \<and> expired d t)) \<and>
    sorted (expired_ids t (pool_run render cap ops)) \<and> distinct (expired_ids t (pool_run render cap ops))"
proof -
  have "unat (now + idle) = (unat now + unat idle) mod 2 ^ 64" by (simp add: unat_word_ariths)
  then have "expired (deadline now idle) t \<longleftrightarrow>
      (unat now + unat idle) mod 2 ^ 64 \<noteq> 0 \<and> (unat now + unat idle) mod 2 ^ 64 \<le> unat t"
    using assms by (simp add: expired_def deadline_def word_le_nat_alt flip: unat_eq_0)
  then show ?thesis using in_expired_ids expired_ids_sorted pool_run_wf by blast
qed

theorem expired_ids_exact_witness:
  "expired (deadline 100 50) 150 \<and> \<not> expired (deadline 100 50) 149"
proof -
  have i: "(50::u64) \<noteq> 0" by simp
  show ?thesis using expired_ids_exact [OF i, of 100 150] expired_ids_exact [OF i, of 100 149] by simp
qed

end
