(* ===== verification/Namespace.thy ===== *)
theory Namespace
  imports Json
begin

text \<open>
  \<open>src/src/namespace.rs\<close>: the exposed names of tools and prompts (\<open>backend__name\<close>) and
  of resources (the backend id as the first path segment of the URI), and their reverse
  resolution. The locale \<open>name_codec\<close> is what the router relies on, for both kinds: a
  label resolves to the backend and the original name it was made from.
\<close>

section \<open>The naming contract\<close>

locale name_codec =
  fixes label :: "str \<Rightarrow> str \<Rightarrow> str"
    and resolve :: "str \<Rightarrow> (str \<times> str) option"
    and ok :: "str \<Rightarrow> str \<Rightarrow> bool"
  assumes resolve_label: "ok i n \<Longrightarrow> resolve (label i n) = Some (i, n)"
begin

lemma label_inject:
  assumes "ok i n" "ok j m" "label i n = label j m"
  shows "i = j \<and> n = m"
  using resolve_label [OF assms(1)] resolve_label [OF assms(2)] unfolding assms(3) by simp

lemma labels_disjoint:
  "ok i n \<Longrightarrow> ok j m \<Longrightarrow> i \<noteq> j \<Longrightarrow> label i n \<noteq> label j m"
  using label_inject by blast

lemma labels_distinct:
  assumes "\<forall>n \<in> set ns. ok i n" "distinct ns"
  shows "distinct (map (label i) ns)"
  unfolding distinct_map
  by (intro conjI assms inj_onI) (metis assms(1) label_inject)

text \<open>A surface of labelled names names each original once and resolves every one of them.\<close>

lemma surface_distinct:
  assumes "\<forall>(i, n) \<in> set ps. ok i n" "distinct ps"
  shows "distinct (map (\<lambda>(i, n). label i n) ps)"
proof -
  have "inj_on (\<lambda>(i, n). label i n) (set ps)"
  proof (rule inj_onI, clarify)
    fix i n j m
    assume "(i, n) \<in> set ps" "(j, m) \<in> set ps" and eq: "label i n = label j m"
    then have "ok i n" "ok j m" using assms(1) by auto
    then show "i = j \<and> n = m" using label_inject eq by blast
  qed
  then show ?thesis using assms(2) by (simp add: distinct_map)
qed

lemma surface_resolves:
  assumes "\<forall>(i, n) \<in> set ps. ok i n"
  shows "map (\<lambda>(i, n). resolve (label i n)) ps = map Some ps"
  using assms resolve_label by auto

end

section \<open>Names\<close>

definition DELIMITER :: str where
  "DELIMITER = ''__''"

definition is_ascii_alphanumeric :: "char \<Rightarrow> bool" where
  "is_ascii_alphanumeric c \<longleftrightarrow>
     (let n = of_char c :: nat
      in (48 \<le> n \<and> n \<le> 57) \<or> (65 \<le> n \<and> n \<le> 90) \<or> (97 \<le> n \<and> n \<le> 122))"

definition valid_backend_id :: "str \<Rightarrow> bool" where
  "valid_backend_id i \<longleftrightarrow>
     i \<noteq> [] \<and> \<not> contains_str DELIMITER i \<and>
     list_all (\<lambda>b. is_ascii_alphanumeric b \<or> b = CHR ''_'' \<or> b = CHR ''-'') i"

definition ns_prefix :: "str \<Rightarrow> str \<Rightarrow> str" where
  "ns_prefix i name = i @ DELIMITER @ name"

definition ns_split :: "str \<Rightarrow> (str \<times> str) option" where
  "ns_split name =
     (case split_once DELIMITER name of
        None \<Rightarrow> None
      | Some (i, original) \<Rightarrow> if i = [] \<or> original = [] then None else Some (i, original))"

section \<open>Resource URIs\<close>

definition prefix_uri :: "str \<Rightarrow> str \<Rightarrow> str" where
  "prefix_uri i uri =
     (case split_once ''://'' uri of
        None \<Rightarrow> uri
      | Some (scheme, rest) \<Rightarrow>
          (case split_once ''/'' rest of
             Some (authority, path) \<Rightarrow> scheme @ ''://'' @ authority @ ''/'' @ i @ ''/'' @ path
           | None \<Rightarrow> scheme @ ''://'' @ rest @ ''/'' @ i))"

definition split_uri :: "str \<Rightarrow> (str \<times> str) option" where
  "split_uri uri =
     do { (scheme, rest) \<leftarrow> split_once ''://'' uri;
          (authority, path) \<leftarrow> split_once ''/'' rest;
          (case split_once ''/'' path of
             Some (i, remainder) \<Rightarrow>
               if i \<noteq> [] then Some (i, scheme @ ''://'' @ authority @ ''/'' @ remainder) else None
           | None \<Rightarrow> if path \<noteq> [] then Some (path, scheme @ ''://'' @ authority) else None) }"

section \<open>Correctness\<close>

lemma split_once_double:
  "\<not> contains_str [x, x] (p @ [x]) \<Longrightarrow> split_once [x, x] (p @ x # x # n) = Some (p, n)"
proof (induction p)
  case (Cons c p)
  have "\<not> contains_str [x, x] (p @ [x])"
    using Cons.prems by (auto simp: contains_str_iff) (metis append_Cons)
  moreover have "strip_prefix [x, x] (c # p @ x # x # n) = None"
  proof (rule ccontr)
    assume "\<not> ?thesis"
    then obtain r where "c # p @ x # x # n = [x, x] @ r"
      unfolding not_None_eq strip_prefix_Some by blast
    then have "\<exists>r'. c # p @ [x] = [x, x] @ r'" by (cases p) auto
    then show False using Cons.prems by (auto simp: contains_str_iff) (metis append_Nil)
  qed
  ultimately show ?case using Cons.IH by simp
qed simp

lemma contains_double_snoc:
  "contains_str [x, x] (p @ [x]) \<longleftrightarrow> contains_str [x, x] p \<or> ends_with [x] p"
proof
  assume "contains_str [x, x] (p @ [x])"
  then obtain a b where eq: "p @ [x] = a @ [x, x] @ b" by (auto simp: contains_str_iff)
  show "contains_str [x, x] p \<or> ends_with [x] p"
  proof (cases b rule: rev_cases)
    case Nil
    then have "p @ [x] = (a @ [x]) @ [x]" using eq by simp
    then show ?thesis unfolding append1_eq_conv by (auto simp: ends_with_iff)
  next
    case (snoc b' y)
    then have "p @ [x] = (a @ [x, x] @ b') @ [y]" using eq by simp
    then show ?thesis unfolding append1_eq_conv by (auto simp: contains_str_iff)
  qed
next
  assume "contains_str [x, x] p \<or> ends_with [x] p"
  then show "contains_str [x, x] (p @ [x])"
    by (auto simp: contains_str_iff ends_with_iff) (metis append.assoc append_Cons append_Nil)+
qed

lemma ns_split_prefix_no_underscore:
  assumes "\<not> contains_str DELIMITER i" "i \<noteq> []" "\<not> ends_with ''_'' i" "n \<noteq> []"
  shows "ns_split (ns_prefix i n) = Some (i, n)"
proof -
  have "split_once ''__'' (i @ CHR ''_'' # CHR ''_'' # n) = Some (i, n)"
    using assms(1,3) by (intro split_once_double) (simp add: contains_double_snoc DELIMITER_def)
  then show ?thesis using assms(2,4) by (simp add: ns_split_def ns_prefix_def DELIMITER_def)
qed

text \<open>An id that ends in an underscore loses it to the delimiter.\<close>

lemma ns_split_prefix_underscore:
  assumes "\<not> contains_str DELIMITER (i @ ''_'')" "i \<noteq> []"
  shows "ns_split (ns_prefix (i @ ''_'') n) = Some (i, ''_'' @ n)"
proof -
  have "split_once ''__'' (i @ CHR ''_'' # CHR ''_'' # CHR ''_'' # n) = Some (i, CHR ''_'' # n)"
    using assms(1) by (intro split_once_double) (simp add: DELIMITER_def)
  then show ?thesis using assms(2) by (simp add: ns_split_def ns_prefix_def DELIMITER_def)
qed

lemma ns_split_Some: "ns_split s = Some (i, n) \<Longrightarrow> s = ns_prefix i n \<and> i \<noteq> [] \<and> n \<noteq> []"
  by (auto simp: ns_split_def ns_prefix_def dest!: split_once_Some split: option.splits if_splits)

definition name_ok :: "str \<Rightarrow> str \<Rightarrow> bool" where
  "name_ok i n \<longleftrightarrow> valid_backend_id i \<and> \<not> ends_with ''_'' i \<and> n \<noteq> []"

interpretation tool_names: name_codec ns_prefix ns_split name_ok
  by unfold_locales (simp add: name_ok_def valid_backend_id_def ns_split_prefix_no_underscore)

lemma valid_backend_id_no_slash: "valid_backend_id i \<Longrightarrow> CHR ''/'' \<notin> set i"
  by (auto simp: valid_backend_id_def list_all_iff is_ascii_alphanumeric_def Let_def)

definition uri_ok :: "str \<Rightarrow> str \<Rightarrow> bool" where
  "uri_ok i u \<longleftrightarrow> i \<noteq> [] \<and> CHR ''/'' \<notin> set i \<and> contains_str ''://'' u"

lemma split_prefix_uri: "uri_ok i u \<Longrightarrow> split_uri (prefix_uri i u) = Some (i, u)"
proof -
  assume ok: "uri_ok i u"
  then obtain scheme rest where sp: "split_once ''://'' u = Some (scheme, rest)"
    by (auto simp: uri_ok_def contains_str_def)
  have u: "u = scheme @ ''://'' @ rest" by (rule split_once_Some [OF sp])
  have first: "split_once ''://'' (scheme @ ''://'' @ x) = Some (scheme, x)" for x
    using split_once_change_rest [OF sp, of x] by simp
  show ?thesis
  proof (cases "split_once ''/'' rest")
    case None
    then have "split_once ''/'' (rest @ ''/'' @ i) = Some (rest, i)"
      by (simp add: split_once_single split_once_single_None)
    moreover have "split_once ''/'' i = None"
      using ok by (simp add: uri_ok_def split_once_single_None)
    ultimately show ?thesis
      using ok sp None first [of "rest @ ''/'' @ i"] u
      by (simp add: split_uri_def prefix_uri_def uri_ok_def)
  next
    case (Some p)
    then obtain authority path where p: "split_once ''/'' rest = Some (authority, path)"
      by (cases p) auto
    then have a: "CHR ''/'' \<notin> set authority" and rest: "rest = authority @ CHR ''/'' # path"
      by (simp_all add: split_once_single_Some)
    have "split_once ''/'' (authority @ CHR ''/'' # i @ CHR ''/'' # path) =
        Some (authority, i @ CHR ''/'' # path)"
      using a by (rule split_once_single)
    moreover have "split_once ''/'' (i @ CHR ''/'' # path) = Some (i, path)"
      using ok by (intro split_once_single) (simp add: uri_ok_def)
    ultimately show ?thesis
      using ok sp p first [of "authority @ ''/'' @ i @ ''/'' @ path"] u rest
      by (simp add: split_uri_def prefix_uri_def uri_ok_def)
  qed
qed

interpretation resource_uris: name_codec prefix_uri split_uri uri_ok
  by unfold_locales (rule split_prefix_uri)

lemma prefix_split_uri:
  assumes "split_uri s = Some (i, u)"
  shows "prefix_uri i u = s \<and> uri_ok i u"
proof -
  obtain scheme rest where sp: "split_once ''://'' s = Some (scheme, rest)"
    using assms by (auto simp: split_uri_def split: Option.bind_splits)
  then obtain authority path where p: "split_once ''/'' rest = Some (authority, path)"
    using assms by (auto simp: split_uri_def split: Option.bind_splits)
  have s: "s = scheme @ ''://'' @ rest" by (rule split_once_Some [OF sp])
  have first: "split_once ''://'' (scheme @ ''://'' @ x) = Some (scheme, x)" for x
    using split_once_change_rest [OF sp, of x] by simp
  from p have a: "CHR ''/'' \<notin> set authority" and rest: "rest = authority @ CHR ''/'' # path"
    by (simp_all add: split_once_single_Some)
  show ?thesis
  proof (cases "split_once ''/'' path")
    case None
    then have iu: "i = path" "path \<noteq> []" "u = scheme @ ''://'' @ authority"
      using assms sp p by (auto simp: split_uri_def split: if_splits)
    moreover have "split_once ''/'' authority = None"
      using a by (simp add: split_once_single_None)
    moreover have "CHR ''/'' \<notin> set path" using None by (simp add: split_once_single_None)
    ultimately show ?thesis
      using s rest first [of authority]
      by (auto simp: prefix_uri_def uri_ok_def contains_str_iff)
  next
    case (Some q)
    then obtain remainder where q: "split_once ''/'' path = Some (i, remainder)" "i \<noteq> []"
      and u: "u = scheme @ ''://'' @ authority @ ''/'' @ remainder"
      using assms sp p by (cases q) (auto simp: split_uri_def split: if_splits)
    have "split_once ''/'' (authority @ CHR ''/'' # remainder) = Some (authority, remainder)"
      using a by (rule split_once_single)
    moreover have "path = i @ CHR ''/'' # remainder" "CHR ''/'' \<notin> set i"
      using q(1) by (simp_all add: split_once_single_Some)
    ultimately show ?thesis
      using q(2) s rest first [of "authority @ ''/'' @ remainder"] u
      by (auto simp: prefix_uri_def uri_ok_def contains_str_iff)
  qed
qed

section \<open>Properties\<close>

text \<open>C36: For every id the configuration accepts and every non-empty name, the exposed name
  resolves to the backend and the name it was made from, unless the id ends in an underscore:
  then it resolves to the id without that underscore (or to nothing for the id \<open>_\<close>).\<close>
theorem exposed_name_resolution:
  assumes "valid_backend_id i" "n \<noteq> []"
  shows "ns_split (ns_prefix i n) =
    (if i = ''_'' then None
     else if ends_with ''_'' i then Some (butlast i, ''_'' @ n)
     else Some (i, n))"
proof (cases "ends_with ''_'' i")
  case True
  then obtain j where j: "i = j @ ''_''" by (auto simp: ends_with_iff)
  show ?thesis
  proof (cases "j = []")
    case True
    then show ?thesis using j by (simp add: ns_split_def ns_prefix_def DELIMITER_def)
  next
    case False
    then show ?thesis
      using assms(1) j True ns_split_prefix_underscore [of j n] by (simp add: valid_backend_id_def)
  qed
next
  case False
  then have "i \<noteq> ''_''" by (auto simp: ends_with_iff)
  then show ?thesis
    using False assms tool_names.resolve_label [of i n] by (simp add: name_ok_def)
qed

theorem exposed_name_resolution_witness:
  "ns_split (ns_prefix ''files'' ''read'') = Some (''files'', ''read'') \<and>
   ns_split (ns_prefix ''files_'' ''read'') = Some (''files'', ''_read'')"
proof -
  have ok: "valid_backend_id ''files''" "valid_backend_id ''files_''"
    "ends_with ''_'' ''files_''" "\<not> ends_with ''_'' ''files''" by code_simp+
  show ?thesis
    using exposed_name_resolution [OF ok(1), of "''read''"]
      exposed_name_resolution [OF ok(2), of "''read''"] ok(3,4) by simp
qed

text \<open>A prefixed resource URI resolves to its backend and original URI exactly when the
  original has a scheme separator; and whatever resolves was made by the prefixing.\<close>
theorem resource_uri_roundtrip:
  assumes "valid_backend_id i"
  shows "(split_uri (prefix_uri i u) = Some (i, u) \<longleftrightarrow> contains_str ''://'' u) \<and>
    (\<forall>j v. split_uri u = Some (j, v) \<longrightarrow> prefix_uri j v = u)"
proof -
  have "i \<noteq> []" using assms by (simp add: valid_backend_id_def)
  then have "contains_str ''://'' u \<Longrightarrow> split_uri (prefix_uri i u) = Some (i, u)"
    using valid_backend_id_no_slash [OF assms] by (simp add: split_prefix_uri uri_ok_def)
  moreover have "split_uri (prefix_uri i u) = None" if "\<not> contains_str ''://'' u"
  proof -
    have none: "split_once ''://'' u = None" using that unfolding contains_str_def by blast
    then have "prefix_uri i u = u" by (simp add: prefix_uri_def)
    then show ?thesis using none by (simp add: split_uri_def)
  qed
  ultimately show ?thesis using prefix_split_uri by (metis option.distinct(1))
qed

theorem resource_uri_roundtrip_witness:
  "split_uri (prefix_uri ''files'' ''file:///etc/hosts'') = Some (''files'', ''file:///etc/hosts'') \<and>
   split_uri (prefix_uri ''files'' ''mailto:a@b'') \<noteq> Some (''files'', ''mailto:a@b'')"
proof -
  have ok: "valid_backend_id ''files''" "contains_str ''://'' ''file:///etc/hosts''"
    "\<not> contains_str ''://'' ''mailto:a@b''" by code_simp+
  show ?thesis
    using resource_uri_roundtrip [OF ok(1), of "''file:///etc/hosts''"]
      resource_uri_roundtrip [OF ok(1), of "''mailto:a@b''"] ok(2,3) by simp
qed

end
