(* ===== verification/Errors.thy ===== *)
theory Errors
  imports Json
begin

text \<open>
  \<open>src/src/errors.rs\<close>: the registry of the error codes, with the lookups by code and the
  normalized error object, and \<open>src/src/version.rs\<close>: protocol version negotiation.
\<close>

section \<open>The code registry\<close>

definition NO_SESSION :: int where "NO_SESSION = - 32000"
definition POLICY_DENIED :: int where "POLICY_DENIED = - 32001"
definition UNAUTHORIZED :: int where "UNAUTHORIZED = - 32002"
definition SERVER_NOT_AVAILABLE :: int where "SERVER_NOT_AVAILABLE = - 32003"
definition UNSUPPORTED_PROTOCOL_VERSION :: int where "UNSUPPORTED_PROTOCOL_VERSION = - 32004"
definition HEADER_MISMATCH :: int where "HEADER_MISMATCH = - 32005"

lemmas proxy_code_defs =
  NO_SESSION_def POLICY_DENIED_def UNAUTHORIZED_def SERVER_NOT_AVAILABLE_def
  UNSUPPORTED_PROTOCOL_VERSION_def HEADER_MISMATCH_def

definition ALL_CODES :: "int list" where
  "ALL_CODES =
     [INVALID_REQUEST, METHOD_NOT_FOUND, INVALID_PARAMS, INTERNAL_ERROR, NO_SESSION,
      POLICY_DENIED, UNAUTHORIZED, SERVER_NOT_AVAILABLE, UNSUPPORTED_PROTOCOL_VERSION,
      HEADER_MISMATCH]"

definition REGISTRY :: "(int \<times> str \<times> str \<times> str \<times> str) list" where
  "REGISTRY =
    [(INVALID_REQUEST, ''E4000'', ''Invalid Request'',
      ''The message is not a well-formed JSON-RPC request object.'',
      ''Send a JSON-RPC 2.0 request carrying jsonrpc, method, and id.''),
     (INVALID_PARAMS, ''E4002'', ''Invalid Params'',
      ''The request's params do not match the method's expected shape.'',
      ''Check the tool's inputSchema and correct the arguments.''),
     (METHOD_NOT_FOUND, ''E4004'', ''Method Not Found'',
      ''The requested method or namespaced tool is exposed by no backend or handler.'',
      ''List the available tools and call one of the exposed names.''),
     (UNAUTHORIZED, ''E4010'', ''Unauthorized'',
      ''The client's token failed issuer or audience validation, or none was presented.'',
      ''Present a token whose iss and aud match the proxy's configured values.''),
     (POLICY_DENIED, ''E4030'', ''Policy Denied'',
      ''A policy rule or extension filter denied the request.'',
      ''Review the active policy and filter chain, then adjust the rule or the request.''),
     (NO_SESSION, ''E4400'', ''No Session'',
      ''The request referenced a session that is missing or has expired.'',
      ''Reinitialize to obtain a session before sending session-scoped requests.''),
     (UNSUPPORTED_PROTOCOL_VERSION, ''E4260'', ''Unsupported Protocol Version'',
      ''The declared protocol version is not in the proxy's supported set.'',
      ''Negotiate one of the supported versions named in the error data.''),
     (HEADER_MISMATCH, ''E4006'', ''Header Mismatch'',
      ''A transport routing header disagrees with the request body.'',
      ''Make Mcp-Method and Mcp-Name agree with the body, or omit them.''),
     (INTERNAL_ERROR, ''E5000'', ''Internal Error'',
      ''The proxy or a local handler failed while processing the request.'',
      ''Retry; if it persists, check the server logs and report the error id.''),
     (SERVER_NOT_AVAILABLE, ''E5030'', ''Server Not Available'',
      ''The target backend is unavailable or its circuit breaker is open.'',
      ''Wait for the backend to recover; the proxy resumes once it is healthy.'')]"

definition error_id :: "int \<Rightarrow> str" where
  "error_id code =
     (case List.find (\<lambda>(c, _). c = code) REGISTRY of Some (_, i, _) \<Rightarrow> i | None \<Rightarrow> [])"

definition error_reason :: "int \<Rightarrow> str" where
  "error_reason code =
     (case List.find (\<lambda>(c, _). c = code) REGISTRY of Some (_, _, r, _) \<Rightarrow> r | None \<Rightarrow> [])"

definition error_cause :: "int \<Rightarrow> str" where
  "error_cause code =
     (case List.find (\<lambda>(c, _). c = code) REGISTRY of Some (_, _, _, x, _) \<Rightarrow> x | None \<Rightarrow> [])"

definition error_hint :: "int \<Rightarrow> str" where
  "error_hint code =
     (case List.find (\<lambda>(c, _). c = code) REGISTRY of Some (_, _, _, _, h) \<Rightarrow> h | None \<Rightarrow> [])"

definition docs_url :: "int \<Rightarrow> str" where
  "docs_url code =
     (let eid = error_id code in if eid = [] then [] else ''ERRORS.md#'' @ ascii_lower eid)"

definition describe :: "int \<Rightarrow> json" where
  "describe code =
     jobj [(''code'', jint code), (''errorId'', JStr (error_id code)),
           (''reason'', JStr (error_reason code)), (''cause'', JStr (error_cause code)),
           (''hint'', JStr (error_hint code)), (''docsUrl'', JStr (docs_url code))]"

definition error_object :: "int \<Rightarrow> str option \<Rightarrow> json" where
  "error_object code detail =
     (let base = smap_put ''errorId'' (JStr (error_id code)) [];
          data = (case detail of None \<Rightarrow> base | Some d \<Rightarrow> smap_put ''detail'' (JStr d) base)
      in jobj [(''code'', jint code), (''message'', JStr (error_reason code)), (''data'', JObj data)])"

lemma ALL_CODES_values:
  "ALL_CODES = [- 32600, - 32601, - 32602, - 32603, - 32000, - 32001, - 32002, - 32003, - 32004, - 32005]"
  by (simp add: ALL_CODES_def jsonrpc_code_defs proxy_code_defs)

lemma registry_keys_distinct: "distinct (map fst REGISTRY)"
  by (simp add: REGISTRY_def jsonrpc_code_defs proxy_code_defs)

lemma registry_keys: "set (map fst REGISTRY) = set ALL_CODES"
  by (auto simp: REGISTRY_def ALL_CODES_def)

lemma registry_ids_distinct: "distinct (map (\<lambda>(_, i, _). i) REGISTRY)"
  by (simp add: REGISTRY_def)

lemma registry_ids_nonempty: "(c, i, r) \<in> set REGISTRY \<Longrightarrow> i \<noteq> []"
  by (auto simp: REGISTRY_def)

lemma find_key: "distinct (map fst xs) \<Longrightarrow> (c, v) \<in> set xs \<Longrightarrow> List.find (\<lambda>(k, _). k = c) xs = Some (c, v)"
  by (induction xs) (auto simp: image_iff)

lemma error_id_entry: "(c, i, r) \<in> set REGISTRY \<Longrightarrow> error_id c = i"
  by (cases r) (simp add: error_id_def find_key [OF registry_keys_distinct])

lemma error_id_unregistered: "c \<notin> set ALL_CODES \<Longrightarrow> error_id c = []"
proof -
  assume "c \<notin> set ALL_CODES"
  then have "List.find (\<lambda>(k, _). k = c) REGISTRY = None"
    using registry_keys by (auto simp: find_None_iff) (metis fst_conv image_eqI)
  then show ?thesis by (simp add: error_id_def)
qed

section \<open>Version negotiation (\<open>version.rs\<close>)\<close>

definition SUPPORTED_PROTOCOL_VERSIONS :: "str list" where
  "SUPPORTED_PROTOCOL_VERSIONS = [''2026-07-28'', ''2025-06-18'']"

definition STATELESS_PROTOCOL_VERSION :: str where
  "STATELESS_PROTOCOL_VERSION = ''2026-07-28''"

definition STATEFUL_PROTOCOL_VERSION :: str where
  "STATEFUL_PROTOCOL_VERSION = ''2025-06-18''"

definition PROTOCOL_VERSION_META_KEY :: str where
  "PROTOCOL_VERSION_META_KEY = ''io.modelcontextprotocol/protocolVersion''"

definition is_supported :: "str \<Rightarrow> bool" where
  "is_supported version \<longleftrightarrow> version \<in> set SUPPORTED_PROTOCOL_VERSIONS"

definition negotiate :: "str option \<Rightarrow> str \<Rightarrow> str option" where
  "negotiate requested dflt =
     (case requested of
        None \<Rightarrow> Some dflt
      | Some version \<Rightarrow> List.find (\<lambda>supported. supported = version) SUPPORTED_PROTOCOL_VERSIONS)"

definition unsupported_error_data :: "str option \<Rightarrow> json" where
  "unsupported_error_data requested =
     jobj [(''requested'', jopt_str requested),
           (''supported'', JArr (map JStr SUPPORTED_PROTOCOL_VERSIONS))]"

lemma negotiate_Some:
  "negotiate r d = Some v \<longleftrightarrow> (case r of None \<Rightarrow> v = d | Some w \<Rightarrow> v = w \<and> is_supported w)"
  by (auto simp: negotiate_def is_supported_def SUPPORTED_PROTOCOL_VERSIONS_def split: option.splits)

section \<open>Properties\<close>

text \<open>The registry is a bijection between the codes and their ids: two codes never share
  an id, a code has an id exactly when it is one of \<open>ALL_CODES\<close>, and no code is listed twice.\<close>
theorem error_registry_bijective:
  "inj_on error_id (set ALL_CODES) \<and> (\<forall>c. error_id c \<noteq> [] \<longleftrightarrow> c \<in> set ALL_CODES) \<and>
   distinct (map fst REGISTRY) \<and> length REGISTRY = length ALL_CODES"
proof -
  have entry: "\<exists>i r. (c, i, r) \<in> set REGISTRY" if "c \<in> set ALL_CODES" for c
  proof -
    have "c \<in> fst ` set REGISTRY" using that registry_keys by simp
    then show ?thesis by (auto simp: image_iff) (metis prod.collapse)
  qed
  have inj: "inj_on (\<lambda>(_, i, _). i) (set REGISTRY)"
    using registry_ids_distinct by (simp add: distinct_map)
  have "inj_on error_id (set ALL_CODES)"
  proof (rule inj_onI)
    fix c d assume "c \<in> set ALL_CODES" "d \<in> set ALL_CODES" and eq: "error_id c = error_id d"
    then obtain i r j s where cd: "(c, i, r) \<in> set REGISTRY" "(d, j, s) \<in> set REGISTRY"
      using entry by blast
    then have "i = j" using eq by (simp add: error_id_entry)
    then show "c = d" using inj_onD [OF inj _ cd] by simp
  qed
  moreover have "error_id c \<noteq> [] \<longleftrightarrow> c \<in> set ALL_CODES" for c
    using error_id_unregistered [of c] entry [of c] error_id_entry registry_ids_nonempty by blast
  ultimately show ?thesis
    using registry_keys_distinct by (simp add: REGISTRY_def ALL_CODES_def)
qed

end
