(* ===== verification/Resilience.thy ===== *)
theory Resilience
  imports Namespace Errors
begin

text \<open>
  \<open>src/src/resilience.rs\<close>: the circuit breaker, and the resilient router over one
  breaker per backend. Every operation of the breaker takes the clock as an argument, as in
  the code. A backend channel is outside the sources: \<open>answer\<close> is what it returns for a
  request, as a function of the requests made so far, so a backend may answer two equal
  requests differently.
\<close>

section \<open>The breaker\<close>

datatype circuit_state = Closed | Open | HalfOpen

record breaker =
  threshold :: nat
  reset :: f64
  br_state :: circuit_state
  failures :: nat
  opened_at :: f64

definition breaker_new :: "nat \<Rightarrow> f64 \<Rightarrow> breaker" where
  "breaker_new t r = \<lparr>threshold = t, reset = r, br_state = Closed, failures = 0, opened_at = Fin 0\<rparr>"

text \<open>\<open>state(&mut self, now)\<close>: reading the state may move it to half-open.\<close>

definition refresh :: "f64 \<Rightarrow> breaker \<Rightarrow> breaker" where
  "refresh now b =
     (if br_state b = Open \<and> f64_le (reset b) (f64_sub now (opened_at b))
      then b\<lparr>br_state := HalfOpen\<rparr> else b)"

definition allow :: "f64 \<Rightarrow> breaker \<Rightarrow> bool \<times> breaker" where
  "allow now b = (br_state (refresh now b) \<noteq> Open, refresh now b)"

definition record_success :: "breaker \<Rightarrow> breaker" where
  "record_success b = b\<lparr>failures := 0, br_state := Closed\<rparr>"

definition trip :: "f64 \<Rightarrow> breaker \<Rightarrow> breaker" where
  "trip now b = b\<lparr>br_state := Open, opened_at := now, failures := threshold b\<rparr>"

definition record_failure :: "f64 \<Rightarrow> breaker \<Rightarrow> breaker" where
  "record_failure now b =
     (let b = refresh now b
      in if br_state b = HalfOpen then trip now b
         else let b = b\<lparr>failures := Suc (failures b)\<rparr>
              in if threshold b \<le> failures b then trip now b else b)"

subsection \<open>What a breaker is after any history\<close>

datatype breaker_event = Allow f64 | Fail f64

fun breaker_step :: "breaker \<Rightarrow> breaker_event \<Rightarrow> breaker" where
  "breaker_step b (Allow now) = snd (allow now b)"
| "breaker_step b (Fail now) = record_failure now b"

definition breaker_run :: "breaker \<Rightarrow> breaker_event list \<Rightarrow> breaker" where
  "breaker_run b es = foldl breaker_step b es"

fun fail_times :: "breaker_event list \<Rightarrow> f64 list" where
  "fail_times [] = []"
| "fail_times (Allow t # es) = fail_times es"
| "fail_times (Fail t # es) = t # fail_times es"

text \<open>The \<open>Allow\<close> calls that come after the last failure.\<close>

fun trailing_allows :: "f64 list \<Rightarrow> breaker_event list \<Rightarrow> f64 list" where
  "trailing_allows acc [] = acc"
| "trailing_allows acc (Allow t # es) = trailing_allows (acc @ [t]) es"
| "trailing_allows acc (Fail t # es) = trailing_allows [] es"

lemma fail_times_append [simp]: "fail_times (xs @ ys) = fail_times xs @ fail_times ys"
  by (induction xs rule: fail_times.induct) auto

lemma trailing_allows_snoc:
  "trailing_allows acc (es @ [Allow t]) = trailing_allows acc es @ [t]"
  "trailing_allows acc (es @ [Fail t]) = []"
  by (induction acc es rule: trailing_allows.induct) auto

definition due :: "f64 \<Rightarrow> f64 \<Rightarrow> f64 \<Rightarrow> bool" where
  "due r opened now \<longleftrightarrow> f64_le r (f64_sub now opened)"

text \<open>
  After a success and then any mix of failures and \<open>allow\<close> calls: below the threshold the
  breaker is closed and counts the failures; from the threshold on it is open since the
  latest failure, and half-open once an \<open>allow\<close> came when the reset time was due.
\<close>

lemma breaker_run_history:
  fixes b :: breaker
  defines "b0 \<equiv> record_success b"
  assumes t: "0 < threshold b"
  shows "let s = breaker_run b0 es; fs = fail_times es in
    threshold s = threshold b \<and> reset s = reset b \<and>
    (length fs < threshold b \<longrightarrow> br_state s = Closed \<and> failures s = length fs) \<and>
    (threshold b \<le> length fs \<longrightarrow>
       failures s = threshold b \<and> opened_at s = last fs \<and>
       br_state s = (if \<exists>a \<in> set (trailing_allows [] es). due (reset b) (last fs) a
                     then HalfOpen else Open))"
proof (induction es rule: rev_induct)
  case Nil
  then show ?case using t by (simp add: b0_def breaker_run_def record_success_def)
next
  case (snoc e es)
  let ?s = "breaker_run b0 es"
  have step: "breaker_run b0 (es @ [e]) = breaker_step ?s e" by (simp add: breaker_run_def)
  show ?case
  proof (cases e)
    case (Allow now)
    then show ?thesis
      using snoc.IH unfolding step
      by (auto simp: Let_def allow_def refresh_def trailing_allows_snoc due_def split: if_splits)
  next
    case (Fail now)
    then show ?thesis
      using snoc.IH t unfolding step
      by (auto simp: Let_def record_failure_def trip_def refresh_def trailing_allows_snoc)
  qed
qed

text \<open>
  The failure counter never exceeds the threshold, so its \<open>u32\<close> increment cannot
  overflow unless the threshold is the largest \<open>u32\<close>.
\<close>

lemma breaker_run_bound:
  "failures b \<le> threshold b \<Longrightarrow>
     failures (breaker_run b es) \<le> threshold b \<and> threshold (breaker_run b es) = threshold b"
proof (induction es rule: rev_induct)
  case (snoc e es)
  then show ?case
    by (cases e)
      (auto simp: breaker_run_def allow_def refresh_def record_failure_def trip_def Let_def)
qed (simp add: breaker_run_def)

section \<open>Partial results\<close>

definition PROXY_PARTIAL_KEY :: str where
  "PROXY_PARTIAL_KEY = ''io.modelcontextprotocol/proxy-partial''"

definition partial_meta :: "str list \<Rightarrow> str \<Rightarrow> json" where
  "partial_meta unavailable reason =
     jobj [(PROXY_PARTIAL_KEY,
       jobj [(''unavailable_backends'', JArr (map JStr (remdups_adj (sort unavailable)))),
             (''reason'', JStr reason)])]"

section \<open>The resilient router\<close>

text \<open>A request on a channel: backend id, method, params.\<close>

type_synonym call = "str \<times> str \<times> json"
type_synonym answer = "call list \<Rightarrow> call \<Rightarrow> io_error + json"

record managed_backend =
  mb_id :: str
  mb_breaker :: breaker

record resilient_router =
  rr_backends :: "managed_backend list"
  rr_last_available :: "str list"
  rr_calls :: "call list"

definition channel_request ::
  "answer \<Rightarrow> call list \<Rightarrow> call \<Rightarrow> (io_error + json) \<times> call list" where
  "channel_request answer calls c = (answer calls c, calls @ [c])"

fun available_loop :: "f64 \<Rightarrow> managed_backend list \<Rightarrow> str list \<times> managed_backend list" where
  "available_loop now [] = ([], [])"
| "available_loop now (b # bs) =
     (let (ok, br) = allow now (mb_breaker b);
          (ids, bs') = available_loop now bs
      in (if ok then mb_id b # ids else ids, b\<lparr>mb_breaker := br\<rparr> # bs'))"

definition available_ids :: "f64 \<Rightarrow> resilient_router \<Rightarrow> str list \<times> resilient_router" where
  "available_ids now r =
     (let (ids, bs) = available_loop now (rr_backends r) in (sort ids, r\<lparr>rr_backends := bs\<rparr>))"

definition resilient_new :: "f64 \<Rightarrow> managed_backend list \<Rightarrow> resilient_router" where
  "resilient_new now bs =
     (let (ids, r) = available_ids now \<lparr>rr_backends = bs, rr_last_available = [], rr_calls = []\<rparr>
      in r\<lparr>rr_last_available := ids\<rparr>)"

definition rr_prefix_tool :: "str \<Rightarrow> json \<Rightarrow> json" where
  "rr_prefix_tool i tool = jput ''name'' (JStr (ns_prefix i (unwrap_or (get_str ''name'' tool) []))) tool"

definition listed_tools :: "json \<Rightarrow> json list" where
  "listed_tools response =
     unwrap_or (Option.bind (Option.bind (jget ''result'' response) (jget ''tools'')) as_array) []"

text \<open>The loop of \<open>tools_list\<close>: tools, unavailable ids, backends, calls.\<close>

fun rr_list_loop ::
  "answer \<Rightarrow> f64 \<Rightarrow> managed_backend list \<Rightarrow> call list \<Rightarrow>
     json list \<times> str list \<times> managed_backend list \<times> call list" where
  "rr_list_loop answer now [] calls = ([], [], [], calls)"
| "rr_list_loop answer now (b # bs) calls =
     (let (ok, br) = allow now (mb_breaker b)
      in if \<not> ok then
           (let (tools, un, bs', calls') = rr_list_loop answer now bs calls
            in (tools, mb_id b # un, b\<lparr>mb_breaker := br\<rparr> # bs', calls'))
         else
           (let (res, calls1) = channel_request answer calls (mb_id b, ''tools/list'', jobj [])
            in case res of
                 Inl _ \<Rightarrow>
                   (let (tools, un, bs', calls') = rr_list_loop answer now bs calls1
                    in (tools, mb_id b # un, b\<lparr>mb_breaker := record_failure now br\<rparr> # bs', calls'))
               | Inr response \<Rightarrow>
                   (let (tools, un, bs', calls') = rr_list_loop answer now bs calls1
                    in (map (rr_prefix_tool (mb_id b)) (listed_tools response) @ tools, un,
                        b\<lparr>mb_breaker := record_success br\<rparr> # bs', calls'))))"

definition rr_tools_list ::
  "answer \<Rightarrow> f64 \<Rightarrow> json \<Rightarrow> resilient_router \<Rightarrow> json \<times> resilient_router" where
  "rr_tools_list answer now rid r =
     (let (tools, un, bs, calls) = rr_list_loop answer now (rr_backends r) (rr_calls r);
          base = smap_put ''tools'' (JArr tools) [];
          result = (if un \<noteq> [] then smap_put ''_meta'' (partial_meta un ''circuit_breaker_open'') base
                    else base)
      in (rpc_result rid (JObj result), r\<lparr>rr_backends := bs, rr_calls := calls\<rparr>))"

text \<open>\<open>iter().position\<close>.\<close>

fun position :: "('a \<Rightarrow> bool) \<Rightarrow> 'a list \<Rightarrow> nat option" where
  "position p [] = None"
| "position p (x # xs) = (if p x then Some 0 else map_option Suc (position p xs))"

definition backend_error_value :: json where
  "backend_error_value = jobj [(''code'', jint INTERNAL_ERROR), (''message'', JStr ''backend error'')]"

definition rr_tools_call ::
  "answer \<Rightarrow> f64 \<Rightarrow> json \<Rightarrow> json \<Rightarrow> resilient_router \<Rightarrow> json \<times> resilient_router" where
  "rr_tools_call answer now message rid r =
     (let name = unwrap_or (Option.bind (jget ''params'' message) (get_str ''name'')) [];
          resolved = ns_split name
      in case Option.bind resolved (\<lambda>(bid, _). position (\<lambda>b. mb_id b = bid) (rr_backends r)) of
           None \<Rightarrow> (rpc_error rid INVALID_PARAMS (''unknown tool: '' @ name), r)
         | Some index \<Rightarrow>
             (let b = rr_backends r ! index;
                  original = (case resolved of Some (_, og) \<Rightarrow> og | None \<Rightarrow> []);
                  (ok, br) = allow now (mb_breaker b);
                  set_breaker = (\<lambda>br'. (rr_backends r)[index := b\<lparr>mb_breaker := br'\<rparr>])
              in if \<not> ok then
                   (rpc_error rid SERVER_NOT_AVAILABLE (''backend '' @ mb_id b @ '' unavailable''),
                    r\<lparr>rr_backends := set_breaker br\<rparr>)
                 else
                   (let params = jput ''name'' (JStr original)
                                   (unwrap_or (jget ''params'' message) (jobj []));
                        (res, calls) = channel_request answer (rr_calls r) (mb_id b, ''tools/call'', params)
                    in case res of
                         Inl _ \<Rightarrow>
                           (rpc_error rid SERVER_NOT_AVAILABLE (''backend '' @ mb_id b @ '' failed''),
                            r\<lparr>rr_backends := set_breaker (record_failure now br), rr_calls := calls\<rparr>)
                       | Inr response \<Rightarrow>
                           (case jget ''result'' response of
                              Some result \<Rightarrow> rpc_result rid result
                            | None \<Rightarrow> rpc_error_value rid
                                (unwrap_or (jget ''error'' response) backend_error_value),
                            r\<lparr>rr_backends := set_breaker (record_success br), rr_calls := calls\<rparr>))))"

definition surface_changed :: "f64 \<Rightarrow> resilient_router \<Rightarrow> bool \<times> resilient_router" where
  "surface_changed now r =
     (let (current, r') = available_ids now r
      in (current \<noteq> rr_last_available r', r'\<lparr>rr_last_available := current\<rparr>))"

definition list_changed_notification :: json where
  "list_changed_notification =
     jobj [(''jsonrpc'', JStr ''2.0''), (''method'', JStr ''notifications/tools/list_changed'')]"

lemma position_Some: "position p xs = Some i \<Longrightarrow> i < length xs \<and> p (xs ! i) \<and> (\<forall>j < i. \<not> p (xs ! j))"
  by (induction xs arbitrary: i) (auto split: if_splits simp: less_Suc_eq_0_disj)

lemma position_None: "position p xs = None \<longleftrightarrow> (\<forall>x \<in> set xs. \<not> p x)"
  by (induction xs) auto

section \<open>Properties\<close>

text \<open>C14: Once a success was recorded, the breaker's state is a function of the later
  history: below \<open>threshold\<close> failures it is closed and counts them; from the threshold on it is
  open since the latest failure, and half-open exactly when an \<open>allow\<close> after that failure
  came at or after the reset time.\<close>
theorem breaker_history:
  assumes "0 < threshold b" "fails = fail_times es" "s = breaker_run (record_success b) es"
  shows "(if length fails < threshold b
          then br_state s = Closed \<and> failures s = length fails
          else failures s = threshold b \<and> opened_at s = last fails \<and>
               br_state s = (if list_ex (due (reset b) (last fails)) (trailing_allows [] es)
                             then HalfOpen else Open))"
  using breaker_run_history [OF assms(1), of es] assms(2,3)
  by (simp add: Let_def list_ex_iff)

theorem breaker_history_witness:
  "br_state (breaker_run (record_success (breaker_new 2 (Fin 30)))
      [Fail (Fin 1), Allow (Fin 5), Fail (Fin 10), Allow (Fin 20), Allow (Fin 40)]) = HalfOpen"
proof -
  let ?b = "breaker_new 2 (Fin 30)"
  let ?es = "[Fail (Fin 1), Allow (Fin 5), Fail (Fin 10), Allow (Fin 20), Allow (Fin 40)]"
  have t: "0 < threshold ?b" by code_simp
  have n: "\<not> length (fail_times ?es) < threshold ?b" by code_simp
  have d: "list_ex (due (reset ?b) (last (fail_times ?es))) (trailing_allows [] ?es)" by code_simp
  show ?thesis using breaker_history [OF t refl refl, of ?es] n d by simp
qed

text \<open>A \<open>tools/call\<close> that resolves to a backend makes one attempt on that backend
  when its breaker allows it and none when the circuit is open; the other backends keep their
  breakers, and the outcome of the attempt is recorded in the breaker of that backend alone.\<close>
theorem rr_tools_call_one_attempt:
  assumes name: "ns_split (unwrap_or (Option.bind (jget ''params'' msg) (get_str ''name'')) []) = Some (bid, og)"
    and pos: "position (\<lambda>b. mb_id b = bid) (rr_backends r) = Some k"
    and b: "b = rr_backends r ! k"
    and c: "c = (bid, ''tools/call'', jput ''name'' (JStr og) (unwrap_or (jget ''params'' msg) (jobj [])))"
    and r': "(reply, r') = rr_tools_call answer now msg rid r"
  shows "rr_calls r' = rr_calls r @ (if fst (allow now (mb_breaker b)) then [c] else []) \<and>
    rr_backends r' = (rr_backends r)[k := b\<lparr>mb_breaker :=
      (if \<not> fst (allow now (mb_breaker b)) then refresh now (mb_breaker b)
       else if \<exists>e. answer (rr_calls r) c = Inl e then record_failure now (refresh now (mb_breaker b))
       else record_success (refresh now (mb_breaker b)))\<rparr>] \<and>
    (if fst (allow now (mb_breaker b)) then jget ''id'' reply = Some rid
     else reply = rpc_error rid SERVER_NOT_AVAILABLE (''backend '' @ bid @ '' unavailable''))"
proof -
  have bid: "mb_id b = bid" using position_Some [OF pos] b by simp
  show ?thesis
    using r' unfolding rr_tools_call_def Let_def name
    by (cases "answer (rr_calls r) c")
      (auto simp: pos bid [unfolded b] b c allow_def channel_request_def rpc_result_def
        rpc_error_def rpc_error_value_def json_simps split: option.splits sum.splits if_splits)
qed

definition demo_router :: resilient_router where
  "demo_router =
     \<lparr>rr_backends = [\<lparr>mb_id = ''files'', mb_breaker = trip (Fin 7) (breaker_new 1 (Fin 30))\<rparr>,
                     \<lparr>mb_id = ''web'', mb_breaker = breaker_new 3 (Fin 30)\<rparr>],
      rr_last_available = [], rr_calls = []\<rparr>"

definition demo_call :: json where
  "demo_call = jobj [(''method'', JStr ''tools/call''),
                     (''params'', jobj [(''name'', JStr ''files__read'')])]"

theorem rr_tools_call_one_attempt_witness:
  "rr_calls (snd (rr_tools_call (\<lambda>_ _. Inr JNull) (Fin 8) demo_call (jnat 1) demo_router)) = [] \<and>
   fst (rr_tools_call (\<lambda>_ _. Inr JNull) (Fin 8) demo_call (jnat 1) demo_router) =
     rpc_error (jnat 1) SERVER_NOT_AVAILABLE ''backend files unavailable''"
proof -
  have n: "ns_split (unwrap_or (Option.bind (jget ''params'' demo_call) (get_str ''name'')) []) =
      Some (''files'', ''read'')" by code_simp
  have k: "position (\<lambda>b. mb_id b = ''files'') (rr_backends demo_router) = Some 0" by code_simp
  have a: "\<not> fst (allow (Fin 8) (mb_breaker (rr_backends demo_router ! 0)))" by code_simp
  have c: "rr_calls demo_router = []" by (simp add: demo_router_def)
  show ?thesis
    using rr_tools_call_one_attempt [OF n k refl refl prod.collapse, where now = "Fin 8"] a c by simp
qed

end
