(* ===== verification/Routing.thy ===== *)
theory Routing
  imports Errors "HOL-Library.Sublist"
begin

text \<open>
  \<open>src/src/routing.rs\<close> (name globs and keyword pre-selection, the server card),
  \<open>src/src/media.rs\<close> (media type negotiation) and \<open>src/src/status.rs\<close>.
\<close>

section \<open>Globs\<close>

definition glob :: "str \<Rightarrow> str \<Rightarrow> bool" where
  "glob pattern name =
     (if pattern = ''*'' then True
      else case (strip_prefix ''*'' pattern, strip_suffix ''*'' pattern) of
        (Some inner, Some _) \<Rightarrow> contains_str (unwrap_or (strip_suffix ''*'' inner) inner) name
      | (Some suf, None) \<Rightarrow> ends_with suf name
      | (None, Some pre) \<Rightarrow> starts_with pre name
      | (None, None) \<Rightarrow> name = pattern)"

definition name_matches :: "str \<Rightarrow> json list \<Rightarrow> bool" where
  "name_matches name patterns \<longleftrightarrow>
     patterns = [] \<or> list_ex (\<lambda>p. glob p name) (List.map_filter as_str patterns)"

text \<open>The reference: every \<open>*\<close> of the pattern stands for any text.\<close>

fun wild :: "str \<Rightarrow> str \<Rightarrow> bool" where
  "wild [] n = (n = [])"
| "wild (p # ps) n =
     (if p = CHR ''*'' then list_ex (wild ps) (suffixes n)
      else case n of [] \<Rightarrow> False | c # cs \<Rightarrow> p = c \<and> wild ps cs)"

lemma wild_star: "wild (CHR ''*'' # ps) n \<longleftrightarrow> (\<exists>a b. n = a @ b \<and> wild ps b)"
  by (auto simp: list_ex_iff suffix_def) blast

lemma wild_literal: "CHR ''*'' \<notin> set p \<Longrightarrow> wild (p @ q) n \<longleftrightarrow> (\<exists>r. n = p @ r \<and> wild q r)"
proof (induction p arbitrary: n)
  case (Cons c p)
  then show ?case by (cases n) auto
qed simp

lemma wild_any: "wild ''*'' n"
  by (metis append.right_neutral wild.simps(1) wild_star)

declare wild.simps [simp del]

lemma wild_exact: "CHR ''*'' \<notin> set p \<Longrightarrow> wild p n \<longleftrightarrow> n = p"
  using wild_literal [of p "[]" n] by (simp add: wild.simps)

lemma wild_prefix: "CHR ''*'' \<notin> set p \<Longrightarrow> wild (p @ ''*'') n \<longleftrightarrow> starts_with p n"
  using wild_literal [of p "''*''" n] by (simp add: wild_any starts_with_iff)

lemma strip_star_prefix: "CHR ''*'' \<notin> set p \<Longrightarrow> p \<noteq> [] \<Longrightarrow> strip_prefix ''*'' (p @ q) = None"
  by (cases p) auto

lemma strip_star_suffix: "CHR ''*'' \<notin> set p \<Longrightarrow> p \<noteq> [] \<Longrightarrow> strip_suffix ''*'' (q @ p) = None"
  by (cases p rule: rev_cases) (auto simp: strip_suffix_def)

lemma strip_suffix_snoc [simp]: "strip_suffix [x] (p @ [x]) = Some p"
  by (simp add: strip_suffix_Some)

text \<open>A pattern whose interior has no \<open>*\<close> means exactly what the reference says.\<close>

lemma glob_exact: "CHR ''*'' \<notin> set p \<Longrightarrow> glob p n \<longleftrightarrow> n = p"
  using strip_star_prefix [of p "[]"] strip_star_suffix [of p "[]"]
  by (cases "p = []") (auto simp: glob_def strip_suffix_def)

lemma glob_suffix: "CHR ''*'' \<notin> set p \<Longrightarrow> glob (''*'' @ p) n \<longleftrightarrow> ends_with p n"
  using strip_star_suffix [of p "''*''"]
  by (cases "p = []") (auto simp: glob_def ends_with_iff)

lemma glob_prefix: "CHR ''*'' \<notin> set p \<Longrightarrow> glob (p @ ''*'') n \<longleftrightarrow> starts_with p n"
  using strip_star_prefix [of p "''*''"]
  by (cases "p = []") (auto simp: glob_def starts_with_iff)

lemma strip_suffix_Cons_snoc [simp]: "strip_suffix [x] (y # p @ [x]) = Some (y # p)"
  using strip_suffix_snoc [of x "y # p"] by simp

lemma glob_infix: "CHR ''*'' \<notin> set p \<Longrightarrow> glob (''*'' @ p @ ''*'') n \<longleftrightarrow> contains_str p n"
  by (simp add: glob_def)

lemma wild_infix: "CHR ''*'' \<notin> set p \<Longrightarrow> wild (''*'' @ p @ ''*'') n \<longleftrightarrow> contains_str p n"
  using wild_star [of "p @ ''*''" n] by (auto simp: wild_prefix contains_str_iff starts_with_iff)

lemma wild_suffix: "CHR ''*'' \<notin> set p \<Longrightarrow> wild (''*'' @ p) n \<longleftrightarrow> ends_with p n"
  using wild_star [of p n] by (auto simp: wild_exact ends_with_iff)

lemmas glob_forms = glob_exact glob_suffix glob_prefix glob_infix
lemmas wild_forms = wild_exact wild_suffix wild_prefix wild_infix

section \<open>Keyword pre-selection and the server card\<close>

definition backend_selected :: "str list \<Rightarrow> json list \<Rightarrow> bool" where
  "backend_selected backend_keywords filter_keywords =
     (if backend_keywords = [] \<or> filter_keywords = [] then True
      else let wanted = List.map_filter as_str filter_keywords
           in list_ex (\<lambda>k. k \<in> set wanted) backend_keywords)"

definition PROXY_NAME :: str where "PROXY_NAME = ''yamp''"
definition PROXY_VERSION :: str where "PROXY_VERSION = ''0.0.0''"

definition PROXY_PROTOCOL_VERSION :: str where
  "PROXY_PROTOCOL_VERSION = STATEFUL_PROTOCOL_VERSION"

definition proxy_server_info :: json where
  "proxy_server_info = jobj [(''name'', JStr PROXY_NAME), (''version'', JStr PROXY_VERSION)]"

definition server_card :: json where
  "server_card =
     (let info = proxy_server_info
      in jobj [(''name'', jindex info ''name''), (''version'', jindex info ''version''),
               (''protocolVersions'', JArr (map JStr SUPPORTED_PROTOCOL_VERSIONS)),
               (''transports'', JArr [JStr ''stdio'', JStr ''streamable-http'']),
               (''role'', JStr ''intermediary'')])"

definition status_snapshot :: "str list \<Rightarrow> nat \<Rightarrow> json" where
  "status_snapshot backend_ids sessions =
     (let card = server_card
      in jobj [(''status'', JStr ''ok''), (''name'', jindex card ''name''),
               (''version'', jindex card ''version''), (''role'', jindex card ''role''),
               (''protocolVersions'', jindex card ''protocolVersions''),
               (''backends'', JArr (map (\<lambda>i. jobj [(''id'', JStr i)]) backend_ids)),
               (''sessions'', jnat sessions)])"

section \<open>Media types (\<open>media.rs\<close>)\<close>

definition MCP_JSON :: str where "MCP_JSON = ''application/mcp+json''"
definition JSON_TYPE :: str where "JSON_TYPE = ''application/json''"

definition media_type :: "str \<Rightarrow> str" where
  "media_type part = trim_str (case split_on (CHR '';'') part of p # _ \<Rightarrow> p | [] \<Rightarrow> [])"

definition response_content_type :: "str option \<Rightarrow> str" where
  "response_content_type accept =
     (case accept of
        None \<Rightarrow> JSON_TYPE
      | Some value \<Rightarrow>
          if value = [] then JSON_TYPE
          else if list_ex (\<lambda>token. token = MCP_JSON \<or> token = ''application/*'' \<or> token = ''*/*'')
                    (map media_type (split_on (CHR '','') value))
               then MCP_JSON else JSON_TYPE)"

definition is_mcp_json :: "str option \<Rightarrow> bool" where
  "is_mcp_json content_type =
     (case content_type of Some value \<Rightarrow> value \<noteq> [] \<and> media_type value = MCP_JSON | None \<Rightarrow> False)"

section \<open>Properties\<close>

text \<open>On the four documented pattern forms (exact, \<open>*suffix\<close>, \<open>prefix*\<close>, \<open>*infix*\<close>) the
  matcher agrees with the meaning of \<open>*\<close> as any text; a \<open>*\<close> inside a pattern is a literal
  character, as in \<open>a*b\<close>.\<close>
theorem glob_is_wild:
  assumes "CHR ''*'' \<notin> set p"
  shows "glob p n = wild p n \<and> glob (''*'' @ p) n = wild (''*'' @ p) n \<and>
    glob (p @ ''*'') n = wild (p @ ''*'') n \<and> glob (''*'' @ p @ ''*'') n = wild (''*'' @ p @ ''*'') n \<and>
    (glob ''a*b'' n \<longleftrightarrow> n = ''a*b'')"
  using assms glob_forms wild_forms by (auto simp: glob_def strip_suffix_def)

theorem glob_is_wild_witness: "glob ''re*'' ''read'' \<and> \<not> glob ''*re'' ''read'' \<and> \<not> glob ''a*b'' ''axb''"
proof -
  have p: "CHR ''*'' \<notin> set ''re''" by simp
  have "wild (''re'' @ ''*'') ''read''" "\<not> wild (''*'' @ ''re'') ''read''" by code_simp+
  then show ?thesis
    using glob_is_wild [OF p, of "''read''"] glob_is_wild [OF p, of "''axb''"] by simp
qed

end
