(* ===== verification/Collision.thy ===== *)
theory Collision
  imports Namespace "HOL-Library.Multiset"
begin

text \<open>
  \<open>src/src/collision.rs\<close>: the collision strategies. \<open>apply_priority\<close> keeps the
  copy of the highest-priority backend for every original name; \<open>resolve_manual\<close> applies
  explicit renames and rejects two names that would share one exposed name.
\<close>

definition PREFIX :: str where "PREFIX = ''prefix''"
definition PRIORITY :: str where "PRIORITY = ''priority''"
definition MANUAL :: str where "MANUAL = ''manual''"
definition PASSTHROUGH :: str where "PASSTHROUGH = ''passthrough''"
definition STRATEGIES :: "str list" where "STRATEGIES = [PREFIX, PRIORITY, MANUAL, PASSTHROUGH]"

definition is_strategy :: "str \<Rightarrow> bool" where
  "is_strategy value \<longleftrightarrow> value \<in> set STRATEGIES"

lemmas strategy_defs = PREFIX_def PRIORITY_def MANUAL_def PASSTHROUGH_def

section \<open>Priority\<close>

text \<open>
  The rank of a labelled name: the index of its backend in \<open>priority\<close> (collecting into a
  \<open>HashMap\<close>, a repeated id keeps its last index), or the length of the list.
\<close>

definition priority_index :: "str list \<Rightarrow> str \<Rightarrow> nat option" where
  "priority_index priority i = map_of (rev (zip priority [0..<length priority])) i"

definition rank_of :: "(str \<Rightarrow> (str \<times> str) option) \<Rightarrow> str list \<Rightarrow> str \<Rightarrow> nat" where
  "rank_of split priority name =
     (case split name of
        Some (backend, _) \<Rightarrow> unwrap_or (priority_index priority backend) (length priority)
      | None \<Rightarrow> length priority)"

definition labeled_name :: "str \<Rightarrow> json \<Rightarrow> str" where
  "labeled_name fld tool = unwrap_or (get_str fld tool) []"

definition original_name :: "(str \<Rightarrow> (str \<times> str) option) \<Rightarrow> str \<Rightarrow> json \<Rightarrow> str" where
  "original_name split fld tool =
     (case split (labeled_name fld tool) of
        Some (_, original) \<Rightarrow> original
      | None \<Rightarrow> labeled_name fld tool)"

definition tool_rank :: "(str \<Rightarrow> (str \<times> str) option) \<Rightarrow> str list \<Rightarrow> str \<Rightarrow> json \<Rightarrow> nat" where
  "tool_rank split priority fld tool = rank_of split priority (labeled_name fld tool)"

text \<open>The loop's variables; \<open>discarded\<close> collects the calls of \<open>on_discard\<close>.\<close>

record priority_state =
  best :: "(str, nat) smap"
  kept :: "(str, json) smap"
  order :: "str list"
  discarded :: "json list"

text \<open>One iteration; \<open>None\<close> is the panic of \<open>&kept[&original]\<close> on a missing key.\<close>

definition priority_step ::
  "(str \<Rightarrow> (str \<times> str) option) \<Rightarrow> str list \<Rightarrow> str \<Rightarrow> json \<Rightarrow> priority_state \<Rightarrow> priority_state option" where
  "priority_step split priority fld tool s =
     (let original = original_name split fld tool;
          this_rank = tool_rank split priority fld tool
      in case smap_get original (best s) of
           None \<Rightarrow>
             Some (s\<lparr>best := smap_put original this_rank (best s),
                     kept := smap_put original tool (kept s),
                     order := order s @ [original]\<rparr>)
         | Some current \<Rightarrow>
             if this_rank < current then
               (case smap_get original (kept s) of
                  None \<Rightarrow> None
                | Some old \<Rightarrow>
                    Some (s\<lparr>best := smap_put original this_rank (best s),
                            kept := smap_put original tool (kept s),
                            discarded := discarded s @ [old]\<rparr>))
             else Some (s\<lparr>discarded := discarded s @ [tool]\<rparr>))"

fun priority_loop ::
  "(str \<Rightarrow> (str \<times> str) option) \<Rightarrow> str list \<Rightarrow> str \<Rightarrow> json list \<Rightarrow> priority_state \<Rightarrow> priority_state option" where
  "priority_loop split priority fld [] s = Some s"
| "priority_loop split priority fld (t # ts) s =
     Option.bind (priority_step split priority fld t s) (priority_loop split priority fld ts)"

text \<open>\<open>order.into_iter().map(|original| kept.remove(&original).unwrap())\<close>\<close>

fun take_kept :: "str list \<Rightarrow> (str, json) smap \<Rightarrow> json list option" where
  "take_kept [] k = Some []"
| "take_kept (x # xs) k =
     (case smap_get x k of
        None \<Rightarrow> None
      | Some t \<Rightarrow> map_option ((#) t) (take_kept xs (smap_del x k)))"

definition apply_priority ::
  "(str \<Rightarrow> (str \<times> str) option) \<Rightarrow> str list \<Rightarrow> str \<Rightarrow> json list \<Rightarrow> (json list \<times> json list) option" where
  "apply_priority split priority fld tools =
     do { s \<leftarrow> priority_loop split priority fld tools
                 \<lparr>best = [], kept = [], order = [], discarded = []\<rparr>;
          out \<leftarrow> take_kept (order s) (kept s);
          Some (out, discarded s) }"

subsection \<open>The invariant of the loop\<close>

definition kept_winner :: "('t \<Rightarrow> str) \<Rightarrow> ('t \<Rightarrow> nat) \<Rightarrow> 't list \<Rightarrow> str \<Rightarrow> 't \<Rightarrow> bool" where
  "kept_winner f g ds og t \<longleftrightarrow>
     t \<in> set ds \<and> f t = og \<and> (\<forall>u \<in> set ds. f u = og \<longrightarrow> g t \<le> g u)"

definition loop_inv :: "(json \<Rightarrow> str) \<Rightarrow> (json \<Rightarrow> nat) \<Rightarrow> json list \<Rightarrow> priority_state \<Rightarrow> bool" where
  "loop_inv f g ds s \<longleftrightarrow>
     order s = firsts [] (map f ds) \<and>
     (\<forall>og. smap_get og (best s) = map_option g (smap_get og (kept s))) \<and>
     (\<forall>og. smap_get og (kept s) = None \<longleftrightarrow> og \<notin> f ` set ds) \<and>
     (\<forall>og t. smap_get og (kept s) = Some t \<longrightarrow> kept_winner f g ds og t) \<and>
     mset (map (\<lambda>og. the (smap_get og (kept s))) (order s)) + mset (discarded s) = mset ds"

lemma kept_winner_new: "f t \<notin> f ` set ds \<Longrightarrow> kept_winner f g (ds @ [t]) (f t) t"
  by (auto simp: kept_winner_def) (metis image_eqI)

lemma kept_winner_keep:
  "kept_winner f g ds og k \<Longrightarrow> (f t = og \<Longrightarrow> g k \<le> g t) \<Longrightarrow> kept_winner f g (ds @ [t]) og k"
  by (auto simp: kept_winner_def)

lemma kept_winner_replace:
  "kept_winner f g ds (f t) k \<Longrightarrow> g t < g k \<Longrightarrow> kept_winner f g (ds @ [t]) (f t) t"
  by (fastforce simp: kept_winner_def)

lemma map_the_put_notin:
  "x \<notin> set xs \<Longrightarrow>
     map (\<lambda>y. the (smap_get y (smap_put x v m))) xs = map (\<lambda>y. the (smap_get y m)) xs"
  by (auto simp: store_simps)

lemma mset_replace_kept:
  assumes "distinct xs" "x \<in> set xs" "smap_get x m = Some old"
  shows "mset (map (\<lambda>y. the (smap_get y (smap_put x v m))) xs) + {#old#} =
         mset (map (\<lambda>y. the (smap_get y m)) xs) + {#v#}"
proof -
  obtain a b where xs: "xs = a @ x # b" "x \<notin> set a" "x \<notin> set b"
    using assms(1,2) by (metis distinct.simps(2) distinct_append not_distinct_conv_prefix split_list
        disjoint_iff list.set_intros(1))
  show ?thesis
    using assms(3) xs(2,3) unfolding xs(1)
    by (simp add: map_the_put_notin smap.get_put_same del: mset_map)
qed

lemma loop_inv_step:
  assumes inv: "loop_inv f g ds s"
    and f: "f = original_name split fld" and g: "g = tool_rank split priority fld"
  shows "\<exists>s'. priority_step split priority fld t s = Some s' \<and> loop_inv f g (ds @ [t]) s'"
proof (cases "smap_get (f t) (kept s)")
  case None
  then have new: "f t \<notin> f ` set ds" and nb: "smap_get (f t) (best s) = None"
    using inv by (auto simp: loop_inv_def)
  then have notin: "f t \<notin> set (order s)" using inv by (auto simp: loop_inv_def set_firsts)
  define s' where "s' = s\<lparr>best := smap_put (f t) (g t) (best s),
      kept := smap_put (f t) t (kept s), order := order s @ [f t]\<rparr>"
  have "priority_step split priority fld t s = Some s'"
    using nb by (simp add: priority_step_def s'_def f g Let_def)
  moreover have "loop_inv f g (ds @ [t]) s'"
    unfolding loop_inv_def
  proof (intro conjI allI impI)
    show "order s' = firsts [] (map f (ds @ [t]))"
      using inv new by (simp add: s'_def loop_inv_def firsts_snoc)
    fix og k assume "smap_get og (kept s') = Some k"
    then show "kept_winner f g (ds @ [t]) og k"
      using inv new by (auto simp: s'_def store_simps loop_inv_def split: if_splits
          intro: kept_winner_new kept_winner_keep)
  next
    show "mset (map (\<lambda>og. the (smap_get og (kept s'))) (order s')) + mset (discarded s') =
        mset (ds @ [t])"
      using inv notin unfolding loop_inv_def
      by (elim conjE) (simp add: s'_def map_the_put_notin smap.get_put_same del: mset_map)
  qed (use inv in \<open>auto simp: s'_def store_simps loop_inv_def\<close>)
  ultimately show ?thesis by blast
next
  case (Some old)
  then have rank: "smap_get (f t) (best s) = Some (g old)" and kw: "kept_winner f g ds (f t) old"
    using inv by (auto simp: loop_inv_def)
  have ord: "f t \<in> set (order s)" "distinct (order s)"
    using inv Some by (auto simp: loop_inv_def set_firsts distinct_firsts)
      (metis option.distinct(1))
  have seen: "f t \<in> f ` set ds" using kw unfolding kept_winner_def by (metis image_eqI)
  show ?thesis
  proof (cases "g t < g old")
    case True
    define s' where "s' = s\<lparr>best := smap_put (f t) (g t) (best s),
        kept := smap_put (f t) t (kept s), discarded := discarded s @ [old]\<rparr>"
    have "priority_step split priority fld t s = Some s'"
      using rank Some True by (simp add: priority_step_def s'_def f g Let_def)
    moreover have "loop_inv f g (ds @ [t]) s'"
      unfolding loop_inv_def
    proof (intro conjI allI impI)
      show "order s' = firsts [] (map f (ds @ [t]))"
        using inv seen by (simp add: s'_def loop_inv_def firsts_snoc)
      fix og k assume "smap_get og (kept s') = Some k"
      then show "kept_winner f g (ds @ [t]) og k"
        using inv kw True by (auto simp: s'_def store_simps loop_inv_def split: if_splits
            intro: kept_winner_replace kept_winner_keep)
    next
      show "mset (map (\<lambda>og. the (smap_get og (kept s'))) (order s')) + mset (discarded s') =
          mset (ds @ [t])"
        using inv mset_replace_kept [OF ord(2,1) Some, of t]
        by (simp add: s'_def loop_inv_def) (metis add_mset_add_single union_mset_add_mset_left)
    qed (use inv in \<open>auto simp: s'_def store_simps loop_inv_def\<close>)
    ultimately show ?thesis by blast
  next
    case False
    define s' where "s' = s\<lparr>discarded := discarded s @ [t]\<rparr>"
    have "priority_step split priority fld t s = Some s'"
      using rank False by (simp add: priority_step_def s'_def f g Let_def)
    moreover have "loop_inv f g (ds @ [t]) s'"
      unfolding loop_inv_def
    proof (intro conjI allI impI)
      show "order s' = firsts [] (map f (ds @ [t]))"
        using inv seen by (simp add: s'_def loop_inv_def firsts_snoc)
      fix og k assume "smap_get og (kept s') = Some k"
      then show "kept_winner f g (ds @ [t]) og k"
        using inv kw False Some by (auto simp: s'_def loop_inv_def intro: kept_winner_keep)
    qed (use inv seen in \<open>auto simp: s'_def loop_inv_def\<close>)
    ultimately show ?thesis by blast
  qed
qed

lemma loop_inv_loop:
  assumes "f = original_name split fld" "g = tool_rank split priority fld"
  shows "loop_inv f g ds s \<Longrightarrow>
    \<exists>s'. priority_loop split priority fld ts s = Some s' \<and> loop_inv f g (ds @ ts) s'"
proof (induction ts arbitrary: ds s)
  case (Cons t ts)
  obtain s1 where s1: "priority_step split priority fld t s = Some s1" "loop_inv f g (ds @ [t]) s1"
    using loop_inv_step [OF Cons.prems assms] by blast
  then show ?case using Cons.IH [OF s1(2)] by simp
qed simp

lemma take_kept_all:
  "distinct xs \<Longrightarrow> \<forall>x \<in> set xs. smap_get x k \<noteq> None \<Longrightarrow>
     take_kept xs k = Some (map (\<lambda>x. the (smap_get x k)) xs)"
proof (induction xs arbitrary: k)
  case (Cons x xs)
  then obtain t where t: "smap_get x k = Some t" by auto
  have "take_kept xs (smap_del x k) = Some (map (\<lambda>y. the (smap_get y (smap_del x k))) xs)"
    using Cons by (intro Cons.IH) (auto simp: store_simps)
  moreover have "map (\<lambda>y. the (smap_get y (smap_del x k))) xs = map (\<lambda>y. the (smap_get y k)) xs"
    using Cons.prems(1) by (auto simp: store_simps)
  ultimately show ?case using t by simp
qed simp

text \<open>What the two panicking lookups of the code rest on, and the result they give.\<close>

lemma apply_priority_result:
  fixes split fld priority tools
  defines "f \<equiv> original_name split fld" and "g \<equiv> tool_rank split priority fld"
  shows "\<exists>out disc. apply_priority split priority fld tools = Some (out, disc) \<and>
    map f out = firsts [] (map f tools) \<and>
    (\<forall>t \<in> set out. kept_winner f g tools (f t) t) \<and>
    mset out + mset disc = mset tools"
proof -
  have "loop_inv f g [] \<lparr>best = [], kept = [], order = [], discarded = []\<rparr>"
    by (simp add: loop_inv_def)
  then obtain s where s: "priority_loop split priority fld tools
      \<lparr>best = [], kept = [], order = [], discarded = []\<rparr> = Some s" "loop_inv f g tools s"
    using loop_inv_loop [of f split fld g priority "[]"] by (auto simp: f_def g_def)
  let ?out = "map (\<lambda>x. the (smap_get x (kept s))) (order s)"
  have present: "smap_get x (kept s) \<noteq> None" if "x \<in> set (order s)" for x
    using s(2) that by (auto simp: loop_inv_def set_firsts)
  have "distinct (order s)" using s(2) by (simp add: loop_inv_def distinct_firsts)
  then have "take_kept (order s) (kept s) = Some ?out"
    using present by (intro take_kept_all) auto
  moreover have kw: "kept_winner f g tools x (the (smap_get x (kept s)))" if "x \<in> set (order s)" for x
    using s(2) present [OF that] by (auto simp: loop_inv_def)
  moreover have "map f ?out = order s" using kw by (auto simp: kept_winner_def intro: map_idI)
  ultimately show ?thesis
    using s by (auto simp: apply_priority_def loop_inv_def kept_winner_def)
qed

section \<open>Manual renames\<close>

text \<open>
  The error names the two colliding names and the exposed name they share; the code formats
  them with \<open>{:?}\<close> into its message.
\<close>

datatype manual_error = BothMapTo str str str

definition manual_target :: "(str, str) smap \<Rightarrow> str \<Rightarrow> str" where
  "manual_target overrides name = unwrap_or (smap_get name overrides) name"

fun manual_loop ::
  "(str, str) smap \<Rightarrow> str list \<Rightarrow> (str, str) smap \<Rightarrow> (str, str) smap \<Rightarrow> manual_error + (str, str) smap" where
  "manual_loop overrides [] exposed seen = Inr exposed"
| "manual_loop overrides (name # names) exposed seen =
     (let target = manual_target overrides name;
          continue = manual_loop overrides names (smap_put name target exposed) (smap_put target name seen)
      in case smap_get target seen of
           Some other \<Rightarrow> if other \<noteq> name then Inl (BothMapTo name other target) else continue
         | None \<Rightarrow> continue)"

definition resolve_manual :: "str list \<Rightarrow> (str, str) smap \<Rightarrow> manual_error + (str, str) smap" where
  "resolve_manual names overrides = manual_loop overrides names [] []"

definition manual_inv ::
  "(str \<Rightarrow> str) \<Rightarrow> str list \<Rightarrow> (str, str) smap \<Rightarrow> (str, str) smap \<Rightarrow> bool" where
  "manual_inv f ds exposed seen \<longleftrightarrow>
     inj_on f (set ds) \<and>
     (\<forall>x. smap_get x exposed = (if x \<in> set ds then Some (f x) else None)) \<and>
     (\<forall>y n. smap_get y seen = Some n \<longleftrightarrow> n \<in> set ds \<and> f n = y)"

lemma manual_inv_add:
  assumes "manual_inv f ds exposed seen" "smap_get (f n) seen = None \<or> smap_get (f n) seen = Some n"
  shows "manual_inv f (ds @ [n]) (smap_put n (f n) exposed) (smap_put (f n) n seen)"
proof -
  have fresh: "x = n" if "x \<in> set ds" "f x = f n" for x
  proof -
    have "smap_get (f n) seen = Some x" using assms(1) that by (simp add: manual_inv_def)
    then show ?thesis using assms(2) by simp
  qed
  have "inj_on f (set ds)" using assms(1) by (simp add: manual_inv_def)
  then have "inj_on f (set (ds @ [n]))" using fresh by (fastforce simp: inj_on_def)
  moreover have "smap_get y (smap_put (f n) n seen) = Some m \<longleftrightarrow> m \<in> set (ds @ [n]) \<and> f m = y" for y m
    using assms(1) fresh by (auto simp: manual_inv_def store_simps)
  ultimately show ?thesis
    using assms(1) by (auto simp: manual_inv_def store_simps)
qed

lemma manual_loop_result:
  assumes "manual_inv (manual_target overrides) ds exposed seen"
  shows "case manual_loop overrides names exposed seen of
      Inr m \<Rightarrow> \<exists>seen'. manual_inv (manual_target overrides) (ds @ names) m seen'
    | Inl (BothMapTo a b t) \<Rightarrow> a \<in> set (ds @ names) \<and> b \<in> set (ds @ names) \<and> a \<noteq> b \<and>
        manual_target overrides a = t \<and> manual_target overrides b = t"
  using assms
proof (induction names arbitrary: ds exposed seen)
  case Nil
  then show ?case by auto
next
  case (Cons n names)
  let ?f = "manual_target overrides"
  show ?case
  proof (cases "\<exists>other. smap_get (?f n) seen = Some other \<and> other \<noteq> n")
    case True
    then obtain other where o: "smap_get (?f n) seen = Some other" "other \<noteq> n" by blast
    then have "other \<in> set ds" "?f other = ?f n" using Cons.prems by (auto simp: manual_inv_def)
    then show ?thesis using o by (auto simp: Let_def)
  next
    case False
    then have "smap_get (?f n) seen = None \<or> smap_get (?f n) seen = Some n"
      by (cases "smap_get (?f n) seen") auto
    with Cons.prems have "manual_inv ?f (ds @ [n]) (smap_put n (?f n) exposed) (smap_put (?f n) n seen)"
      by (rule manual_inv_add)
    moreover have app: "(ds @ [n]) @ names = ds @ n # names" by simp
    ultimately have IH: "case manual_loop overrides names (smap_put n (?f n) exposed)
        (smap_put (?f n) n seen) of
        Inr m \<Rightarrow> \<exists>seen'. manual_inv ?f (ds @ n # names) m seen'
      | Inl (BothMapTo a b t) \<Rightarrow> a \<in> set (ds @ n # names) \<and> b \<in> set (ds @ n # names) \<and> a \<noteq> b \<and>
          ?f a = t \<and> ?f b = t"
      using Cons.IH [of "ds @ [n]", unfolded app] by blast
    have "manual_loop overrides (n # names) exposed seen =
        manual_loop overrides names (smap_put n (?f n) exposed) (smap_put (?f n) n seen)"
      using False by (auto simp: Let_def split: option.splits)
    with IH show ?thesis by simp
  qed
qed

lemma resolve_manual_cases:
  "case resolve_manual names overrides of
     Inr m \<Rightarrow> inj_on (manual_target overrides) (set names) \<and>
       (\<forall>x. smap_get x m = (if x \<in> set names then Some (manual_target overrides x) else None))
   | Inl (BothMapTo a b t) \<Rightarrow> a \<in> set names \<and> b \<in> set names \<and> a \<noteq> b \<and>
       manual_target overrides a = t \<and> manual_target overrides b = t"
proof -
  have "manual_inv (manual_target overrides) [] [] []" by (simp add: manual_inv_def)
  from manual_loop_result [OF this, of names] show ?thesis
    by (auto simp: resolve_manual_def manual_inv_def split: sum.splits manual_error.splits)
qed

section \<open>Properties\<close>

text \<open>C39: The priority strategy never panics; it keeps one copy per original name, in order
  of first appearance, each of the best rank among its copies, and every tool of the input is
  either kept or reported to \<open>on_discard\<close>, none twice.\<close>
theorem apply_priority_correct:
  "\<exists>out disc. apply_priority split priority fld tools = Some (out, disc) \<and>
    map (original_name split fld) out = firsts [] (map (original_name split fld) tools) \<and>
    list_all (\<lambda>t. kept_winner (original_name split fld) (tool_rank split priority fld) tools
                   (original_name split fld t) t) out \<and>
    mset out + mset disc = mset tools"
  using apply_priority_result [of split priority fld tools] by (simp add: list_all_iff)

text \<open>Manual renaming succeeds exactly when no two names share an exposed name; the map
  it returns then gives every name its target and nothing else, and otherwise the error names
  two different names and the exposed name they share.\<close>
theorem resolve_manual_correct:
  "case resolve_manual names overrides of
     Inr m \<Rightarrow> inj_on (manual_target overrides) (set names) \<and>
       (\<forall>x. smap_get x m = (if x \<in> set names then Some (manual_target overrides x) else None))
   | Inl (BothMapTo a b t) \<Rightarrow> a \<in> set names \<and> b \<in> set names \<and> a \<noteq> b \<and>
       manual_target overrides a = t \<and> manual_target overrides b = t"
  by (rule resolve_manual_cases)

end
