(* ===== verification/Tasks.thy ===== *)
theory Tasks
  imports Namespace
begin

text \<open>
  \<open>src/src/tasks.rs\<close> (task ids, their namespacing, the server's own task store) and
  \<open>src/src/subscriptions.rs\<close> (resource subscriptions, the same seam for URIs). Both keep
  node-local state that is described here by histories of operations.
\<close>

section \<open>Task methods and handles\<close>

definition TASKS_METHODS :: "str list" where
  "TASKS_METHODS = [''tasks/get'', ''tasks/update'', ''tasks/cancel'', ''tasks/stream'']"

definition TASK_READ_METHODS :: "str list" where
  "TASK_READ_METHODS = [''tasks/get'', ''tasks/stream'']"

definition TASK_EVENT_METHOD :: str where "TASK_EVENT_METHOD = ''notifications/tasks/event''"
definition RESULT_TYPE_TASK :: str where "RESULT_TYPE_TASK = ''task''"
definition TASK_META_KEY :: str where "TASK_META_KEY = ''io.modelcontextprotocol/task''"
definition STATUS_WORKING :: str where "STATUS_WORKING = ''working''"
definition STATUS_COMPLETED :: str where "STATUS_COMPLETED = ''completed''"
definition STATUS_CANCELLED :: str where "STATUS_CANCELLED = ''cancelled''"
definition STATUS_FAILED :: str where "STATUS_FAILED = ''failed''"

lemmas status_defs = STATUS_WORKING_def STATUS_COMPLETED_def STATUS_CANCELLED_def STATUS_FAILED_def

definition is_task_method :: "str \<Rightarrow> bool" where
  "is_task_method method \<longleftrightarrow> method \<in> set TASKS_METHODS"

definition is_task_result :: "json \<Rightarrow> bool" where
  "is_task_result result \<longleftrightarrow> get_str ''resultType'' result = Some RESULT_TYPE_TASK"

definition is_task_augmented :: "json \<Rightarrow> bool" where
  "is_task_augmented params \<longleftrightarrow> Option.bind (jget ''_meta'' params) (jget TASK_META_KEY) \<noteq> None"

definition new_task_id :: "u64 \<Rightarrow> str" where
  "new_task_id s = ''task-'' @ show_nat (unat s)"

definition put_opt :: "str \<Rightarrow> json option \<Rightarrow> (str, json) smap \<Rightarrow> (str, json) smap" where
  "put_opt k x m = (case x of Some v \<Rightarrow> smap_put k v m | None \<Rightarrow> m)"

definition task_handle :: "str \<Rightarrow> str \<Rightarrow> json option \<Rightarrow> json option \<Rightarrow> json" where
  "task_handle task_id status result err =
     (let handle = smap_put ''resultType'' (JStr RESULT_TYPE_TASK) [];
          handle = smap_put ''taskId'' (JStr task_id) handle;
          handle = smap_put ''status'' (JStr status) handle
      in JObj (put_opt ''error'' err (put_opt ''result'' result handle)))"

text \<open>\<open>object.get(k).and_then(as_str)\<close> rewritten by \<open>f\<close>, when it is a string.\<close>

definition relabel :: "str \<Rightarrow> (str \<Rightarrow> str) \<Rightarrow> json \<Rightarrow> json" where
  "relabel k f v = (case get_str k v of Some i \<Rightarrow> jput k (JStr (f i)) v | None \<Rightarrow> v)"

definition namespace_task_id :: "json \<Rightarrow> str \<Rightarrow> json" where
  "namespace_task_id result backend_id =
     jmodify ''task'' (relabel ''taskId'' (ns_prefix backend_id))
       (relabel ''taskId'' (ns_prefix backend_id) result)"

definition resolve_task :: "str \<Rightarrow> (str \<times> str) option" where
  "resolve_task task_id = ns_split task_id"

definition namespace_event :: "json \<Rightarrow> str \<Rightarrow> json" where
  "namespace_event message backend_id =
     jmodify ''params'' (relabel ''taskId'' (ns_prefix backend_id)) message"

lemma get_str_is_object: "get_str k v = Some s \<Longrightarrow> is_object v"
  by (cases v) (auto simp: get_str_def)

lemma get_str_relabel [json_simps]:
  "get_str k (relabel k' f v) = (if k = k' then map_option f (get_str k v) else get_str k v)"
  by (auto simp: relabel_def get_str_jput get_str_is_object split: option.splits)

lemma jget_relabel_other: "k \<noteq> k' \<Longrightarrow> jget k (relabel k' f v) = jget k v"
  by (auto simp: relabel_def json_simps split: option.splits)

section \<open>The server's own tasks\<close>

record server_tasks =
  tasks :: "(str, json) smap"
  task_seq :: u64

definition tasks_new :: server_tasks where
  "tasks_new = \<lparr>tasks = [], task_seq = 0\<rparr>"

definition task_create :: "server_tasks \<Rightarrow> str \<times> server_tasks" where
  "task_create s =
     (let n = task_seq s + 1; task_id = new_task_id n
      in (task_id,
          s\<lparr>task_seq := n,
            tasks := smap_put task_id (jobj [(''status'', JStr STATUS_WORKING)]) (tasks s)\<rparr>))"

definition task_contains :: "str \<Rightarrow> server_tasks \<Rightarrow> bool" where
  "task_contains task_id s \<longleftrightarrow> smap_get task_id (tasks s) \<noteq> None"

definition task_get :: "str \<Rightarrow> server_tasks \<Rightarrow> json option" where
  "task_get task_id s = smap_get task_id (tasks s)"

definition is_working :: "str \<Rightarrow> server_tasks \<Rightarrow> bool" where
  "is_working task_id s \<longleftrightarrow>
     Option.bind (smap_get task_id (tasks s)) (get_str ''status'') = Some STATUS_WORKING"

definition completed_record :: "json \<Rightarrow> json" where
  "completed_record result = jobj [(''status'', JStr STATUS_COMPLETED), (''result'', result)]"

definition failed_record :: "json \<Rightarrow> json" where
  "failed_record err = jobj [(''status'', JStr STATUS_FAILED), (''error'', err)]"

definition cancelled_record :: json where
  "cancelled_record = jobj [(''status'', JStr STATUS_CANCELLED)]"

definition task_complete :: "str \<Rightarrow> json \<Rightarrow> server_tasks \<Rightarrow> server_tasks" where
  "task_complete task_id result s =
     (if is_working task_id s
      then s\<lparr>tasks := smap_put task_id (completed_record result) (tasks s)\<rparr> else s)"

definition task_fail :: "str \<Rightarrow> json \<Rightarrow> server_tasks \<Rightarrow> server_tasks" where
  "task_fail task_id err s =
     (if is_working task_id s
      then s\<lparr>tasks := smap_put task_id (failed_record err) (tasks s)\<rparr> else s)"

definition task_cancel :: "str \<Rightarrow> server_tasks \<Rightarrow> bool \<times> server_tasks" where
  "task_cancel task_id s =
     (if is_working task_id s
      then (True, s\<lparr>tasks := smap_put task_id cancelled_record (tasks s)\<rparr>)
      else (False, s))"

subsection \<open>Histories\<close>

datatype task_op = TCreate | TComplete str json | TFail str json | TCancel str

fun task_step :: "server_tasks \<Rightarrow> task_op \<Rightarrow> server_tasks" where
  "task_step s TCreate = snd (task_create s)"
| "task_step s (TComplete i r) = task_complete i r s"
| "task_step s (TFail i e) = task_fail i e s"
| "task_step s (TCancel i) = snd (task_cancel i s)"

text \<open>The specification: the first settlement of a task decides its record for good.\<close>

fun settlement :: "str \<Rightarrow> task_op \<Rightarrow> json option" where
  "settlement i TCreate = None"
| "settlement i (TComplete j r) = (if i = j then Some (completed_record r) else None)"
| "settlement i (TFail j e) = (if i = j then Some (failed_record e) else None)"
| "settlement i (TCancel j) = (if i = j then Some cancelled_record else None)"

fun outcome :: "str \<Rightarrow> task_op list \<Rightarrow> json option" where
  "outcome i [] = None"
| "outcome i (x # xs) = (case settlement i x of Some r \<Rightarrow> Some r | None \<Rightarrow> outcome i xs)"

definition working_record :: json where
  "working_record = jobj [(''status'', JStr STATUS_WORKING)]"

fun creates :: "task_op list \<Rightarrow> nat" where
  "creates [] = 0"
| "creates (TCreate # xs) = Suc (creates xs)"
| "creates (x # xs) = creates xs"

lemma creates_append [simp]: "creates (xs @ ys) = creates xs + creates ys"
  by (induction xs rule: creates.induct) auto

lemma record_status:
  "get_str ''status'' working_record = Some STATUS_WORKING"
  "get_str ''status'' (completed_record r) \<noteq> Some STATUS_WORKING"
  "get_str ''status'' (failed_record e) \<noteq> Some STATUS_WORKING"
  "get_str ''status'' cancelled_record \<noteq> Some STATUS_WORKING"
  by (simp_all add: working_record_def completed_record_def failed_record_def cancelled_record_def
      get_str_def json_simps status_defs)

lemma settlement_status: "settlement i x = Some r \<Longrightarrow> get_str ''status'' r \<noteq> Some STATUS_WORKING"
  by (cases x) (auto simp: record_status split: if_splits)

lemma outcome_status: "outcome i xs = Some r \<Longrightarrow> get_str ''status'' r \<noteq> Some STATUS_WORKING"
  by (induction xs) (auto simp: settlement_status split: option.splits)

lemma outcome_snoc:
  "outcome i (xs @ [x]) = (case outcome i xs of Some r \<Rightarrow> Some r | None \<Rightarrow> settlement i x)"
  by (induction xs) (auto split: option.splits)

lemma seq_after: "task_seq (foldl task_step s ops) = task_seq s + of_nat (creates ops)"
proof (induction ops rule: rev_induct)
  case (snoc x xs)
  then show ?case
    by (cases x) (auto simp: task_create_def task_complete_def task_fail_def task_cancel_def Let_def)
qed simp

lemma new_task_id_inject: "new_task_id m = new_task_id n \<longleftrightarrow> m = n"
  by (auto simp: new_task_id_def show_nat_inject word_unat_eq_iff)

lemma task_step_other:
  assumes "task_get i s = Some r"
    and "x = TCreate \<Longrightarrow> i \<noteq> new_task_id (task_seq s + 1)"
  shows "task_get i (task_step s x) =
    (if get_str ''status'' r = Some STATUS_WORKING
     then (case settlement i x of Some q \<Rightarrow> Some q | None \<Rightarrow> Some r) else Some r)"
  using assms
  by (cases x)
    (auto simp: task_get_def task_create_def task_complete_def task_fail_def task_cancel_def
      is_working_def Let_def store_simps)

lemma of_nat_nonzero: "0 < n \<Longrightarrow> n < 2 ^ 64 \<Longrightarrow> (of_nat n :: u64) \<noteq> 0"
  by (simp add: word_unat_eq_iff unat_of_nat)

lemma settled_run:
  assumes "task_create s = (i, s1)" "creates ops + 1 < 2 ^ 64"
  shows "task_get i (foldl task_step s1 ops) =
    Some (case outcome i ops of Some r \<Rightarrow> r | None \<Rightarrow> working_record)"
  using assms(2)
proof (induction ops rule: rev_induct)
  case Nil
  then show ?case using assms(1)
    by (auto simp: task_create_def Let_def task_get_def store_simps working_record_def)
next
  case (snoc x xs)
  let ?s = "foldl task_step s1 xs"
  have i: "i = new_task_id (task_seq s + 1)" "task_seq s1 = task_seq s + 1"
    using assms(1) by (auto simp: task_create_def Let_def)
  have IH: "task_get i ?s = Some (case outcome i xs of Some r \<Rightarrow> r | None \<Rightarrow> working_record)"
    using snoc by simp
  have "i \<noteq> new_task_id (task_seq ?s + 1)" if "x = TCreate"
  proof -
    have "(of_nat (creates xs + 1) :: u64) \<noteq> 0"
      using snoc.prems that by (intro of_nat_nonzero) auto
    then show ?thesis unfolding i(1) new_task_id_inject seq_after i(2) by (simp add: algebra_simps)
  qed
  then show ?case
    using task_step_other [OF IH, of x] outcome_status [of i xs]
    by (auto simp: outcome_snoc record_status split: option.splits)
qed

section \<open>Subscriptions (\<open>subscriptions.rs\<close>)\<close>

definition SUBSCRIBE_METHOD :: str where "SUBSCRIBE_METHOD = ''resources/subscribe''"
definition UNSUBSCRIBE_METHOD :: str where "UNSUBSCRIBE_METHOD = ''resources/unsubscribe''"
definition UPDATED_METHOD :: str where "UPDATED_METHOD = ''notifications/resources/updated''"

definition is_subscribe_method :: "str \<Rightarrow> bool" where
  "is_subscribe_method method \<longleftrightarrow> method = SUBSCRIBE_METHOD \<or> method = UNSUBSCRIBE_METHOD"

definition updated_notification :: "str \<Rightarrow> json" where
  "updated_notification uri =
     jobj [(''jsonrpc'', JStr ''2.0''), (''method'', JStr UPDATED_METHOD),
           (''params'', jobj [(''uri'', JStr uri)])]"

definition namespace_updated :: "json \<Rightarrow> str \<Rightarrow> json" where
  "namespace_updated message backend_id =
     jmodify ''params'' (relabel ''uri'' (prefix_uri backend_id)) message"

text \<open>The \<open>HashSet\<close> of URIs is a map to unit: the code only asks for membership and size.\<close>

type_synonym subscriptions = "(str, unit) smap"

definition subscribe :: "str \<Rightarrow> subscriptions \<Rightarrow> subscriptions" where
  "subscribe uri s = smap_put uri () s"

definition unsubscribe :: "str \<Rightarrow> subscriptions \<Rightarrow> bool \<times> subscriptions" where
  "unsubscribe uri s = (smap_get uri s \<noteq> None, smap_del uri s)"

definition subscribed :: "str \<Rightarrow> subscriptions \<Rightarrow> bool" where
  "subscribed uri s \<longleftrightarrow> smap_get uri s \<noteq> None"

definition subscription_count :: "subscriptions \<Rightarrow> nat" where
  "subscription_count s = length s"

datatype sub_op = Sub str | Unsub str

fun sub_step :: "subscriptions \<Rightarrow> sub_op \<Rightarrow> subscriptions" where
  "sub_step s (Sub u) = subscribe u s"
| "sub_step s (Unsub u) = snd (unsubscribe u s)"

text \<open>The specification: a URI is subscribed when the latest operation on it subscribed it.\<close>

fun latest :: "str \<Rightarrow> bool \<Rightarrow> sub_op list \<Rightarrow> bool" where
  "latest u b [] = b"
| "latest u b (Sub v # xs) = latest u (if u = v then True else b) xs"
| "latest u b (Unsub v # xs) = latest u (if u = v then False else b) xs"

lemma sub_step_wf: "smap_wf s \<Longrightarrow> smap_wf (sub_step s x)"
  by (cases x) (auto simp: subscribe_def unsubscribe_def smap_wf_put smap_wf_del)

lemma sub_run_wf: "smap_wf s \<Longrightarrow> smap_wf (foldl sub_step s xs)"
  by (induction xs arbitrary: s) (auto simp: sub_step_wf)

lemma sub_run_latest: "subscribed u (foldl sub_step s xs) = latest u (subscribed u s) xs"
proof (induction xs arbitrary: s)
  case (Cons x xs)
  have "subscribed u (sub_step s x) = latest u (subscribed u s) [x]"
    by (cases x) (auto simp: subscribed_def subscribe_def unsubscribe_def store_simps)
  then show ?case using Cons by (cases x) auto
qed simp

section \<open>Properties\<close>

text \<open>C37: A task the server creates is working until the first \<open>complete\<close>, \<open>fail\<close> or \<open>cancel\<close>
  on it and keeps that outcome for good, whatever other operations run and however they are
  interleaved; \<open>cancel\<close> reports a transition exactly when it is the first. The 64-bit sequence
  must not wrap within the history.\<close>
theorem task_first_settlement_is_final:
  assumes "task_create s = (i, s1)" "creates ops + 1 < 2 ^ 64" "s2 = foldl task_step s1 ops"
  shows "task_get i s2 = Some (case outcome i ops of Some r \<Rightarrow> r | None \<Rightarrow> working_record) \<and>
    fst (task_cancel i s2) = (outcome i ops = None)"
  using settled_run [OF assms(1,2)] outcome_status [of i ops] assms(3)
  by (auto simp: task_cancel_def is_working_def task_get_def record_status split: option.splits)

theorem task_first_settlement_is_final_witness:
  "task_get ''task-1'' (foldl task_step (snd (task_create tasks_new))
      [TCreate, TCancel ''task-1'', TComplete ''task-2'' JNull, TComplete ''task-1'' (JStr ''late'')]) =
    Some cancelled_record"
proof -
  let ?ops = "[TCreate, TCancel ''task-1'', TComplete ''task-2'' JNull, TComplete ''task-1'' (JStr ''late'')]"
  have i: "task_create tasks_new = (''task-1'', snd (task_create tasks_new))" by code_simp
  have c: "creates ?ops + 1 < 2 ^ 64" by simp
  show ?thesis using task_first_settlement_is_final [OF i c refl] by simp
qed

text \<open>A server-generated task id never resolves to a backend, so a server-originated
  task is never routed; a backend's task id, once
  namespaced, resolves to that backend and its own id, both in a handle, in an embedded task and
  in an event, and nothing else of the message changes.\<close>
theorem task_ids_route:
  assumes "valid_backend_id b" "\<not> ends_with ''_'' b" "t \<noteq> []" "k \<noteq> ''taskId''" "k \<noteq> ''task''" "m \<noteq> ''params''"
  shows "resolve_task (new_task_id n) = None \<and>
    resolve_task (ns_prefix b t) = Some (b, t) \<and>
    get_str ''taskId'' (namespace_task_id v b) = map_option (ns_prefix b) (get_str ''taskId'' v) \<and>
    Option.bind (jget ''task'' (namespace_task_id v b)) (get_str ''taskId'') =
      map_option (ns_prefix b) (Option.bind (jget ''task'' v) (get_str ''taskId'')) \<and>
    Option.bind (jget ''params'' (namespace_event v b)) (get_str ''taskId'') =
      map_option (ns_prefix b) (Option.bind (jget ''params'' v) (get_str ''taskId'')) \<and>
    jget k (namespace_task_id v b) = jget k v \<and> jget m (namespace_event v b) = jget m v"
proof -
  have "resolve_task (new_task_id n) = None"
  proof (rule ccontr)
    assume "\<not> ?thesis"
    then obtain i x where "new_task_id n = ns_prefix i x" by (auto simp: resolve_task_def dest: ns_split_Some)
    then have "CHR ''_'' \<in> set (new_task_id n)" by (simp add: ns_prefix_def DELIMITER_def)
    then have "CHR ''_'' \<in> set (show_nat (unat n))" by (simp add: new_task_id_def)
    then show False using show_nat_digits [of "CHR ''_''"] by (simp add: is_digit_char_def digit_val_def)
  qed
  moreover have "resolve_task (ns_prefix b t) = Some (b, t)"
    using assms(1-3) tool_names.resolve_label [of b t] by (simp add: resolve_task_def name_ok_def)
  moreover have "get_str ''taskId'' (jmodify ''task'' f w) = get_str ''taskId'' w" for f w
    by (simp add: get_str_def json_simps)
  ultimately show ?thesis
    using assms(4-6)
    by (auto simp: namespace_task_id_def namespace_event_def json_simps jget_relabel_other
        split: Option.bind_splits)
qed

text \<open>After any history a URI is in the registry exactly when the latest operation on it
  subscribed it, and the count is the number of such URIs, so a repeated subscription does not
  count twice and one \<open>unsubscribe\<close> undoes any number of them.\<close>
theorem subscriptions_latest_wins:
  "subscribed u (foldl sub_step [] ops) = latest u False ops \<and>
   subscription_count (foldl sub_step [] ops) = card {v. latest v False ops}"
proof -
  have l: "subscribed v (foldl sub_step [] ops) = latest v False ops" for v
    by (simp add: sub_run_latest) (simp add: subscribed_def)
  have "{v. latest v False ops} = set (smap_keys (foldl sub_step [] ops))"
    unfolding l [symmetric] subscribed_def smap_get_None by simp
  moreover have "distinct (smap_keys (foldl sub_step [] ops))"
    by (intro smap_wf_distinct sub_run_wf) simp
  ultimately have "card {v. latest v False ops} = length (foldl sub_step [] ops)"
    using distinct_card by fastforce
  then show ?thesis using l by (simp add: subscription_count_def)
qed

theorem task_ids_route_witness:
  "resolve_task (new_task_id 7) = None \<and> resolve_task (ns_prefix ''a'' ''t'') = Some (''a'', ''t'')"
proof -
  have b: "valid_backend_id ''a''" "\<not> ends_with ''_'' ''a''" by code_simp+
  show ?thesis using task_ids_route [OF b, of "''t''" "''x''" "''x''"] by simp
qed

end
