(* ===== verification/Encoding.thy ===== *)
theory Encoding
  imports Prelude
begin

unbundle bit_operations_syntax

text \<open>
  \<open>src/src/base64.rs\<close> and the lowercase-hex writer and reader of \<open>content.rs\<close>,
  \<open>variants.rs\<close> and \<open>signing.rs\<close>. A byte is an 8-bit word; the encoder's and decoder's
  accumulators are the \<open>u32\<close>s of the code.
\<close>

type_synonym byte = "8 word"
type_synonym u32 = "32 word"

definition byte_of :: "char \<Rightarrow> byte" where
  "byte_of c = of_nat (of_char c)"

definition char_of_byte :: "byte \<Rightarrow> char" where
  "char_of_byte b = char_of (unat b)"

text \<open>\<open>str::as_bytes\<close> and its inverse.\<close>

definition bytes_of :: "str \<Rightarrow> byte list" where
  "bytes_of s = map byte_of s"

definition str_of_bytes :: "byte list \<Rightarrow> str" where
  "str_of_bytes bs = map char_of_byte bs"

lemma char_of_byte_of [simp]: "char_of_byte (byte_of c) = c"
  by (simp add: byte_of_def char_of_byte_def unat_of_nat)

lemma str_of_bytes_of [simp]: "str_of_bytes (bytes_of s) = s"
  by (induction s) (simp_all add: str_of_bytes_def bytes_of_def)

section \<open>Base64\<close>

definition STANDARD :: str where
  "STANDARD = ''ABCDEFGHIJKLMNOPQRSTUVWXYZabcdefghijklmnopqrstuvwxyz0123456789+/''"

definition URL :: str where
  "URL = ''ABCDEFGHIJKLMNOPQRSTUVWXYZabcdefghijklmnopqrstuvwxyz0123456789-_''"

text \<open>\<open>data.chunks(3)\<close>\<close>

fun chunks3 :: "'a list \<Rightarrow> 'a list list" where
  "chunks3 (a # b # c # rest) = [a, b, c] # chunks3 rest"
| "chunks3 [] = []"
| "chunks3 rest = [rest]"

definition chunk_word :: "byte list \<Rightarrow> u32" where
  "chunk_word chunk =
     (let b0 = ucast (chunk ! 0);
          b1 = (if 1 < length chunk then ucast (chunk ! 1) else 0);
          b2 = (if 2 < length chunk then ucast (chunk ! 2) else 0)
      in push_bit 16 b0 OR push_bit 8 b1 OR b2)"

definition encode_chunk :: "str \<Rightarrow> bool \<Rightarrow> byte list \<Rightarrow> str" where
  "encode_chunk alphabet pad chunk =
     (let n = chunk_word chunk
      in [alphabet ! unat (drop_bit 18 n AND 63), alphabet ! unat (drop_bit 12 n AND 63)] @
         (if 1 < length chunk then [alphabet ! unat (drop_bit 6 n AND 63)]
          else if pad then ''='' else []) @
         (if 2 < length chunk then [alphabet ! unat (n AND 63)]
          else if pad then ''='' else []))"

definition encode_with :: "str \<Rightarrow> byte list \<Rightarrow> bool \<Rightarrow> str" where
  "encode_with alphabet data pad = concat (map (encode_chunk alphabet pad) (chunks3 data))"

definition base64_encode :: "byte list \<Rightarrow> str" where
  "base64_encode data = encode_with STANDARD data True"

definition encode_url_nopad :: "byte list \<Rightarrow> str" where
  "encode_url_nopad data = encode_with URL data False"

definition sextet :: "char \<Rightarrow> u32 option" where
  "sextet ch =
     (let c = of_char ch :: nat
      in if 65 \<le> c \<and> c \<le> 90 then Some (of_nat (c - 65))
         else if 97 \<le> c \<and> c \<le> 122 then Some (of_nat (c - 97 + 26))
         else if 48 \<le> c \<and> c \<le> 57 then Some (of_nat (c - 48 + 52))
         else if ch = CHR ''+'' \<or> ch = CHR ''-'' then Some 62
         else if ch = CHR ''/'' \<or> ch = CHR ''_'' then Some 63
         else None)"

text \<open>The bytes a chunk of sextets carries; \<open>as u8\<close> truncates.\<close>

definition byte0 :: "u32 \<Rightarrow> u32 \<Rightarrow> byte" where
  "byte0 s0 s1 = ucast (push_bit 2 s0 OR drop_bit 4 s1)"

definition byte1 :: "u32 \<Rightarrow> u32 \<Rightarrow> byte" where
  "byte1 s1 s2 = ucast (push_bit 4 s1 OR drop_bit 2 s2)"

definition byte2 :: "u32 \<Rightarrow> u32 \<Rightarrow> byte" where
  "byte2 s2 s3 = ucast (push_bit 6 s2 OR s3)"

fun decode_tail :: "u32 list \<Rightarrow> byte list \<Rightarrow> byte list option" where
  "decode_tail [] out = Some out"
| "decode_tail [s0] out = None"
| "decode_tail [s0, s1] out = Some (out @ [byte0 s0 s1])"
| "decode_tail (s0 # s1 # s2 # rest) out = Some (out @ [byte0 s0 s1, byte1 s1 s2])"

fun decode_loop :: "str \<Rightarrow> u32 list \<Rightarrow> byte list \<Rightarrow> byte list option" where
  "decode_loop [] chunk out = decode_tail chunk out"
| "decode_loop (c # cs) chunk out =
     (if c = CHR ''='' then decode_loop cs chunk out
      else case sextet c of
        None \<Rightarrow> None
      | Some s \<Rightarrow>
          (let chunk = chunk @ [s]
           in if length chunk = 4
              then decode_loop cs []
                     (out @ [byte0 (chunk ! 0) (chunk ! 1), byte1 (chunk ! 1) (chunk ! 2),
                             byte2 (chunk ! 2) (chunk ! 3)])
              else decode_loop cs chunk out))"

definition base64_decode :: "str \<Rightarrow> byte list option" where
  "base64_decode text = decode_loop text [] []"

subsection \<open>Round trips\<close>

text \<open>Both alphabets list the sextets in order, and never contain the padding character.\<close>

definition alphabet_ok :: "str \<Rightarrow> bool" where
  "alphabet_ok al \<longleftrightarrow> map sextet al = map (\<lambda>i. Some (of_nat i)) [0..<64] \<and> CHR ''='' \<notin> set al"

lemma alphabets_ok: "alphabet_ok STANDARD" "alphabet_ok URL"
  by (simp_all add: alphabet_ok_def STANDARD_def URL_def sextet_def upt_rec)

lemma unat_sextet: "unat (w AND 63 :: u32) < 64"
proof -
  have "w AND 63 \<le> 63" by (rule word_and_le1)
  then show ?thesis by (simp add: word_le_nat_alt)
qed

lemma alphabet_sextet:
  assumes "alphabet_ok al"
  shows "sextet (al ! unat (w AND 63 :: u32)) = Some (w AND 63)"
    and "al ! unat (w AND 63 :: u32) \<noteq> CHR ''=''"
proof -
  let ?i = "unat (w AND 63)"
  have eq: "map sextet al = map (\<lambda>i. Some (of_nat i)) [0..<64]"
    using assms by (simp add: alphabet_ok_def)
  then have len: "length al = 64" by (metis length_map length_upt diff_zero)
  have "map sextet al ! ?i = Some (of_nat ?i)"
    unfolding eq using unat_sextet [of w] by simp
  then show "sextet (al ! ?i) = Some (w AND 63)" using len unat_sextet [of w] by simp
  show "al ! ?i \<noteq> CHR ''=''"
    using assms len unat_sextet [of w] by (metis alphabet_ok_def nth_mem)
qed

lemma mask63: "(63 :: u32) = mask 6"
  by (simp add: mask_eq_exp_minus_1)

text \<open>Two bytes are equal when their eight bits are.\<close>

lemma byte_eqI:
  fixes a b :: byte
  assumes "bit a 0 = bit b 0" "bit a 1 = bit b 1" "bit a 2 = bit b 2" "bit a 3 = bit b 3"
    "bit a 4 = bit b 4" "bit a 5 = bit b 5" "bit a 6 = bit b 6" "bit a 7 = bit b 7"
  shows "a = b"
proof (rule bit_word_eqI)
  fix n assume "n < LENGTH(8)"
  then have "n = 0 \<or> n = 1 \<or> n = 2 \<or> n = 3 \<or> n = 4 \<or> n = 5 \<or> n = 6 \<or> n = 7" by auto
  then show "bit a n = bit b n" using assms by auto
qed

lemma byte_high: "8 \<le> k \<Longrightarrow> \<not> bit (b :: byte) k"
  using bit_imp_le_length [of b k] by auto

lemmas word_bits = bit_simps possible_bit_word byte_high

lemma chunk_bytes:
  fixes a b c :: byte
  defines "n \<equiv> push_bit 16 (ucast a) OR push_bit 8 (ucast b) OR (ucast c :: u32)"
  shows "byte0 (drop_bit 18 n AND 63) (drop_bit 12 n AND 63) = a"
    and "byte1 (drop_bit 12 n AND 63) (drop_bit 6 n AND 63) = b"
    and "byte2 (drop_bit 6 n AND 63) (n AND 63) = c"
  unfolding n_def byte0_def byte1_def byte2_def mask63
  by - (rule byte_eqI; simp add: word_bits)+

lemma decode_full:
  assumes al: "alphabet_ok al"
  shows "decode_loop (encode_chunk al pad [a, b, c] @ rest) [] out =
    decode_loop rest [] (out @ [a, b, c])"
  using chunk_bytes [of a b c] alphabet_sextet [OF al]
  by (simp add: encode_chunk_def chunk_word_def Let_def)

lemma decode_two:
  assumes al: "alphabet_ok al"
  shows "decode_loop (encode_chunk al pad [a, b]) [] out = Some (out @ [a, b])"
  using chunk_bytes [of a b 0] alphabet_sextet [OF al]
  by (simp add: encode_chunk_def chunk_word_def Let_def)

lemma decode_one:
  assumes al: "alphabet_ok al"
  shows "decode_loop (encode_chunk al pad [a]) [] out = Some (out @ [a])"
  using chunk_bytes [of a 0 0] alphabet_sextet [OF al]
  by (simp add: encode_chunk_def chunk_word_def Let_def)

lemma decode_encode_loop:
  assumes al: "alphabet_ok al"
  shows "decode_loop (encode_with al data pad) [] out = Some (out @ data)"
proof (induction data arbitrary: out rule: chunks3.induct)
  case (1 a b c rest)
  then show ?case by (simp add: encode_with_def decode_full [OF al])
qed (simp_all add: encode_with_def decode_one [OF al] decode_two [OF al])

text \<open>What the decoder rejects: a character outside both alphabets, or a lone last sextet.\<close>

definition payload :: "str \<Rightarrow> str" where
  "payload text = filter (\<lambda>c. c \<noteq> CHR ''='') text"

lemma decode_tail_None: "length chunk < 4 \<Longrightarrow> decode_tail chunk out = None \<longleftrightarrow> length chunk mod 4 = 1"
  by (induction chunk out rule: decode_tail.induct) auto

lemma decode_loop_None:
  "length chunk < 4 \<Longrightarrow>
     decode_loop text chunk out = None \<longleftrightarrow>
       (\<exists>c \<in> set (payload text). sextet c = None) \<or> (length chunk + length (payload text)) mod 4 = 1"
proof (induction "text" chunk out rule: decode_loop.induct)
  case (1 chunk out)
  then show ?case by (simp add: decode_tail_None payload_def)
next
  case (2 c cs chunk out)
  show ?case
  proof (cases "c = CHR ''='' \<or> sextet c = None")
    case True
    then show ?thesis using 2 by (auto simp: payload_def)
  next
    case False
    then obtain s where s: "c \<noteq> CHR ''=''" "sextet c = Some s" by blast
    show ?thesis
    proof (cases "length chunk = 3")
      case True
      have "(4 + length (payload cs)) mod 4 = length (payload cs) mod 4" by simp
      then show ?thesis using 2 s True by (simp add: Let_def payload_def)
    next
      case False
      then show ?thesis using 2 s by (auto simp: Let_def payload_def)
    qed
  qed
qed

lemma decode_loop_payload: "decode_loop (payload text) chunk out = decode_loop text chunk out"
  by (induction "text" chunk out rule: decode_loop.induct)
    (auto simp: payload_def Let_def split: option.splits)

section \<open>Hex\<close>

definition hex_digit :: "nat \<Rightarrow> char" where
  "hex_digit n = (if n < 10 then char_of (48 + n) else char_of (87 + n))"

text \<open>\<open>format!("{n:x}")\<close>.\<close>

fun show_hex :: "nat \<Rightarrow> str" where
  "show_hex n = (if n < 16 then [hex_digit n] else show_hex (n div 16) @ [hex_digit (n mod 16)])"

declare show_hex.simps [simp del]

text \<open>\<open>format!("{byte:02x}")\<close> for every byte, and \<open>char::to_digit(16)\<close>.\<close>

definition hex :: "byte list \<Rightarrow> str" where
  "hex bs = concat (map (\<lambda>b. [hex_digit (unat b div 16), hex_digit (unat b mod 16)]) bs)"

definition to_digit16 :: "char \<Rightarrow> nat option" where
  "to_digit16 c =
     (let n = of_char c :: nat
      in if 48 \<le> n \<and> n \<le> 57 then Some (n - 48)
         else if 97 \<le> n \<and> n \<le> 102 then Some (n - 87)
         else if 65 \<le> n \<and> n \<le> 70 then Some (n - 55)
         else None)"

text \<open>\<open>usize::from_str_radix(_, 16)\<close>: an optional \<open>+\<close>, at least one digit of either case, no overflow.\<close>

fun read_hex_digits :: "nat \<Rightarrow> str \<Rightarrow> nat option" where
  "read_hex_digits acc [] = Some acc"
| "read_hex_digits acc (c # cs) =
     (case to_digit16 c of Some d \<Rightarrow> read_hex_digits (16 * acc + d) cs | None \<Rightarrow> None)"

definition parse_hex :: "str \<Rightarrow> nat option" where
  "parse_hex s =
     (let ds = (case s of CHR ''+'' # r \<Rightarrow> r | _ \<Rightarrow> s)
      in if ds = [] then None
         else case read_hex_digits 0 ds of
                Some n \<Rightarrow> if n < 2 ^ 64 then Some n else None
              | None \<Rightarrow> None)"

text \<open>The loop of \<open>resolve_cursor\<close> over a text of even length.\<close>

fun unhex_loop :: "str \<Rightarrow> byte list option" where
  "unhex_loop (h # l # rest) =
     (case to_digit16 h of
        None \<Rightarrow> None
      | Some hi \<Rightarrow>
          (case to_digit16 l of
             None \<Rightarrow> None
           | Some lo \<Rightarrow> map_option ((#) (of_nat (hi * 16 + lo))) (unhex_loop rest)))"
| "unhex_loop s = Some []"

definition unhex :: "str \<Rightarrow> byte list option" where
  "unhex s = (if length s mod 2 \<noteq> 0 then None else unhex_loop s)"

lemma to_digit16_hex_digit [simp]: "n < 16 \<Longrightarrow> to_digit16 (hex_digit n) = Some n"
  by (auto simp: to_digit16_def hex_digit_def Let_def of_char_of take_bit_nat_eq_self)

lemma read_hex_digits_append:
  "read_hex_digits acc (s @ t) = Option.bind (read_hex_digits acc s) (\<lambda>n. read_hex_digits n t)"
  by (induction acc s rule: read_hex_digits.induct) (auto split: option.splits)

lemma read_show_hex: "read_hex_digits 0 (show_hex n) = Some n"
proof (induction n rule: show_hex.induct)
  case (1 n)
  then show ?case by (cases "n < 16") (simp_all add: show_hex.simps [of n] read_hex_digits_append)
qed

lemma unhex_hex [simp]: "unhex (hex bs) = Some bs"
proof -
  have "unhex_loop (hex bs) = Some bs"
  proof (induction bs)
    case (Cons b bs)
    have "unat b < 256" using unsigned_less [of b] by simp
    then have "unat b div 16 < 16" by simp
    then show ?case using Cons by (simp add: hex_def)
  qed (simp add: hex_def)
  moreover have "even (length (hex bs))" by (induction bs) (simp_all add: hex_def)
  ultimately show ?thesis by (simp add: unhex_def even_iff_mod_2_eq_zero [symmetric])
qed

section \<open>Properties\<close>

text \<open>Decoding returns the encoded bytes, for the standard alphabet with padding and for
  the URL alphabet without, at every length.\<close>
theorem base64_roundtrip:
  "base64_decode (base64_encode data) = Some data \<and> base64_decode (encode_url_nopad data) = Some data"
  by (simp add: base64_decode_def base64_encode_def encode_url_nopad_def decode_encode_loop alphabets_ok)

text \<open>The decoder rejects a text exactly when, the \<open>=\<close> characters removed wherever they
  stand, some character is outside both alphabets or the length is 1 modulo 4; and padding
  anywhere in a text is ignored.\<close>
theorem base64_decode_rejects:
  "(base64_decode text = None \<longleftrightarrow>
      list_ex (\<lambda>c. sextet c = None) (payload text) \<or> length (payload text) mod 4 = 1) \<and>
   base64_decode (payload text) = base64_decode text"
  using decode_loop_None [of "[]" "text" "[]"]
  by (simp add: base64_decode_def list_ex_iff decode_loop_payload)

end
