(* ===== verification/Capability.thy ===== *)
theory Capability
  imports Json Encoding
begin

text \<open>
  \<open>src/src/capability.rs\<close> (capability composition, progressive disclosure) and
  \<open>src/src/variants.rs\<close> (variant composition, variant-bound cursors). A \<open>HashSet\<close> or
  \<open>BTreeSet\<close> that is only asked for membership is a HOL set. \<open>lower\<close> is Unicode
  lowercasing (\<open>str::to_lowercase\<close>, a table of the Unicode standard), \<open>enc\<close> and
  \<open>dec\<close> are \<open>serde_json::to_vec\<close> and \<open>from_slice\<close>.
\<close>

section \<open>Progressive disclosure\<close>

definition DEFAULT_TOOL_THRESHOLD :: nat where "DEFAULT_TOOL_THRESHOLD = 40"
definition PROXY_SEARCH_TOOL :: str where "PROXY_SEARCH_TOOL = ''proxy__search_tools''"

definition search_tool_definition :: json where
  "search_tool_definition =
     jobj [(''name'', JStr PROXY_SEARCH_TOOL),
           (''description'', JStr ''Search for additional tools available through this proxy''),
           (''inputSchema'', jobj [
              (''type'', JStr ''object''),
              (''properties'', jobj [
                 (''query'', jobj [(''type'', JStr ''string''),
                                   (''description'', JStr ''Keyword to search tool names and descriptions'')])]),
              (''required'', JArr [JStr ''query''])])]"

definition tool_name :: "json \<Rightarrow> str" where
  "tool_name tool = unwrap_or (get_str ''name'' tool) []"

definition search_tools :: "(str \<Rightarrow> str) \<Rightarrow> str \<Rightarrow> json list \<Rightarrow> json list" where
  "search_tools lower query tools =
     (let needle = lower query
      in filter (\<lambda>tool. contains_str needle (lower (tool_name tool)) \<or>
                        contains_str needle (lower (unwrap_or (get_str ''description'' tool) []))) tools)"

definition disclose :: "json list \<Rightarrow> nat \<Rightarrow> json list \<times> bool" where
  "disclose tools threshold =
     (if threshold < length tools
      then (take threshold tools @ [search_tool_definition], True)
      else (tools, False))"

section \<open>Tool composition\<close>

datatype compose_error = UnknownMode str

text \<open>\<open>common\<close> after the loop over the backends.\<close>

fun common_names :: "str set option \<Rightarrow> json list list \<Rightarrow> str set option" where
  "common_names acc [] = acc"
| "common_names acc (b # bs) =
     (let names = tool_name ` set b
      in common_names (Some (case acc of None \<Rightarrow> names | Some e \<Rightarrow> e \<inter> names)) bs)"

text \<open>The two nested loops that collect the tools, over the backends in order.\<close>

fun collect_common :: "str set \<Rightarrow> str set \<Rightarrow> json list \<Rightarrow> json list" where
  "collect_common common seen [] = []"
| "collect_common common seen (t # ts) =
     (if tool_name t \<in> common \<and> tool_name t \<notin> seen
      then t # collect_common common (insert (tool_name t) seen) ts
      else collect_common common seen ts)"

definition compose_intersection :: "json list list \<Rightarrow> json list" where
  "compose_intersection per_backend =
     (if per_backend = [] then []
      else collect_common (unwrap_or (common_names None per_backend) {}) {} (concat per_backend))"

definition compose_tools ::
  "json list list \<Rightarrow> str \<Rightarrow> str list option \<Rightarrow> compose_error + json list" where
  "compose_tools per_backend mode curated =
     (if mode = ''union'' then Inr (concat per_backend)
      else if mode = ''intersection'' then Inr (compose_intersection per_backend)
      else if mode = ''curated'' then
        (let allowed = set (unwrap_or curated [])
         in Inr (filter (\<lambda>t. tool_name t \<in> allowed) (concat per_backend)))
      else Inl (UnknownMode mode))"

lemma common_names_Some:
  "common_names (Some s) bs = Some {n \<in> s. \<forall>b \<in> set bs. n \<in> tool_name ` set b}"
  by (induction bs arbitrary: s) (auto simp: Let_def)

lemma common_names_all:
  "bs \<noteq> [] \<Longrightarrow> common_names None bs = Some {n. \<forall>b \<in> set bs. n \<in> tool_name ` set b}"
  by (cases bs) (auto simp: Let_def common_names_Some)

lemma collect_common_names:
  "set seen' = seen \<Longrightarrow>
     map tool_name (collect_common common seen ts) =
       firsts seen' (filter (\<lambda>n. n \<in> common) (map tool_name ts))"
  by (induction ts arbitrary: seen seen') auto

lemma collect_common_subset: "set (collect_common common seen ts) \<subseteq> set ts"
  by (induction ts arbitrary: seen) auto

section \<open>Server capabilities\<close>

definition merge_primitive :: "str \<Rightarrow> json list \<Rightarrow> (str, json) smap option" where
  "merge_primitive prim caps =
     foldl (\<lambda>acc c. case jget prim c of
              None \<Rightarrow> acc
            | Some value \<Rightarrow> Some (smap_puts (unwrap_or acc []) (unwrap_or (as_object value) [])))
       None caps"

definition union_extensions :: "json list \<Rightarrow> (str, json) smap" where
  "union_extensions caps =
     foldl (\<lambda>acc c. foldl (\<lambda>a (name, value). if smap_get name a = None then smap_put name value a else a)
                     acc (unwrap_or (Option.bind (jget ''extensions'' c) as_object) []))
       [] caps"

definition PRIMITIVES :: "str list" where
  "PRIMITIVES = [''tools'', ''resources'', ''prompts'', ''logging'', ''sampling'']"

definition compose_capabilities :: "json list \<Rightarrow> json option \<Rightarrow> json" where
  "compose_capabilities backend_caps client_caps =
     (let composed = foldl (\<lambda>m p. case merge_primitive p backend_caps of
                        Some merged \<Rightarrow> smap_put p (JObj merged) m | None \<Rightarrow> m) [] PRIMITIVES;
          composed = (case Option.bind client_caps (jget ''elicitation'') of
                        Some elicitation \<Rightarrow> smap_put ''elicitation'' elicitation composed
                      | None \<Rightarrow> composed);
          extensions = union_extensions backend_caps
      in JObj (if extensions \<noteq> [] then smap_put ''extensions'' (JObj extensions) composed else composed))"

lemma merge_primitive_snoc:
  "merge_primitive prim (caps @ [c]) =
     (case jget prim c of
        None \<Rightarrow> merge_primitive prim caps
      | Some value \<Rightarrow>
          Some (smap_puts (unwrap_or (merge_primitive prim caps) []) (unwrap_or (as_object value) [])))"
  by (simp add: merge_primitive_def split: option.splits)

lemma merge_primitive_None: "merge_primitive prim caps = None \<longleftrightarrow> (\<forall>c \<in> set caps. jget prim c = None)"
  by (induction caps rule: rev_induct)
    (auto simp: merge_primitive_snoc split: option.splits, simp add: merge_primitive_def)

text \<open>The last backend that states a sub-flag decides it.\<close>

lemma merge_primitive_get:
  assumes "list_all wf_json caps"
  shows "smap_get k (unwrap_or (merge_primitive prim caps) []) =
    first_some (map (\<lambda>c. Option.bind (jget prim c) (jget k)) (rev caps))"
  using assms
proof (induction caps rule: rev_induct)
  case Nil
  then show ?case by (simp add: merge_primitive_def)
next
  case (snoc c caps)
  show ?case
  proof (cases "jget prim c")
    case None
    then show ?thesis using snoc by (simp add: merge_primitive_snoc)
  next
    case (Some v)
    have "wf_json v" using snoc.prems wf_json_get [OF _ Some] by simp
    then have "smap_wf (unwrap_or (as_object v) [])" by (cases v) auto
    then show ?thesis
      using snoc Some by (simp add: merge_primitive_snoc smap_get_puts_wf get_as_object split: option.splits)
  qed
qed

lemma union_step_get:
  "smap_get k (foldl (\<lambda>a (name, value). if smap_get name a = None then smap_put name value a else a) acc kvs) =
     (case smap_get k acc of Some v \<Rightarrow> Some v | None \<Rightarrow> smap_get k kvs)"
  by (induction kvs arbitrary: acc) (auto simp: store_simps split: option.splits if_splits)

lemma union_extensions_get:
  "smap_get k (union_extensions caps) =
     first_some (map (\<lambda>c. Option.bind (jget ''extensions'' c) (jget k)) caps)"
proof (induction caps rule: rev_induct)
  case Nil
  then show ?case by (simp add: union_extensions_def)
next
  case (snoc c caps)
  have "smap_get k (unwrap_or (Option.bind (jget ''extensions'' c) as_object) []) =
      Option.bind (jget ''extensions'' c) (jget k)"
    by (cases "jget ''extensions'' c") (simp_all add: get_as_object)
  then show ?case
    using snoc unfolding union_extensions_def
    by (simp add: union_step_get first_some_append split: option.splits)
qed

section \<open>Server variants (\<open>variants.rs\<close>)\<close>

definition EXTENSION_ID :: str where "EXTENSION_ID = ''io.modelcontextprotocol/server-variants''"
definition SERVER_VARIANT_META_KEY :: str where
  "SERVER_VARIANT_META_KEY = ''io.modelcontextprotocol/server-variant''"
definition CURSOR_PREFIX :: str where "CURSOR_PREFIX = ''yv1:''"

definition selected_variant :: "json \<Rightarrow> str option" where
  "selected_variant params =
     Option.bind (Option.bind (jget ''_meta'' params) (jget SERVER_VARIANT_META_KEY)) as_str"

definition variant_payload :: "json \<Rightarrow> json list option" where
  "variant_payload capabilities =
     do { ext \<leftarrow> jget ''extensions'' capabilities;
          e \<leftarrow> jget EXTENSION_ID ext;
          a \<leftarrow> jget ''availableVariants'' e;
          as_array a }"

definition variant_ids :: "json list \<Rightarrow> str list" where
  "variant_ids variants = List.map_filter (get_str ''id'') variants"

definition available_variants :: "json \<Rightarrow> str list" where
  "available_variants capabilities =
     (case variant_payload capabilities of Some variants \<Rightarrow> variant_ids variants | None \<Rightarrow> [])"

definition supporting :: "json list \<Rightarrow> json list list" where
  "supporting backend_caps = filter (\<lambda>v. v \<noteq> []) (List.map_filter variant_payload backend_caps)"

definition compose_variants :: "json list \<Rightarrow> json list" where
  "compose_variants backend_caps =
     (case map (set \<circ> variant_ids) (supporting backend_caps) of
        [] \<Rightarrow> []
      | s0 # rest \<Rightarrow>
          (let common = foldl (\<inter>) s0 rest
           in filter (\<lambda>v. case get_str ''id'' v of Some i \<Rightarrow> i \<in> common | None \<Rightarrow> False)
                (hd (supporting backend_caps))))"

type_synonym cursors = "(str, str) smap"

definition cursor_body :: "str option \<Rightarrow> cursors \<Rightarrow> json" where
  "cursor_body variant cs =
     jobj [(''v'', jopt_str variant), (''c'', JObj (map (\<lambda>(k, s). (k, JStr s)) cs))]"

definition bind_cursor :: "(json \<Rightarrow> byte list) \<Rightarrow> str option \<Rightarrow> cursors \<Rightarrow> str" where
  "bind_cursor enc variant cs = CURSOR_PREFIX @ hex (enc (cursor_body variant cs))"

definition string_entries :: "(str, json) smap \<Rightarrow> cursors" where
  "string_entries m = List.map_filter (\<lambda>(k, v). map_option (Pair k) (as_str v)) m"

definition resolve_cursor ::
  "(byte list \<Rightarrow> json option) \<Rightarrow> json \<Rightarrow> (str option \<times> cursors) option" where
  "resolve_cursor dec cursor =
     do { t \<leftarrow> as_str cursor;
          h \<leftarrow> strip_prefix CURSOR_PREFIX t;
          bytes \<leftarrow> unhex h;
          payload \<leftarrow> dec bytes;
          c \<leftarrow> jget ''c'' payload;
          obj \<leftarrow> as_object c;
          Some (get_str ''v'' payload, string_entries obj) }"

definition mismatch_data :: "str option \<Rightarrow> str option \<Rightarrow> json" where
  "mismatch_data cursor_variant requested_variant =
     jobj [(''cursorVariant'', jopt_str cursor_variant), (''requestedVariant'', jopt_str requested_variant)]"

lemma string_entries_strings [simp]: "string_entries (map (\<lambda>(k, s). (k, JStr s)) cs) = cs"
  by (induction cs) (auto simp: string_entries_def List.map_filter_simps)

lemma foldl_inter: "foldl (\<inter>) s xs = s \<inter> \<Inter> (set xs)"
  by (induction xs arbitrary: s) auto

section \<open>Properties\<close>

text \<open>The composed capabilities: a primitive is advertised exactly when some backend
  advertises it, each of its sub-flags has the value of the last backend that states it,
  elicitation is the client's, and an extension is the first backend's that has it.\<close>
theorem compose_capabilities_per_key:
  assumes "prim \<in> set PRIMITIVES" "list_all wf_json caps"
  shows "(jget prim (compose_capabilities caps client) = None \<longleftrightarrow> list_all (\<lambda>c. jget prim c = None) caps) \<and>
    Option.bind (jget prim (compose_capabilities caps client)) (jget k) =
      first_some (map (\<lambda>c. Option.bind (jget prim c) (jget k)) (rev caps)) \<and>
    jget ''elicitation'' (compose_capabilities caps client) = Option.bind client (jget ''elicitation'') \<and>
    Option.bind (jget ''extensions'' (compose_capabilities caps client)) (jget k) =
      first_some (map (\<lambda>c. Option.bind (jget ''extensions'' c) (jget k)) caps)"
proof -
  let ?base = "foldl (\<lambda>m p. case merge_primitive p caps of
      Some merged \<Rightarrow> smap_put p (JObj merged) m | None \<Rightarrow> m) [] PRIMITIVES"
  have base: "smap_get p ?base = (if p \<in> set PRIMITIVES then map_option JObj (merge_primitive p caps) else None)" for p
    by (auto simp: PRIMITIVES_def store_simps split: option.splits)
  note prim = assms(1)
  then have ne: "prim \<noteq> ''elicitation''" "prim \<noteq> ''extensions''" by (auto simp: PRIMITIVES_def)
  have out: "jget q (compose_capabilities caps client) =
      (if q = ''extensions'' \<and> union_extensions caps \<noteq> [] then Some (JObj (union_extensions caps))
       else if q = ''elicitation'' \<and> Option.bind client (jget q) \<noteq> None then Option.bind client (jget q)
       else smap_get q ?base)" for q
    by (auto simp: compose_capabilities_def Let_def store_simps split: option.splits)
  have p: "jget prim (compose_capabilities caps client) = map_option JObj (merge_primitive prim caps)"
    using out [of prim] ne prim base [of prim] by simp
  have "Option.bind (jget prim (compose_capabilities caps client)) (jget k) =
      smap_get k (unwrap_or (merge_primitive prim caps) [])"
    unfolding p by (cases "merge_primitive prim caps") auto
  moreover have "jget ''elicitation'' (compose_capabilities caps client) = Option.bind client (jget ''elicitation'')"
    using out [of "''elicitation''"] base [of "''elicitation''"] by (auto simp: PRIMITIVES_def)
  moreover have "Option.bind (jget ''extensions'' (compose_capabilities caps client)) (jget k) =
      smap_get k (union_extensions caps)"
    using out [of "''extensions''"] base [of "''extensions''"] by (auto simp: PRIMITIVES_def)
  ultimately show ?thesis
    using p by (simp add: merge_primitive_get [OF assms(2)] union_extensions_get merge_primitive_None list_all_iff)
qed

text \<open>The intersection mode keeps, for every tool name all backends list, one tool of
  that name and no other, in order of first appearance.\<close>
theorem compose_intersection_names:
  "map tool_name (compose_intersection per_backend) =
     firsts [] (filter (\<lambda>n. list_all (\<lambda>b. n \<in> set (map tool_name b)) per_backend)
                  (map tool_name (concat per_backend)))"
proof (cases "per_backend = []")
  case False
  then show ?thesis
    by (simp add: compose_intersection_def common_names_all list_all_iff
        collect_common_names [of "[]", simplified])
qed (simp add: compose_intersection_def)

text \<open>Progressive disclosure hides nothing: the advertised surface has at most the
  threshold and one search tool, and every tool is advertised or found by searching for its own
  name, whatever lowercasing does.\<close>
theorem disclosure_hides_nothing:
  assumes "tool \<in> set tools"
  shows "length (fst (disclose tools threshold)) \<le> Suc threshold \<and>
    (tool \<in> set (fst (disclose tools threshold)) \<or>
     search_tool_definition \<in> set (fst (disclose tools threshold))) \<and>
    tool \<in> set (search_tools lower (tool_name tool) tools)"
proof -
  have "contains_str s s" for s :: str by (metis append.right_neutral append_Nil contains_str_iff)
  then show ?thesis
    using assms by (auto simp: disclose_def search_tools_def Let_def)
qed

theorem disclosure_hides_nothing_witness:
  "jobj [(''name'', JStr ''Read'')] \<in> set (search_tools ascii_lower ''Read'' [jobj [(''name'', JStr ''Read'')]])"
proof -
  have m: "jobj [(''name'', JStr ''Read'')] \<in> set [jobj [(''name'', JStr ''Read'')]]" by simp
  have "tool_name (jobj [(''name'', JStr ''Read'')]) = ''Read''" by code_simp
  then show ?thesis using disclosure_hides_nothing [OF m, where lower = ascii_lower] by simp
qed

text \<open>A variant the proxy offers is one that every backend with variants offers; the
  offer is the first such backend's list, in its order, without the entries some other backend
  lacks.\<close>
theorem compose_variants_selectable:
  assumes "supporting caps = first # others"
  shows "compose_variants caps =
      filter (\<lambda>v. case get_str ''id'' v of
                   Some i \<Rightarrow> list_all (\<lambda>vs. i \<in> set (variant_ids vs)) others
                 | None \<Rightarrow> False) first"
proof -
  have "(case get_str ''id'' v of Some i \<Rightarrow> i \<in> foldl (\<inter>) (set (variant_ids first)) (map (set \<circ> variant_ids) others)
        | None \<Rightarrow> False) =
      (case get_str ''id'' v of Some i \<Rightarrow> list_all (\<lambda>vs. i \<in> set (variant_ids vs)) others | None \<Rightarrow> False)"
    if "v \<in> set first" for v
    using that unfolding foldl_inter
    by (auto simp: list_all_iff variant_ids_def List.map_filter_def image_iff split: option.splits)
  then show ?thesis using assms by (simp add: compose_variants_def Let_def cong: filter_cong)
qed

text \<open>A cursor the proxy mints resolves to the variant and the backend cursors it binds;
  a value without the cursor prefix resolves to nothing.\<close>
theorem cursor_roundtrip:
  assumes "dec (enc (cursor_body variant cs)) = Some (cursor_body variant cs)"
    and "\<not> starts_with CURSOR_PREFIX raw"
  shows "resolve_cursor dec (JStr (bind_cursor enc variant cs)) = Some (variant, cs) \<and>
    resolve_cursor dec (JStr raw) = None"
proof -
  have "get_str ''v'' (cursor_body variant cs) = variant"
    by (cases variant) (simp_all add: cursor_body_def get_str_def json_simps jopt_str_def)
  moreover have "jget ''c'' (cursor_body variant cs) = Some (JObj (map (\<lambda>(k, s). (k, JStr s)) cs))"
    by (simp add: cursor_body_def json_simps)
  ultimately show ?thesis
    using assms by (auto simp: resolve_cursor_def bind_cursor_def starts_with_def)
qed

definition demo_caps :: "json list" where
  "demo_caps =
     [jobj [(''tools'', jobj [(''listChanged'', JBool False)]), (''extensions'', jobj [(''x'', jnat 1)])],
      jobj [(''tools'', jobj [(''listChanged'', JBool True)]), (''extensions'', jobj [(''x'', jnat 2)])]]"

theorem compose_capabilities_per_key_witness:
  "Option.bind (jget ''tools'' (compose_capabilities demo_caps None)) (jget ''listChanged'') = Some (JBool True) \<and>
   Option.bind (jget ''extensions'' (compose_capabilities demo_caps None)) (jget ''x'') = Some (jnat 1)"
proof -
  have h: "''tools'' \<in> set PRIMITIVES" "list_all wf_json demo_caps"
    by (simp_all add: PRIMITIVES_def demo_caps_def wf_json_jobj jnat_def)
  have v: "first_some (map (\<lambda>c. Option.bind (jget ''tools'' c) (jget ''listChanged'')) (rev demo_caps)) = Some (JBool True)"
    "first_some (map (\<lambda>c. Option.bind (jget ''extensions'' c) (jget ''x'')) demo_caps) = Some (jnat 1)"
    by code_simp+
  show ?thesis
    using compose_capabilities_per_key [OF h, of None "''listChanged''"]
      compose_capabilities_per_key [OF h, of None "''x''"] v by simp
qed

definition variant_caps :: "str list \<Rightarrow> json" where
  "variant_caps ids =
     jobj [(''extensions'', jobj [(EXTENSION_ID,
       jobj [(''availableVariants'', JArr (map (\<lambda>i. jobj [(''id'', JStr i)]) ids))])])]"

theorem compose_variants_selectable_witness:
  "compose_variants [variant_caps [''a'', ''b''], jobj [], variant_caps [''b'', ''c'']] = [jobj [(''id'', JStr ''b'')]]"
proof -
  let ?caps = "[variant_caps [''a'', ''b''], jobj [], variant_caps [''b'', ''c'']]"
  have s: "supporting ?caps = [jobj [(''id'', JStr ''a'')], jobj [(''id'', JStr ''b'')]] #
      [[jobj [(''id'', JStr ''b'')], jobj [(''id'', JStr ''c'')]]]" by code_simp
  have f: "filter (\<lambda>v. case get_str ''id'' v of
        Some i \<Rightarrow> list_all (\<lambda>vs. i \<in> set (variant_ids vs))
                    [[jobj [(''id'', JStr ''b'')], jobj [(''id'', JStr ''c'')]]]
      | None \<Rightarrow> False) [jobj [(''id'', JStr ''a'')], jobj [(''id'', JStr ''b'')]] = [jobj [(''id'', JStr ''b'')]]"
    by code_simp
  show ?thesis unfolding compose_variants_selectable [OF s] f ..
qed

theorem cursor_roundtrip_witness:
  "resolve_cursor (\<lambda>_. Some (cursor_body (Some ''compact'') [(''files'', ''p2'')]))
      (JStr (bind_cursor (\<lambda>_. [123, 125]) (Some ''compact'') [(''files'', ''p2'')])) =
     Some (Some ''compact'', [(''files'', ''p2'')]) \<and>
   resolve_cursor (\<lambda>_. Some (cursor_body (Some ''compact'') [(''files'', ''p2'')])) (JStr ''p2'') = None"
proof (rule cursor_roundtrip)
  show "\<not> starts_with CURSOR_PREFIX ''p2''" by code_simp
qed simp

end
