(* ===== verification/Signing.thy ===== *)
theory Signing
  imports Json Encoding
begin

unbundle bit_operations_syntax

text \<open>
  \<open>src/src/signing.rs\<close>: SHA-256 and HMAC-SHA256 over \<open>u32\<close> words, detached signatures,
  and the hash-chained audit log. \<open>canon\<close> is \<open>serde_json::to_vec\<close>, the canonical bytes
  of a record; its injectivity (a value is parsed back from its text) is a hypothesis where it
  is used.
\<close>

section \<open>SHA-256\<close>

definition GENESIS :: str where
  "GENESIS = replicate 64 (CHR ''0'')"

text \<open>The round constants and the initial hash value (\<open>K\<close> and \<open>H0\<close> of FIPS 180-4), in decimal.\<close>

definition SHA256_K :: "u32 list" where
  "SHA256_K = [
    1116352408, 1899447441, 3049323471, 3921009573, 961987163, 1508970993, 2453635748, 2870763221,
    3624381080, 310598401, 607225278, 1426881987, 1925078388, 2162078206, 2614888103, 3248222580,
    3835390401, 4022224774, 264347078, 604807628, 770255983, 1249150122, 1555081692, 1996064986,
    2554220882, 2821834349, 2952996808, 3210313671, 3336571891, 3584528711, 113926993, 338241895,
    666307205, 773529912, 1294757372, 1396182291, 1695183700, 1986661051, 2177026350, 2456956037,
    2730485921, 2820302411, 3259730800, 3345764771, 3516065817, 3600352804, 4094571909, 275423344,
    430227734, 506948616, 659060556, 883997877, 958139571, 1322822218, 1537002063, 1747873779,
    1955562222, 2024104815, 2227730452, 2361852424, 2428436474, 2756734187, 3204031479, 3329325298]"

definition SHA256_H :: "u32 list" where
  "SHA256_H = [1779033703, 3144134277, 1013904242, 2773480762,
               1359893119, 2600822924, 528734635, 1541459225]"

text \<open>\<open>u64::to_be_bytes\<close>, \<open>u32::to_be_bytes\<close>, \<open>u32::from_be_bytes\<close>.\<close>

definition be_bytes64 :: "u64 \<Rightarrow> byte list" where
  "be_bytes64 w = map (\<lambda>i. ucast (drop_bit (56 - 8 * i) w)) [0..<8]"

definition be_bytes32 :: "u32 \<Rightarrow> byte list" where
  "be_bytes32 w = map (\<lambda>i. ucast (drop_bit (24 - 8 * i) w)) [0..<4]"

definition from_be :: "byte \<Rightarrow> byte \<Rightarrow> byte \<Rightarrow> byte \<Rightarrow> u32" where
  "from_be a b c d = push_bit 24 (ucast a) OR push_bit 16 (ucast b) OR push_bit 8 (ucast c) OR ucast d"

text \<open>\<open>while message.len() % 64 != 56 { message.push(0) }\<close>\<close>

function pad56 :: "byte list \<Rightarrow> byte list" where
  "pad56 m = (if length m mod 64 \<noteq> 56 then pad56 (m @ [0]) else m)"
  by pat_completeness auto
termination
proof (relation "measure (\<lambda>m. let a = length m mod 64 in if a \<le> 56 then 56 - a else 120 - a)")
  fix m :: "byte list"
  assume "length m mod 64 \<noteq> 56"
  moreover have "length m mod 64 < 64" by simp
  ultimately show "(m @ [0], m) \<in> measure (\<lambda>m. let a = length m mod 64 in if a \<le> 56 then 56 - a else 120 - a)"
    by (auto simp: mod_Suc Let_def)
qed simp

declare pad56.simps [simp del]

definition sha_pad :: "byte list \<Rightarrow> byte list" where
  "sha_pad data = pad56 (data @ [0x80]) @ be_bytes64 (of_nat (length data) * 8)"

fun chunks_exact64 :: "nat \<Rightarrow> byte list \<Rightarrow> byte list list" where
  "chunks_exact64 0 m = []"
| "chunks_exact64 (Suc n) m = take 64 m # chunks_exact64 n (drop 64 m)"

definition block_words :: "byte list \<Rightarrow> u32 list" where
  "block_words block =
     map (\<lambda>i. from_be (block ! (i * 4)) (block ! (i * 4 + 1)) (block ! (i * 4 + 2)) (block ! (i * 4 + 3)))
       [0..<16]"

definition schedule_step :: "u32 list \<Rightarrow> nat \<Rightarrow> u32 list" where
  "schedule_step w i =
     (let x = w ! (i - 15); y = w ! (i - 2);
          s0 = word_rotr 7 x XOR word_rotr 18 x XOR drop_bit 3 x;
          s1 = word_rotr 17 y XOR word_rotr 19 y XOR drop_bit 10 y
      in w @ [w ! (i - 16) + s0 + w ! (i - 7) + s1])"

definition schedule :: "byte list \<Rightarrow> u32 list" where
  "schedule block = foldl schedule_step (block_words block) [16..<64]"

type_synonym sha_state = "u32 \<times> u32 \<times> u32 \<times> u32 \<times> u32 \<times> u32 \<times> u32 \<times> u32"

fun sha_round :: "sha_state \<Rightarrow> u32 \<times> u32 \<Rightarrow> sha_state" where
  "sha_round (a, b, c, d, e, f, g, hh) (k, w) =
     (let s1 = word_rotr 6 e XOR word_rotr 11 e XOR word_rotr 25 e;
          ch = (e AND f) XOR ((NOT e) AND g);
          t1 = hh + s1 + ch + k + w;
          s0 = word_rotr 2 a XOR word_rotr 13 a XOR word_rotr 22 a;
          maj = (a AND b) XOR (a AND c) XOR (b AND c);
          t2 = s0 + maj
      in (t1 + t2, a, b, c, d + t1, e, f, g))"

fun sha_list :: "sha_state \<Rightarrow> u32 list" where
  "sha_list (a, b, c, d, e, f, g, h) = [a, b, c, d, e, f, g, h]"

definition sha_block :: "u32 list \<Rightarrow> byte list \<Rightarrow> u32 list" where
  "sha_block h block =
     (let s = foldl sha_round (h ! 0, h ! 1, h ! 2, h ! 3, h ! 4, h ! 5, h ! 6, h ! 7)
                (zip SHA256_K (schedule block))
      in map2 (+) h (sha_list s))"

definition sha256 :: "byte list \<Rightarrow> byte list" where
  "sha256 data =
     (let message = sha_pad data
      in concat (map be_bytes32
           (foldl sha_block SHA256_H (chunks_exact64 (length message div 64) message))))"

definition to_hex :: "byte list \<Rightarrow> str" where
  "to_hex bytes = hex bytes"

definition sha256_hex :: "byte list \<Rightarrow> str" where
  "sha256_hex data = to_hex (sha256 data)"

section \<open>HMAC and signatures\<close>

text \<open>\<open>key.resize(64, 0)\<close> on a key of at most 64 bytes.\<close>

definition hmac_key :: "byte list \<Rightarrow> byte list" where
  "hmac_key secret =
     (let key = (if 64 < length secret then sha256 secret else secret)
      in key @ replicate (64 - length key) 0)"

definition hmac_sha256 :: "byte list \<Rightarrow> byte list \<Rightarrow> str" where
  "hmac_sha256 secret data =
     (let key = hmac_key secret;
          ipad = map (\<lambda>k. k XOR 0x36) key;
          opad = map (\<lambda>k. k XOR 0x5c) key
      in sha256_hex (opad @ sha256 (ipad @ data)))"

definition sign :: "(json \<Rightarrow> byte list) \<Rightarrow> str \<Rightarrow> json \<Rightarrow> str" where
  "sign canon secret rec = hmac_sha256 (bytes_of secret) (canon rec)"

definition constant_time_eq :: "byte list \<Rightarrow> byte list \<Rightarrow> bool" where
  "constant_time_eq a b =
     (if length a \<noteq> length b then False
      else foldl (\<lambda>diff (x, y). diff OR (x XOR y)) 0 (zip a b) = 0)"

definition verify_signature :: "(json \<Rightarrow> byte list) \<Rightarrow> str \<Rightarrow> json \<Rightarrow> str \<Rightarrow> bool" where
  "verify_signature canon secret rec signature =
     constant_time_eq (bytes_of (sign canon secret rec)) (bytes_of signature)"

definition chain :: "(json \<Rightarrow> byte list) \<Rightarrow> str \<Rightarrow> json \<Rightarrow> str" where
  "chain canon prev_hash rec = sha256_hex (bytes_of prev_hash @ bytes_of ''|'' @ canon rec)"

definition attestation_record :: "str \<Rightarrow> str \<Rightarrow> str option \<Rightarrow> json" where
  "attestation_record princ method name =
     jobj [(''type'', JStr ''attestation''), (''principal'', JStr princ),
           (''method'', JStr method), (''name'', jopt_str name)]"

definition outcome_record :: "str \<Rightarrow> str option \<Rightarrow> bool \<Rightarrow> json" where
  "outcome_record method name ok =
     jobj [(''type'', JStr ''outcome''), (''method'', JStr method),
           (''name'', jopt_str name), (''ok'', JBool ok)]"

lemma xor_zero_iff: "(x XOR y = (0 :: 'a::len word)) \<longleftrightarrow> x = y"
  by (metis bit.xor_self xor.left_neutral xor.assoc xor.right_neutral)

lemma or_zero_iff: "(x OR y = (0 :: 'a::len word)) \<longleftrightarrow> x = 0 \<and> y = 0"
  by (auto simp: bit_eq_iff bit_or_iff)

lemma fold_diff_zero:
  "length a = length b \<Longrightarrow>
     foldl (\<lambda>diff (x, y). diff OR (x XOR y)) d (zip a b) = (0 :: byte) \<longleftrightarrow> d = 0 \<and> a = b"
  by (induction a b arbitrary: d rule: list_induct2) (auto simp: or_zero_iff xor_zero_iff)

lemma constant_time_eq_iff: "constant_time_eq a b \<longleftrightarrow> a = b"
  using fold_diff_zero [of a b 0] by (auto simp: constant_time_eq_def)

lemma bytes_of_inject: "bytes_of s = bytes_of t \<longleftrightarrow> s = t"
  by (metis str_of_bytes_of)

lemma verify_signature_iff: "verify_signature canon secret rec sg \<longleftrightarrow> sg = sign canon secret rec"
  by (auto simp: verify_signature_def constant_time_eq_iff bytes_of_inject)

lemma sha256_hex_inject: "sha256_hex x = sha256_hex y \<longleftrightarrow> sha256 x = sha256 y"
  by (metis sha256_hex_def to_hex_def unhex_hex option.inject)

lemma pad56_length: "length (pad56 m) mod 64 = 56"
  by (induction m rule: pad56.induct) (subst pad56.simps, simp)

lemma pad56_prefix: "\<exists>z. pad56 m = m @ z"
  by (induction m rule: pad56.induct) (subst pad56.simps, auto)

lemma sha_pad_blocks: "length (sha_pad data) mod 64 = 0"
proof -
  have "(length (pad56 (data @ [0x80])) mod 64 + 8) mod 64 = 0" by (simp add: pad56_length)
  then have "(length (pad56 (data @ [0x80])) + 8) mod 64 = 0" by (simp add: mod_add_left_eq)
  then show ?thesis by (simp add: sha_pad_def be_bytes64_def)
qed

lemma concat_chunks: "concat (chunks_exact64 n m) = take (64 * n) m"
  by (induction n m rule: chunks_exact64.induct) (simp_all flip: take_add)

lemma foldl_sha_block_length: "length h = 8 \<Longrightarrow> length (foldl sha_block h bs) = 8"
proof (induction bs arbitrary: h)
  case (Cons b bs)
  have "length (sha_list s) = 8" for s by (cases s rule: sha_list.cases) simp
  then show ?case using Cons by (simp add: sha_block_def Let_def)
qed simp

lemma sha256_length: "length (sha256 data) = 32"
proof -
  let ?h = "foldl sha_block SHA256_H (chunks_exact64 (length (sha_pad data) div 64) (sha_pad data))"
  have "length ?h = 8" by (rule foldl_sha_block_length) (simp add: SHA256_H_def)
  moreover have "length (concat (map be_bytes32 h)) = 4 * length h" for h
    by (induction h) (simp_all add: be_bytes32_def)
  ultimately show ?thesis by (simp add: sha256_def Let_def)
qed

section \<open>The audit log\<close>

record audit_log =
  al_secret :: str
  al_genesis :: str
  al_head :: str
  al_records :: "json list"

definition audit_new :: "str \<Rightarrow> audit_log" where
  "audit_new secret = \<lparr>al_secret = secret, al_genesis = GENESIS, al_head = GENESIS, al_records = []\<rparr>"

definition audit_entry :: "(json \<Rightarrow> byte list) \<Rightarrow> audit_log \<Rightarrow> json \<Rightarrow> json" where
  "audit_entry canon l rec =
     jobj [(''record'', rec), (''prev'', JStr (al_head l)),
           (''signature'', JStr (sign canon (al_secret l) rec)),
           (''hash'', JStr (chain canon (al_head l) rec))]"

text \<open>The \<open>unwrap\<close> on the entry's hash cannot panic: the field was just built as a string.\<close>

definition audit_append :: "(json \<Rightarrow> byte list) \<Rightarrow> json \<Rightarrow> audit_log \<Rightarrow> json \<times> audit_log" where
  "audit_append canon rec l =
     (let entry = audit_entry canon l rec
      in (entry, l\<lparr>al_head := unwrap_or (as_str (jindex entry ''hash'')) [],
                   al_records := al_records l @ [entry]\<rparr>))"

definition entry_str :: "str \<Rightarrow> json \<Rightarrow> str" where
  "entry_str k entry = unwrap_or (as_str (jindex entry k)) []"

definition entry_ok :: "(json \<Rightarrow> byte list) \<Rightarrow> str \<Rightarrow> str \<Rightarrow> json \<Rightarrow> bool" where
  "entry_ok canon secret head entry =
     (let rec = jindex entry ''record''
      in if \<not> verify_signature canon secret rec (entry_str ''signature'' entry) then False
         else if as_str (jindex entry ''prev'') \<noteq> Some head then False
         else chain canon head rec = entry_str ''hash'' entry)"

text \<open>The loop of \<open>verify\<close>: the final head, or \<open>None\<close> at the first entry that fails.\<close>

fun verify_loop :: "(json \<Rightarrow> byte list) \<Rightarrow> str \<Rightarrow> str \<Rightarrow> json list \<Rightarrow> str option" where
  "verify_loop canon secret head [] = Some head"
| "verify_loop canon secret head (e # es) =
     (if entry_ok canon secret head e then verify_loop canon secret (entry_str ''hash'' e) es else None)"

definition audit_verify :: "(json \<Rightarrow> byte list) \<Rightarrow> audit_log \<Rightarrow> bool" where
  "audit_verify canon l \<longleftrightarrow> verify_loop canon (al_secret l) (al_genesis l) (al_records l) \<noteq> None"

definition entry_record :: "json \<Rightarrow> json" where
  "entry_record e = jindex e ''record''"

lemma verify_loop_append:
  "verify_loop canon secret h (xs @ ys) =
     Option.bind (verify_loop canon secret h xs) (\<lambda>h'. verify_loop canon secret h' ys)"
  by (induction xs arbitrary: h) auto

lemma entry_ok_iff:
  "entry_ok canon secret h e \<longleftrightarrow>
     entry_str ''signature'' e = sign canon secret (entry_record e) \<and>
     as_str (jindex e ''prev'') = Some h \<and> entry_str ''hash'' e = chain canon h (entry_record e)"
  by (auto simp: entry_ok_def Let_def verify_signature_iff entry_record_def)

lemma audit_append_step:
  assumes "verify_loop canon (al_secret l) (al_genesis l) (al_records l) = Some (al_head l)"
  shows "verify_loop canon (al_secret l) (al_genesis l) (al_records (snd (audit_append canon r l))) =
    Some (al_head (snd (audit_append canon r l)))"
proof -
  let ?e = "audit_entry canon l r"
  have "entry_ok canon (al_secret l) (al_head l) ?e"
    by (simp add: entry_ok_iff entry_str_def entry_record_def audit_entry_def json_simps)
  then show ?thesis
    using assms by (simp add: audit_append_def Let_def verify_loop_append entry_str_def)
qed

definition audit_run :: "(json \<Rightarrow> byte list) \<Rightarrow> str \<Rightarrow> json list \<Rightarrow> audit_log" where
  "audit_run canon secret rs = foldl (\<lambda>l r. snd (audit_append canon r l)) (audit_new secret) rs"

lemma audit_run_snoc: "audit_run canon secret (rs @ [r]) = snd (audit_append canon r (audit_run canon secret rs))"
  by (simp add: audit_run_def)

lemma audit_run_inv:
  "al_secret (audit_run canon secret rs) = secret \<and> al_genesis (audit_run canon secret rs) = GENESIS \<and>
   map entry_record (al_records (audit_run canon secret rs)) = rs \<and>
   verify_loop canon secret GENESIS (al_records (audit_run canon secret rs)) =
     Some (al_head (audit_run canon secret rs))"
proof (induction rs rule: rev_induct)
  case Nil
  then show ?case by (simp add: audit_run_def audit_new_def)
next
  case (snoc r rs)
  moreover have "entry_record (audit_entry canon l r) = r" for l
    by (simp add: entry_record_def audit_entry_def json_simps)
  ultimately show ?case
    using audit_append_step [of canon "audit_run canon secret rs" r]
    by (simp add: audit_run_snoc) (simp add: audit_append_def Let_def)
qed

text \<open>The bytes an entry's hash is the digest of.\<close>

definition link_text :: "(json \<Rightarrow> byte list) \<Rightarrow> json \<Rightarrow> byte list" where
  "link_text canon e = bytes_of (entry_str ''prev'' e) @ bytes_of ''|'' @ canon (entry_record e)"

lemma chain_length: "length (chain canon h r) = 64"
proof -
  have "length (hex bs) = 2 * length bs" for bs by (induction bs) (simp_all add: hex_def)
  then show ?thesis by (simp add: chain_def sha256_hex_def to_hex_def sha256_length)
qed

lemma verify_loop_head_length:
  "verify_loop canon s h es = Some h' \<Longrightarrow> length h = 64 \<Longrightarrow> length h' = 64"
  by (induction es arbitrary: h) (auto simp: entry_ok_iff chain_length split: if_splits)

lemma entry_ok_link:
  "entry_ok canon s h e \<Longrightarrow>
     entry_str ''hash'' e = sha256_hex (link_text canon e) \<and> entry_str ''prev'' e = h"
  by (simp add: entry_ok_iff chain_def link_text_def entry_str_def)

definition collides :: "(json \<Rightarrow> byte list) \<Rightarrow> json \<times> json \<Rightarrow> bool" where
  "collides canon p \<longleftrightarrow>
     link_text canon (fst p) \<noteq> link_text canon (snd p) \<and> sha256 (link_text canon (fst p)) = sha256 (link_text canon (snd p))"

lemma same_head_same_records:
  assumes "length es = length es'" "length g = 64"
    "verify_loop canon s g es = Some h" "verify_loop canon s' g es' = Some h"
    "inj_on canon (entry_record ` (set es \<union> set es'))"
  shows "map entry_record es = map entry_record es' \<or> (\<exists>p \<in> set (zip es es'). collides canon p)"
  using assms
proof (induction es arbitrary: es' h rule: rev_induct)
  case (snoc x xs)
  then obtain y ys where es': "es' = ys @ [y]" and len: "length xs = length ys"
    by (cases es' rule: rev_cases) auto
  note prems = snoc.prems [unfolded es']
  from prems obtain h1 where h1: "verify_loop canon s g xs = Some h1" "entry_ok canon s h1 x"
      "entry_str ''hash'' x = h"
    by (auto simp: verify_loop_append split: Option.bind_splits if_splits)
  from prems obtain h2 where h2: "verify_loop canon s' g ys = Some h2" "entry_ok canon s' h2 y"
      "entry_str ''hash'' y = h"
    by (auto simp: verify_loop_append split: Option.bind_splits if_splits)
  have sha: "sha256 (link_text canon x) = sha256 (link_text canon y)"
    using entry_ok_link [OF h1(2)] entry_ok_link [OF h2(2)] h1(3) h2(3) by (simp flip: sha256_hex_inject)
  show ?case
  proof (cases "link_text canon x = link_text canon y")
    case False
    then have "collides canon (x, y)" using sha by (simp add: collides_def)
    then show ?thesis using len es' by auto
  next
    case True
    have "length (bytes_of h1) = length (bytes_of h2)"
      using verify_loop_head_length [OF h1(1)] verify_loop_head_length [OF h2(1)] prems(2)
      by (simp add: bytes_of_def)
    then have "bytes_of h1 = bytes_of h2" "canon (entry_record x) = canon (entry_record y)"
      using True entry_ok_link [OF h1(2)] entry_ok_link [OF h2(2)] by (auto simp: link_text_def)
    then have "verify_loop canon s' g ys = Some h1" using h2(1) by (simp add: bytes_of_inject)
    moreover have r: "entry_record x = entry_record y"
      using prems(5) by (rule inj_onD) (use \<open>canon _ = canon _\<close> in auto)
    moreover have "inj_on canon (entry_record ` (set xs \<union> set ys))"
      using prems(5) by (rule inj_on_subset) auto
    ultimately have "map entry_record xs = map entry_record ys \<or> (\<exists>p \<in> set (zip xs ys). collides canon p)"
      using snoc.IH [OF len prems(2) h1(1)] by blast
    then show ?thesis using r len es' by auto
  qed
qed simp

section \<open>Properties\<close>

text \<open>The SHA-256 of the code pads every input to whole blocks, consumes all of them
  and returns 32 bytes.\<close>
theorem sha256_correct_shape:
  "length (sha_pad data) mod 64 = 0 \<and>
   concat (chunks_exact64 (length (sha_pad data) div 64) (sha_pad data)) = sha_pad data \<and>
   length (sha256 data) = 32"
proof (intro conjI)
  show p: "length (sha_pad data) mod 64 = 0" by (rule sha_pad_blocks)
  show "concat (chunks_exact64 (length (sha_pad data) div 64) (sha_pad data)) = sha_pad data"
    using p by (simp add: concat_chunks mult.commute [of 64] mod_0_imp_dvd)
  show "length (sha256 data) = 32" by (rule sha256_length)
qed

text \<open>A detached signature verifies exactly when it is the HMAC of the record: the
  constant-time comparison decides equality.\<close>
theorem signature_verifies_iff:
  "verify_signature canon secret rec sg \<longleftrightarrow> sg = hmac_sha256 (bytes_of secret) (canon rec)"
  by (simp add: verify_signature_iff sign_def)

text \<open>A log made by any sequence of appends verifies, holds exactly the appended records
  in order, and so does every prefix of it: \<open>verify\<close> cannot see that the last records were
  removed.\<close>
theorem audit_log_verifies:
  "audit_verify canon (audit_run canon secret rs) \<and>
   map entry_record (al_records (audit_run canon secret rs)) = rs \<and>
   audit_verify canon ((audit_run canon secret rs)\<lparr>al_records := take n (al_records (audit_run canon secret rs))\<rparr>)"
proof -
  let ?l = "audit_run canon secret rs"
  have inv: "verify_loop canon secret GENESIS (al_records ?l) \<noteq> None"
    using audit_run_inv [of canon secret rs] by simp
  then have "verify_loop canon secret GENESIS (take n (al_records ?l) @ drop n (al_records ?l)) \<noteq> None"
    by simp
  then have "verify_loop canon secret GENESIS (take n (al_records ?l)) \<noteq> None"
    unfolding verify_loop_append by (auto simp del: append_take_drop_id split: Option.bind_splits)
  then show ?thesis using inv audit_run_inv [of canon secret rs] by (simp add: audit_verify_def)
qed

text \<open>C17: Two logs of equal length that verify to the same head hold the same records, or
  some position exhibits two different inputs with one SHA-256 digest; the signing keys do not
  matter. The records' canonical bytes must be injective on the records in question.\<close>
theorem audit_log_tamper_evident:
  assumes "verify_loop canon s GENESIS es = Some h" "verify_loop canon s' GENESIS es' = Some h"
    and "length es = length es'" "inj_on canon (entry_record ` (set es \<union> set es'))"
  shows "map entry_record es = map entry_record es' \<or> list_ex (collides canon) (zip es es')"
  using same_head_same_records [OF assms(3) _ assms(1,2,4)] by (simp add: GENESIS_def list_ex_iff)

theorem audit_log_tamper_evident_witness:
  "\<exists>canon es h. verify_loop canon ''k'' GENESIS es = Some h \<and> es \<noteq> [] \<and>
     (map entry_record es = map entry_record es \<or> list_ex (collides canon) (zip es es))"
proof -
  let ?canon = "\<lambda>v. bytes_of (unwrap_or (as_str v) [])"
  let ?l = "audit_run ?canon ''k'' [JStr ''a'', JStr ''b'']"
  have v: "verify_loop ?canon ''k'' GENESIS (al_records ?l) = Some (al_head ?l)"
    and m: "map entry_record (al_records ?l) = [JStr ''a'', JStr ''b'']"
    using audit_run_inv by blast+
  have "entry_record ` set (al_records ?l) = {JStr ''a'', JStr ''b''}"
    using arg_cong [OF m, of set] by simp
  then have i: "inj_on ?canon (entry_record ` (set (al_records ?l) \<union> set (al_records ?l)))"
    by (simp add: bytes_of_inject)
  have "al_records ?l \<noteq> []" using m by auto
  then show ?thesis using audit_log_tamper_evident [OF v v refl i] v by blast
qed

end
