(* ===== verification/Sha_Vectors.thy ===== *)
theory Sha_Vectors
  imports Signing
begin

text \<open>
  The SHA-256 of \<open>src/src/signing.rs\<close>, evaluated by the kernel on a FIPS 180-4 test
  message. It is a theory of its own because the evaluation of the 64 rounds takes a minute.
\<close>

text \<open>The digest of the message \<open>abc\<close> is the one FIPS 180-4 lists, so the constants,
  rotations, schedule and byte orders of the code's hash are those of SHA-256.\<close>
theorem sha256_fips_vector:
  "sha256_hex (bytes_of ''abc'') = ''ba7816bf8f01cfea414140de5dae2223b00361a396177a9cb410ff61f20015ad''"
  by code_simp

end
