(* ===== verification/Filters.thy ===== *)
theory Filters
  imports Errors Encoding
begin

text \<open>
  \<open>src/src/content.rs\<close> (the content-block traversal and the two rewrites) and
  \<open>src/src/filters.rs\<close> (verdicts, interest, the filter chain). A filter is a trait object in
  the code: its \<open>evaluate\<close> is a function parameter of the record that holds it.
\<close>

section \<open>Content blocks\<close>

definition bytes_field :: "json option \<Rightarrow> json" where
  "bytes_field value =
     (case Option.bind (Option.bind value as_str) base64_decode of
        Some bytes \<Rightarrow> JStr (hex bytes)
      | None \<Rightarrow> JNull)"

definition descriptor :: "str \<Rightarrow> json list \<Rightarrow> json \<Rightarrow> json \<Rightarrow> json \<Rightarrow> json \<Rightarrow> json" where
  "descriptor kind path mime uri txt bytes =
     jobj [(''kind'', JStr kind), (''path'', JArr path), (''mime'', mime), (''uri'', uri),
           (''text'', txt), (''bytes'', bytes)]"

definition path_of :: "str list \<Rightarrow> nat \<Rightarrow> str list \<Rightarrow> json list" where
  "path_of base index tail = map JStr base @ [jnat index] @ map JStr tail"

definition get_or_null :: "str \<Rightarrow> json \<Rightarrow> json" where
  "get_or_null k v = unwrap_or (jget k v) JNull"

definition content_block :: "nat \<Rightarrow> json \<Rightarrow> json list" where
  "content_block index item =
     (let base = [''result'', ''content'']
      in case get_str ''type'' item of
           None \<Rightarrow> [descriptor ''unknown'' (path_of base index []) JNull JNull JNull JNull]
         | Some kind \<Rightarrow>
             if kind = ''text'' then
               [descriptor ''text'' (path_of base index [''text'']) JNull JNull (get_or_null ''text'' item) JNull]
             else if kind = ''image'' \<or> kind = ''audio'' then
               [descriptor kind (path_of base index [''data'']) (get_or_null ''mimeType'' item) JNull JNull
                  (bytes_field (jget ''data'' item))]
             else if kind = ''resource_link'' then
               [descriptor ''resource_link'' (path_of base index [''uri'']) (get_or_null ''mimeType'' item)
                  (get_or_null ''uri'' item) JNull JNull]
             else if kind = ''resource'' then
               (let resource = jget ''resource'' item;
                    uri = unwrap_or (Option.bind resource (jget ''uri'')) JNull;
                    mime = unwrap_or (Option.bind resource (jget ''mimeType'')) JNull
                in case Option.bind resource (jget ''text'') of
                     Some t \<Rightarrow> [descriptor ''resource'' (path_of base index [''resource'', ''text'']) mime uri t JNull]
                   | None \<Rightarrow>
                       (case Option.bind resource (jget ''blob'') of
                          Some b \<Rightarrow> [descriptor ''resource'' (path_of base index [''resource'', ''blob'']) mime uri JNull
                                      (bytes_field (Some b))]
                        | None \<Rightarrow> []))
             else [descriptor ''unknown'' (path_of base index []) JNull JNull JNull JNull])"

definition contents_block :: "nat \<Rightarrow> json \<Rightarrow> json list" where
  "contents_block index item =
     (let base = [''result'', ''contents'']; uri = get_or_null ''uri'' item; mime = get_or_null ''mimeType'' item
      in case jget ''text'' item of
           Some t \<Rightarrow> [descriptor ''resource'' (path_of base index [''text'']) mime uri t JNull]
         | None \<Rightarrow>
             (case jget ''blob'' item of
                Some b \<Rightarrow> [descriptor ''resource'' (path_of base index [''blob'']) mime uri JNull
                            (bytes_field (Some b))]
              | None \<Rightarrow> []))"

text \<open>\<open>message.pointer("/result/content").and_then(Value::as_array)\<close> and the enumeration.\<close>

definition pointed_items :: "str \<Rightarrow> json \<Rightarrow> (nat \<times> json) list" where
  "pointed_items k message =
     (case Option.bind (Option.bind (jget ''result'' message) (jget k)) as_array of
        Some items \<Rightarrow> zip [0..<length items] items
      | None \<Rightarrow> [])"

definition block_list :: "json \<Rightarrow> json list" where
  "block_list message =
     concat (map (\<lambda>(i, item). content_block i item) (pointed_items ''content'' message)) @
     concat (map (\<lambda>(i, item). contents_block i item) (pointed_items ''contents'' message))"

definition blocks :: "json \<Rightarrow> json" where
  "blocks message = JArr (block_list message)"

text \<open>
  \<open>navigate_mut\<close> and the assignment through the reference it returns: the message with the
  slot at \<open>path\<close> replaced, or \<open>None\<close> when there is no such slot.
\<close>

fun set_at :: "json list \<Rightarrow> json \<Rightarrow> json \<Rightarrow> json option" where
  "set_at [] x v = Some x"
| "set_at (JStr k # p) x (JObj ob) =
     (case smap_get k ob of
        Some w \<Rightarrow> map_option (\<lambda>w'. JObj (smap_put k w' ob)) (set_at p x w)
      | None \<Rightarrow> None)"
| "set_at (JNum n # p) x (JArr vs) =
     (case as_u64 (JNum n) of
        Some i \<Rightarrow>
          if i < length vs then map_option (\<lambda>w'. JArr (vs[i := w'])) (set_at p x (vs ! i)) else None
      | None \<Rightarrow> None)"
| "set_at _ x v = None"

definition set_text :: "json \<Rightarrow> json list \<Rightarrow> str \<Rightarrow> json" where
  "set_text message path t = unwrap_or (set_at path (JStr t) message) message"

definition set_bytes :: "json \<Rightarrow> json list \<Rightarrow> byte list \<Rightarrow> json" where
  "set_bytes message path bytes = unwrap_or (set_at path (JStr (base64_encode bytes)) message) message"

text \<open>What a path denotes.\<close>

fun get_at :: "json list \<Rightarrow> json \<Rightarrow> json option" where
  "get_at [] v = Some v"
| "get_at (JStr k # p) (JObj ob) = Option.bind (smap_get k ob) (get_at p)"
| "get_at (JNum n # p) (JArr vs) =
     (case as_u64 (JNum n) of
        Some i \<Rightarrow> if i < length vs then get_at p (vs ! i) else None
      | None \<Rightarrow> None)"
| "get_at _ v = None"

lemma set_at_defined: "set_at p x v \<noteq> None \<longleftrightarrow> get_at p v \<noteq> None"
  by (induction p x v rule: set_at.induct) (auto split: option.splits)

lemma get_set_at: "set_at p x v = Some v' \<Longrightarrow> get_at p v' = Some x"
  by (induction p x v arbitrary: v' rule: set_at.induct)
    (auto simp: store_simps split: option.splits if_splits)

lemma get_at_Cons: "get_at (JStr k # p) v = Option.bind (jget k v) (get_at p)"
  by (cases v) auto

lemma get_at_index:
  "i < length vs \<Longrightarrow> get_at (jnat i # p) (JArr vs) = get_at p (vs ! i)"
  by (simp add: jnat_def)

lemma pointed_items_get:
  assumes "(i, item) \<in> set (pointed_items k message)"
  shows "get_at (path_of [''result'', k] i tail) message = get_at (map JStr tail) item"
proof -
  obtain r vs where r: "jget ''result'' message = Some r" "jget k r = Some (JArr vs)"
      and i: "i < length vs" "item = vs ! i"
    using assms by (auto simp: pointed_items_def set_zip as_array_Some split: option.splits Option.bind_splits)
  then show ?thesis by (simp add: path_of_def get_at_Cons get_at_index)
qed

definition block_path :: "json \<Rightarrow> json list" where
  "block_path d = unwrap_or (get_array ''path'' d) []"

lemma descriptor_fields:
  "block_path (descriptor kind path mime uri txt bytes) = path"
  "jget ''text'' (descriptor kind path mime uri txt bytes) = Some txt"
  "jget ''bytes'' (descriptor kind path mime uri txt bytes) = Some bytes"
  "get_str ''kind'' (descriptor kind path mime uri txt bytes) = Some kind"
  by (simp_all add: block_path_def get_array_def get_str_def descriptor_def json_simps)

text \<open>A descriptor's text is the value at its path, its bytes the decoded text there.\<close>

definition points_to_payload :: "json \<Rightarrow> json \<Rightarrow> bool" where
  "points_to_payload message d \<longleftrightarrow>
     (jget ''text'' d = Some JNull \<or> jget ''text'' d = get_at (block_path d) message) \<and>
     (jget ''bytes'' d = Some JNull \<or> jget ''bytes'' d = Some (bytes_field (get_at (block_path d) message)))"

lemma get_at_single: "get_at [JStr k] v = jget k v"
  by (cases v) (auto split: Option.bind_splits)

lemma get_at_pair: "get_at [JStr k, JStr m] v = Option.bind (jget k v) (jget m)"
  by (simp add: get_at_Cons) (cases "jget k v"; simp add: get_at_Cons; cases "jget m (the (jget k v))"; simp)

lemma content_block_points:
  assumes "(i, item) \<in> set (pointed_items ''content'' message)" "d \<in> set (content_block i item)"
  shows "points_to_payload message d"
proof -
  note g = pointed_items_get [OF assms(1)]
  show ?thesis
    using assms(2)
    by (auto simp: content_block_def points_to_payload_def descriptor_fields g get_at_single get_at_pair
        get_or_null_def unwrap_or_def Let_def split: option.splits if_splits)
qed

lemma contents_block_points:
  assumes "(i, item) \<in> set (pointed_items ''contents'' message)" "d \<in> set (contents_block i item)"
  shows "points_to_payload message d"
proof -
  note g = pointed_items_get [OF assms(1)]
  show ?thesis
    using assms(2)
    by (auto simp: contents_block_def points_to_payload_def descriptor_fields g get_at_single
        Let_def split: option.splits)
qed

section \<open>Verdicts\<close>

definition CONNECTION :: str where "CONNECTION = ''connection''"
definition LIFECYCLE :: str where "LIFECYCLE = ''lifecycle''"
definition REQUEST :: str where "REQUEST = ''request''"
definition RESPONSE :: str where "RESPONSE = ''response''"
definition NOTIFICATION :: str where "NOTIFICATION = ''notification''"
definition CONTENT_BLOCK :: str where "CONTENT_BLOCK = ''content_block''"
definition CATALOG :: str where "CATALOG = ''catalog''"
definition AUTH_SESSION :: str where "AUTH_SESSION = ''auth_session''"

definition HOOK_POINTS :: "str list" where
  "HOOK_POINTS = [CONNECTION, LIFECYCLE, REQUEST, RESPONSE, NOTIFICATION, CONTENT_BLOCK, CATALOG, AUTH_SESSION]"

definition ALLOW :: str where "ALLOW = ''allow''"
definition DENY :: str where "DENY = ''deny''"
definition MUTATE :: str where "MUTATE = ''mutate''"
definition ANNOTATE :: str where "ANNOTATE = ''annotate''"
definition QUARANTINE :: str where "QUARANTINE = ''quarantine''"
definition VERDICTS :: "str list" where "VERDICTS = [ALLOW, DENY, MUTATE, ANNOTATE, QUARANTINE]"

definition FAIL_OPEN :: str where "FAIL_OPEN = ''fail_open''"
definition FAIL_CLOSED :: str where "FAIL_CLOSED = ''fail_closed''"
definition C2U :: str where "C2U = ''c2u''"
definition U2C :: str where "U2C = ''u2c''"
definition CONTINUE :: str where "CONTINUE = ''continue''"

lemmas verdict_defs = ALLOW_def DENY_def MUTATE_def ANNOTATE_def QUARANTINE_def

definition resolve_failure :: "str \<Rightarrow> str" where
  "resolve_failure policy = (if policy = FAIL_CLOSED then DENY else ALLOW)"

definition deny_response :: "json \<Rightarrow> str \<Rightarrow> json" where
  "deny_response rid reason = rpc_error rid POLICY_DENIED reason"

definition kind_of :: "json \<Rightarrow> str" where
  "kind_of verdict = unwrap_or (as_str (jindex verdict ''kind'')) []"

definition apply_one :: "json \<Rightarrow> json \<Rightarrow> json" where
  "apply_one verdict message =
     (let kind = kind_of verdict
      in if kind = ALLOW then message
         else
           (let params = unwrap_or (Option.bind (jget ''params'' message) as_object) [];
                params =
                  (if kind = MUTATE then smap_put ''arguments'' (jindex verdict ''arguments'') params
                   else if kind = ANNOTATE then
                     (let meta = unwrap_or (Option.bind (smap_get ''_meta'' params) as_object) [];
                          meta = smap_puts meta (unwrap_or (Option.bind (jget ''provenance'' verdict) as_object) [])
                      in smap_put ''_meta'' (JObj meta) params)
                   else params)
            in JObj (smap_put ''params'' (JObj params) (obj_or_empty message))))"

definition terminal :: "json \<Rightarrow> bool" where
  "terminal verdict \<longleftrightarrow> kind_of verdict = DENY \<or> kind_of verdict = QUARANTINE"

definition block_outcome :: "json \<Rightarrow> json \<Rightarrow> json" where
  "block_outcome request verdict =
     jobj [(''action'', JStr ''block''),
           (''response'', deny_response (unwrap_or (jget ''id'' request) JNull)
                            (unwrap_or (get_str ''reason'' verdict) [])),
           (''quarantined'', JBool (kind_of verdict = QUARANTINE))]"

definition forward_outcome :: "json \<Rightarrow> json" where
  "forward_outcome message = jobj [(''action'', JStr ''forward''), (''message'', message)]"

fun outcome_loop :: "json \<Rightarrow> json list \<Rightarrow> json \<Rightarrow> json" where
  "outcome_loop request [] message = forward_outcome message"
| "outcome_loop request (v # vs) message =
     (if terminal v then block_outcome request v else outcome_loop request vs (apply_one v message))"

definition chain_outcome :: "json list \<Rightarrow> json \<Rightarrow> json" where
  "chain_outcome verdicts request = outcome_loop request verdicts request"

section \<open>Interest\<close>

definition list_matches :: "(json list \<Rightarrow> bool) \<Rightarrow> json option \<Rightarrow> bool" where
  "list_matches p declared =
     (case Option.bind declared as_array of
        None \<Rightarrow> True
      | Some list \<Rightarrow>
          if list = [] then True
          else if list_ex (\<lambda>v. as_str v = Some ''*'') list then True
          else p list)"

definition matches :: "json option \<Rightarrow> str option \<Rightarrow> bool" where
  "matches declared value =
     list_matches (\<lambda>list. case value of
        Some v \<Rightarrow> list_ex (\<lambda>d. as_str d = Some v) list | None \<Rightarrow> False) declared"

definition mime_match :: "str \<Rightarrow> str \<Rightarrow> bool" where
  "mime_match pattern mime =
     (if pattern = mime \<or> pattern = ''*'' then True
      else ends_with ''/*'' pattern \<and> starts_with (take (length pattern - 1) pattern) mime)"

definition matches_content :: "json option \<Rightarrow> str list \<Rightarrow> bool" where
  "matches_content declared present =
     list_matches (\<lambda>list. list_ex (\<lambda>pattern. list_ex (mime_match pattern) present)
        (List.map_filter as_str list)) declared"

definition interested :: "json \<Rightarrow> json \<Rightarrow> bool" where
  "interested interest context =
     (let present = unwrap_or (map_option (List.map_filter as_str) (get_array ''content_types'' context)) []
      in matches (jget ''methods'' interest) (get_str ''method'' context) \<and>
         matches (jget ''directions'' interest) (get_str ''direction'' context) \<and>
         matches (jget ''tools'' interest) (get_str ''tool'' context) \<and>
         matches_content (jget ''content_types'' interest) present)"

definition message_context :: "json \<Rightarrow> str \<Rightarrow> json" where
  "message_context message direction =
     (let method = get_str ''method'' message;
          tool = (if method = Some ''tools/call''
                  then Option.bind (jget ''params'' message) (get_str ''name'') else None);
          mimes = remdups_adj (sort (List.map_filter (get_str ''mime'') (unwrap_or (as_array (blocks message)) [])))
      in jobj [(''method'', jopt_str method), (''tool'', jopt_str tool),
               (''direction'', JStr direction), (''content_types'', JArr (map JStr mimes))])"

definition preview :: "byte list \<Rightarrow> nat \<Rightarrow> json" where
  "preview data n =
     (let k = min n (length data)
      in jobj [(''preview'', JStr (hex (take k data))), (''ieof'', JBool (length data \<le> n))])"

definition preview_resolve :: "str \<Rightarrow> bool \<Rightarrow> json" where
  "preview_resolve decision ieof =
     (if decision \<noteq> CONTINUE then jobj [(''action'', JStr ''verdict''), (''kind'', JStr decision)]
      else if ieof then jobj [(''action'', JStr ''scan_full'')]
      else jobj [(''action'', JStr ''need_more'')])"

section \<open>The chain\<close>

datatype filter_error = FilterError str

record filter_obj =
  failure_policy :: str
  interest :: json
  evaluate :: "str \<Rightarrow> json \<Rightarrow> filter_error + json"

definition filter_verdict :: "str \<Rightarrow> json \<Rightarrow> filter_obj \<Rightarrow> json" where
  "filter_verdict hook message f =
     (case evaluate f hook message of
        Inr verdict \<Rightarrow> verdict
      | Inl _ \<Rightarrow> jobj [(''kind'', JStr (resolve_failure (failure_policy f)))])"

text \<open>The loop of \<open>run\<close>, which collects the verdicts.\<close>

fun run_loop :: "str \<Rightarrow> json \<Rightarrow> filter_obj list \<Rightarrow> json \<Rightarrow> json list \<Rightarrow> json list" where
  "run_loop hook context [] message verdicts = verdicts"
| "run_loop hook context (f # fs) message verdicts =
     (if \<not> interested (interest f) context then run_loop hook context fs message verdicts
      else
        (let verdict = filter_verdict hook message f
         in if terminal verdict then verdicts @ [verdict]
            else run_loop hook context fs (apply_one verdict message) (verdicts @ [verdict])))"

definition chain_run :: "filter_obj list \<Rightarrow> str \<Rightarrow> json \<Rightarrow> json" where
  "chain_run filters hook request =
     chain_outcome (run_loop hook (message_context request C2U) filters request []) request"

text \<open>The specification: one pass in which each interested filter sees the message its
  predecessors shaped, and the first terminal verdict decides.\<close>

fun chain_spec :: "str \<Rightarrow> json \<Rightarrow> json \<Rightarrow> filter_obj list \<Rightarrow> json \<Rightarrow> json" where
  "chain_spec hook context request [] message = forward_outcome message"
| "chain_spec hook context request (f # fs) message =
     (if \<not> interested (interest f) context then chain_spec hook context request fs message
      else
        (let verdict = filter_verdict hook message f
         in if terminal verdict then block_outcome request verdict
            else chain_spec hook context request fs (apply_one verdict message)))"

lemma outcome_loop_append:
  "list_all (\<lambda>v. \<not> terminal v) vs \<Longrightarrow>
     outcome_loop request (vs @ ws) message =
       outcome_loop request ws (foldl (\<lambda>m v. apply_one v m) message vs)"
  by (induction vs arbitrary: message) auto

lemma run_loop_spec:
  "list_all (\<lambda>v. \<not> terminal v) vs \<Longrightarrow> message = foldl (\<lambda>m v. apply_one v m) request vs \<Longrightarrow>
     outcome_loop request (run_loop hook context fs message vs) request =
       chain_spec hook context request fs message"
proof (induction fs arbitrary: message vs)
  case Nil
  then show ?case using outcome_loop_append [of vs request "[]" request] by simp
next
  case (Cons f fs)
  let ?v = "filter_verdict hook message f"
  show ?case
  proof (cases "interested (interest f) context")
    case True
    then show ?thesis
      using Cons.prems Cons.IH [of "vs @ [?v]" "apply_one ?v message"]
      by (simp add: Let_def outcome_loop_append)
  next
    case False
    then show ?thesis using Cons by simp
  qed
qed

definition outcome_action :: "json \<Rightarrow> str option" where
  "outcome_action out = get_str ''action'' out"

lemma spec_blocks:
  assumes "f \<in> set fs" "interested (interest f) context" "\<And>m. terminal (filter_verdict hook m f)"
  shows "outcome_action (chain_spec hook context request fs message) = Some ''block''"
  using assms(1)
proof (induction fs arbitrary: message)
  case (Cons g fs)
  show ?case
  proof (cases "g = f")
    case True
    then show ?thesis
      using assms(2,3) by (simp add: Let_def block_outcome_def outcome_action_def get_str_def json_simps)
  next
    case False
    then have "f \<in> set fs" using Cons.prems by simp
    then show ?thesis
      using Cons.IH by (simp add: Let_def block_outcome_def outcome_action_def get_str_def json_simps)
  qed
qed simp

section \<open>Properties\<close>

text \<open>Every descriptor of the traversal points at its payload: the text it carries is the
  value at its path and the bytes it carries are the base64-decoded string there.\<close>
theorem blocks_point_to_payload:
  assumes "d \<in> set (block_list message)"
  shows "points_to_payload message d"
  using assms content_block_points contents_block_points by (fastforce simp: block_list_def)

text \<open>Rewriting at a path writes the slot it denotes: a text rewrite reads back as
  that text, a byte rewrite as those bytes through the traversal's decoder, and a path that
  leads nowhere leaves the message as it was.\<close>
theorem rewrite_reads_back:
  "(if get_at path message = None then set_text message path t = message \<and> set_bytes message path bs = message
    else get_at path (set_text message path t) = Some (JStr t) \<and>
         bytes_field (get_at path (set_bytes message path bs)) = JStr (hex bs))"
proof (cases "get_at path message = None")
  case True
  then have "set_at path x message = None" for x using set_at_defined by blast
  then show ?thesis using True by (simp add: set_text_def set_bytes_def)
next
  case False
  then obtain v w where v: "set_at path (JStr t) message = Some v"
      "set_at path (JStr (base64_encode bs)) message = Some w"
    using set_at_defined by (metis not_None_eq)
  have "base64_decode (base64_encode bs) = Some bs"
    by (simp add: base64_decode_def base64_encode_def decode_encode_loop alphabets_ok)
  then show ?thesis
    using False get_set_at [OF v(1)] get_set_at [OF v(2)] v
    by (auto simp: set_text_def set_bytes_def bytes_field_def)
qed

text \<open>C15: Running the chain refines the single-pass specification: every interested filter
  judges the message as its predecessors shaped it, uninterested ones are skipped, and the
  first \<open>deny\<close> or \<open>quarantine\<close> blocks the original request; the rebuilt outcome never differs
  from what the filters saw.\<close>
theorem chain_run_refines_spec:
  "chain_run filters hook request =
     chain_spec hook (message_context request C2U) request filters request"
  using run_loop_spec [of "[]" request request] by (simp add: chain_run_def chain_outcome_def)

text \<open>A chain that holds an interested fail-closed filter which always fails blocks every
  request with the policy error of the original id, whatever the other filters do.\<close>
theorem fail_closed_blocks:
  assumes "f \<in> set filters" "interested (interest f) (message_context request C2U)"
    and "failure_policy f = FAIL_CLOSED" "evaluate f hook = (\<lambda>_. Inl err)"
  shows "outcome_action (chain_run filters hook request) = Some ''block''"
proof -
  have "terminal (filter_verdict hook m f)" for m
    using assms(3,4) by (simp add: filter_verdict_def terminal_def kind_of_def resolve_failure_def json_simps)
  then have "outcome_action (chain_spec hook (message_context request C2U) request filters request) = Some ''block''"
    using assms(1,2) by (intro spec_blocks) auto
  then show ?thesis
    using run_loop_spec [of "[]" request request] by (simp add: chain_run_def chain_outcome_def)
qed

definition demo_message :: json where
  "demo_message =
     jobj [(''id'', jnat 1), (''result'', jobj [(''content'',
       JArr [jobj [(''type'', JStr ''image''), (''data'', JStr ''QUI='')],
             jobj [(''type'', JStr ''text''), (''text'', JStr ''hi'')]])])]"

theorem blocks_point_to_payload_witness:
  "points_to_payload demo_message (block_list demo_message ! 1)"
proof (rule blocks_point_to_payload)
  have "length (block_list demo_message) = 2" by code_simp
  then show "block_list demo_message ! 1 \<in> set (block_list demo_message)" by simp
qed

definition crashing_filter :: filter_obj where
  "crashing_filter =
     \<lparr>failure_policy = FAIL_CLOSED, interest = jobj [(''methods'', JArr [JStr ''tools/call''])],
      evaluate = (\<lambda>_ _. Inl (FilterError ''scanner down''))\<rparr>"

theorem fail_closed_blocks_witness:
  "outcome_action (chain_run [crashing_filter\<lparr>failure_policy := FAIL_OPEN\<rparr>, crashing_filter] REQUEST
     (jobj [(''id'', jnat 1), (''method'', JStr ''tools/call'')])) = Some ''block''"
proof (rule fail_closed_blocks)
  show "interested (interest crashing_filter)
      (message_context (jobj [(''id'', jnat 1), (''method'', JStr ''tools/call'')]) C2U)" by code_simp
qed (simp_all add: crashing_filter_def)

end
