(* ===== verification/Policy.thy ===== *)
theory Policy
  imports Routing Signing Filters
begin

text \<open>
  The security layer: \<open>src/src/policy.rs\<close> (credential injection, header forwarding),
  \<open>auth.rs\<close> (the \<open>_meta\<close> credential, claims, token exchange, PKCE), \<open>observability.rs\<close>
  (hops, trace context), \<open>tap.rs\<close> (redacted capture), \<open>security.rs\<close> (the bind gate) and
  \<open>instrument.rs\<close> (the latency budget and the session record). Header maps are string-keyed maps.
\<close>

section \<open>Header policy\<close>

definition AUTHORIZATION :: str where "AUTHORIZATION = ''Authorization''"

type_synonym headers = "(str, str) smap"

definition bearer_authenticate :: "str list \<Rightarrow> headers \<Rightarrow> bool" where
  "bearer_authenticate valid hs =
     unwrap_or (map_option (\<lambda>token. token \<in> set valid)
       (Option.bind (smap_get AUTHORIZATION hs) (strip_prefix ''Bearer ''))) False"

record forward_rule =
  rule_name :: str
  backend_header :: "str option"

record policy_layer =
  backend_tokens :: "(str, str) smap"
  forward_headers :: "(str, forward_rule list) smap"
  authenticator :: "(headers \<Rightarrow> bool) option"

definition authorize_client :: "policy_layer \<Rightarrow> headers \<Rightarrow> bool" where
  "authorize_client p hs = (case authenticator p of None \<Rightarrow> True | Some a \<Rightarrow> a hs)"

definition rule_target :: "forward_rule \<Rightarrow> str" where
  "rule_target rule = unwrap_or (backend_header rule) (rule_name rule)"

definition forward_step :: "headers \<Rightarrow> headers \<Rightarrow> forward_rule \<Rightarrow> headers" where
  "forward_step client hs rule =
     (case smap_get (rule_name rule) client of
        Some value \<Rightarrow> smap_put (rule_target rule) value hs
      | None \<Rightarrow> hs)"

definition backend_headers :: "policy_layer \<Rightarrow> str \<Rightarrow> headers \<Rightarrow> headers" where
  "backend_headers p backend_id client =
     (let hs = (case smap_get backend_id (backend_tokens p) of
                  Some token \<Rightarrow> smap_put AUTHORIZATION (''Bearer '' @ token) []
                | None \<Rightarrow> [])
      in case smap_get backend_id (forward_headers p) of
           Some rules \<Rightarrow> foldl (forward_step client) hs rules
         | None \<Rightarrow> hs)"

text \<open>What the rules forward as header \<open>h\<close>: the latest rule that targets it decides.\<close>

definition forwarded :: "headers \<Rightarrow> forward_rule list \<Rightarrow> str \<Rightarrow> str option" where
  "forwarded client rules h =
     first_some (map (\<lambda>r. if rule_target r = h then smap_get (rule_name r) client else None) (rev rules))"

lemma forward_rules_get:
  "smap_get h (foldl (forward_step client) hs rules) =
     (case forwarded client rules h of Some v \<Rightarrow> Some v | None \<Rightarrow> smap_get h hs)"
proof (induction rules rule: rev_induct)
  case Nil
  then show ?case by (simp add: forwarded_def)
next
  case (snoc r rules)
  then show ?case by (auto simp: forwarded_def forward_step_def store_simps split: option.splits)
qed

section \<open>Credentials in \<open>_meta\<close> (\<open>auth.rs\<close>)\<close>

definition AUTHORIZATION_META_KEY :: str where "AUTHORIZATION_META_KEY = ''authorization''"
definition CLAIMS_META_KEY :: str where "CLAIMS_META_KEY = ''claims''"
definition GRANT_TYPE_TOKEN_EXCHANGE :: str where
  "GRANT_TYPE_TOKEN_EXCHANGE = ''urn:ietf:params:oauth:grant-type:token-exchange''"
definition TOKEN_TYPE_ACCESS_TOKEN :: str where
  "TOKEN_TYPE_ACCESS_TOKEN = ''urn:ietf:params:oauth:token-type:access_token''"
definition CODE_CHALLENGE_METHOD :: str where "CODE_CHALLENGE_METHOD = ''S256''"

definition forward_meta :: "json \<Rightarrow> str option \<Rightarrow> json" where
  "forward_meta meta backend_token =
     (let ob = smap_del AUTHORIZATION_META_KEY (obj_or_empty meta)
      in JObj (case backend_token of
                 Some token \<Rightarrow> smap_put AUTHORIZATION_META_KEY (JStr (''Bearer '' @ token)) ob
               | None \<Rightarrow> ob))"

definition aud_matches :: "json option \<Rightarrow> str \<Rightarrow> bool" where
  "aud_matches aud audience =
     (case aud of
        Some (JStr s) \<Rightarrow> s = audience
      | Some (JArr list) \<Rightarrow> list_ex (\<lambda>a. as_str a = Some audience) list
      | _ \<Rightarrow> False)"

definition claims_valid :: "json \<Rightarrow> str option \<Rightarrow> str option \<Rightarrow> bool" where
  "claims_valid claims issuer audience =
     (if (case issuer of Some i \<Rightarrow> get_str ''iss'' claims \<noteq> Some i | None \<Rightarrow> False) then False
      else case audience of
        Some a \<Rightarrow> aud_matches (jget ''aud'' claims) a
      | None \<Rightarrow> True)"

definition put_opt_str :: "str \<Rightarrow> str option \<Rightarrow> (str, json) smap \<Rightarrow> (str, json) smap" where
  "put_opt_str k v m = (case v of Some s \<Rightarrow> smap_put k (JStr s) m | None \<Rightarrow> m)"

definition token_exchange_request ::
  "str \<Rightarrow> str option \<Rightarrow> str option \<Rightarrow> str \<Rightarrow> str option \<Rightarrow> json" where
  "token_exchange_request subject_token audience scope subject_token_type requested =
     (let params = smap_puts [] [(''grant_type'', JStr GRANT_TYPE_TOKEN_EXCHANGE),
                                 (''subject_token'', JStr subject_token),
                                 (''subject_token_type'', JStr subject_token_type)]
      in JObj (put_opt_str ''requested_token_type'' requested
                 (put_opt_str ''scope'' scope (put_opt_str ''audience'' audience params))))"

definition parse_token_exchange_response :: "json \<Rightarrow> str option" where
  "parse_token_exchange_response body = get_str ''access_token'' body"

definition code_challenge :: "str \<Rightarrow> str" where
  "code_challenge verifier = encode_url_nopad (sha256 (bytes_of verifier))"

definition authorization_request ::
  "str \<Rightarrow> str \<Rightarrow> str \<Rightarrow> str option \<Rightarrow> str option \<Rightarrow> json" where
  "authorization_request client_id redirect_uri challenge scope st =
     (let params = smap_puts [] [(''response_type'', JStr ''code''), (''client_id'', JStr client_id),
                                 (''redirect_uri'', JStr redirect_uri), (''code_challenge'', JStr challenge),
                                 (''code_challenge_method'', JStr CODE_CHALLENGE_METHOD)]
      in JObj (put_opt_str ''state'' st (put_opt_str ''scope'' scope params)))"

definition token_request :: "str \<Rightarrow> str \<Rightarrow> str \<Rightarrow> str \<Rightarrow> json" where
  "token_request client_id code redirect_uri code_verifier =
     jobj [(''grant_type'', JStr ''authorization_code''), (''client_id'', JStr client_id),
           (''code'', JStr code), (''redirect_uri'', JStr redirect_uri),
           (''code_verifier'', JStr code_verifier)]"

section \<open>Hops and trace context (\<open>observability.rs\<close>)\<close>

definition PROXY_HOPS_KEY :: str where "PROXY_HOPS_KEY = ''io.modelcontextprotocol/proxy-hops''"
definition TRACEPARENT :: str where "TRACEPARENT = ''traceparent''"
definition TRACESTATE :: str where "TRACESTATE = ''tracestate''"
definition BAGGAGE :: str where "BAGGAGE = ''baggage''"

definition proxy_hop :: "str \<Rightarrow> json" where
  "proxy_hop mode =
     jobj [(''name'', JStr PROXY_NAME), (''mode'', JStr mode), (''version'', JStr PROXY_VERSION),
           (''layers'', JArr (map jnat [1, 2, 3, 4, 5]))]"

definition append_hop :: "json \<Rightarrow> str \<Rightarrow> json" where
  "append_hop meta mode =
     (let hops = unwrap_or (get_array PROXY_HOPS_KEY meta) []
      in JObj (smap_put PROXY_HOPS_KEY (JArr (hops @ [proxy_hop mode])) (obj_or_empty meta)))"

definition make_traceparent :: "str \<Rightarrow> str \<Rightarrow> str" where
  "make_traceparent trace_id span_id = ''00-'' @ trace_id @ ''-'' @ span_id @ ''-01''"

text \<open>\<open>ids\<close> is what \<open>new_ids\<close> returns when the code calls it.\<close>

definition ensure_trace_context :: "json \<Rightarrow> str \<times> str \<Rightarrow> json" where
  "ensure_trace_context meta ids =
     (let ob = obj_or_empty meta
      in JObj (if smap_get TRACEPARENT ob = None
               then smap_put TRACEPARENT (JStr (make_traceparent (fst ids) (snd ids))) ob
               else ob))"

section \<open>Redacted capture (\<open>tap.rs\<close>)\<close>

definition MASK :: str where "MASK = ''***''"

text \<open>
  \<open>to_lowercase\<close> as far as a comparison with an ASCII word can see: ASCII letters, and the
  Kelvin sign (UTF-8 \<open>E2 84 AA\<close>), the one other character whose lowercase is an ASCII
  letter alone. Every other character lowercases to text that is not all ASCII.
\<close>

fun lower_word :: "str \<Rightarrow> str" where
  "lower_word (a # b # c # s) =
     (if [a, b, c] = map char_of [0xE2, 0x84, 0xAA :: nat] then CHR ''k'' # lower_word s
      else lower_char a # lower_word (b # c # s))"
| "lower_word s = map lower_char s"

definition is_sensitive :: "str \<Rightarrow> bool" where
  "is_sensitive key \<longleftrightarrow>
     lower_word key \<in> set [''authorization'', ''token'', ''secret'', ''password'', ''apikey'', ''api_key'',
                          ''credential'', ''claims'']"

fun redact :: "json \<Rightarrow> json" where
  "redact (JObj ob) =
     JObj (smap_puts [] (map (\<lambda>(k, v). (k, if is_sensitive k then JStr MASK else redact v)) ob))"
| "redact (JArr vs) = JArr (map redact vs)"
| "redact v = v"

definition capture :: "str \<Rightarrow> json \<Rightarrow> json" where
  "capture direction message =
     jobj [(''direction'', JStr direction), (''method'', get_or_null ''method'' message),
           (''id'', get_or_null ''id'' message), (''message'', redact message)]"

text \<open>Every value under a sensitive key, at any depth, is the mask.\<close>

fun masked :: "json \<Rightarrow> bool" where
  "masked (JObj ob) = (\<forall>(k, v) \<in> set ob. if is_sensitive k then v = JStr MASK else masked v)"
| "masked (JArr vs) = (\<forall>v \<in> set vs. masked v)"
| "masked v = True"

lemma redact_entry:
  "smap_get k (smap_puts [] (map (\<lambda>(k, v). (k, f k v)) ob)) = map_option (f k) (smap_get k ob)"
  if "smap_wf ob"
proof -
  have "smap_wf (map (\<lambda>(k, v). (k, f k v)) ob)"
    using that by (simp add: smap_wf_def comp_def case_prod_beta)
  moreover have "smap_get k (map (\<lambda>(k, v). (k, f k v)) ob) = map_option (f k) (smap_get k ob)"
    by (induction ob) auto
  ultimately show ?thesis by (simp add: smap_get_puts_wf split: option.splits)
qed

lemma smap_puts_same: "smap_wf m \<Longrightarrow> smap_puts [] m = m"
  by (rule smap_ext) (simp_all add: smap_wf_puts smap_get_puts_wf split: option.splits)

lemma redact_obj: "smap_wf ob \<Longrightarrow>
    redact (JObj ob) = JObj (map (\<lambda>(k, v). (k, if is_sensitive k then JStr MASK else redact v)) ob)"
proof -
  assume wf: "smap_wf ob"
  have "smap_wf (map (\<lambda>(k, v). (k, if is_sensitive k then JStr MASK else redact v)) ob)"
    using wf by (simp add: smap_wf_def comp_def case_prod_beta)
  then show ?thesis by (simp add: smap_puts_same)
qed

lemma redact_masked: "wf_json v \<Longrightarrow> masked (redact v)"
proof (induction v rule: redact.induct)
  case (1 ob)
  then show ?case by (fastforce simp: redact_obj simp del: redact.simps)
qed auto

lemma redact_fixed: "wf_json v \<Longrightarrow> masked v \<Longrightarrow> redact v = v"
proof (induction v rule: redact.induct)
  case (1 ob)
  have "map (\<lambda>(k, v). (k, if is_sensitive k then JStr MASK else redact v)) ob = ob"
    using 1 by (intro map_idI) (force split: if_splits)
  then show ?case using 1 by (simp add: redact_obj del: redact.simps)
next
  case (2 vs)
  then show ?case by (auto intro: map_idI)
qed auto

lemma redact_wf: "wf_json v \<Longrightarrow> wf_json (redact v)"
proof (induction v rule: redact.induct)
  case (1 ob)
  then have "smap_wf (map (\<lambda>(k, v). (k, if is_sensitive k then JStr MASK else redact v)) ob)"
    by (simp add: smap_wf_def comp_def case_prod_beta)
  then show ?case using 1 by (fastforce simp: redact_obj simp del: redact.simps)
qed auto

definition path_sensitive :: "json list \<Rightarrow> bool" where
  "path_sensitive p \<longleftrightarrow> list_ex (\<lambda>s. case s of JStr k \<Rightarrow> is_sensitive k | _ \<Rightarrow> False) p"

lemma smap_get_redacted:
  "smap_get k (map (\<lambda>(k, v). (k, if is_sensitive k then JStr MASK else redact v)) ob) =
     map_option (\<lambda>v. if is_sensitive k then JStr MASK else redact v) (smap_get k ob)"
  by (induction ob) auto

lemma get_at_redact:
  "wf_json v \<Longrightarrow> \<not> path_sensitive p \<Longrightarrow> get_at p (redact v) = map_option redact (get_at p v)"
proof (induction p v rule: get_at.induct)
  case (2 k p ob)
  have "wf_json w" if "smap_get k ob = Some w" for w
    using 2 wf_json_get [of "JObj ob" k w] that by simp
  then show ?case
    using 2 by (auto simp: redact_obj smap_get_redacted path_sensitive_def simp del: redact.simps
        split: Option.bind_splits option.splits)
next
  case (3 n p vs)
  then show ?case by (auto simp: path_sensitive_def split: option.splits)
qed (auto simp: path_sensitive_def)

section \<open>The bind gate (\<open>security.rs\<close>) and the latency budget (\<open>instrument.rs\<close>)\<close>

definition LEVEL_ERROR :: str where "LEVEL_ERROR = ''error''"
definition DEFAULT_BIND_HOST :: str where "DEFAULT_BIND_HOST = ''127.0.0.1''"

definition is_loopback :: "str \<Rightarrow> bool" where
  "is_loopback host =
     (let h = lower_word (trim_str host)
      in if h = ''localhost'' \<or> h = ''::1'' \<or> h = ''[::1]'' then True else starts_with ''127.'' h)"

definition bind_message :: "str \<Rightarrow> str" where
  "bind_message host =
     ''refusing to bind non-loopback address '' @ host @ '' without client authentication; bind '' @
     DEFAULT_BIND_HOST @ '', set auth.clientTokens, or pass --insecure''"

definition check_bind :: "str \<Rightarrow> bool \<Rightarrow> json list" where
  "check_bind host has_client_auth =
     (if is_loopback host \<or> has_client_auth then []
      else [jobj [(''level'', JStr LEVEL_ERROR), (''code'', JStr ''insecure-bind''),
                  (''message'', JStr (bind_message host))]])"

definition bind_host :: "str \<Rightarrow> str" where
  "bind_host listen = unwrap_or (map_option fst (rsplit_once '':'' listen)) listen"

definition guard_bind :: "str \<Rightarrow> bool \<Rightarrow> bool \<Rightarrow> str option" where
  "guard_bind listen has_client_auth insecure =
     (let findings = check_bind (bind_host listen) has_client_auth
      in if findings \<noteq> [] \<and> \<not> insecure then as_str (jindex (hd findings) ''message'') else None)"

definition LATENCY_BUDGET_MS :: f64 where "LATENCY_BUDGET_MS = Fin 10"

definition within_budget :: "f64 \<Rightarrow> bool" where
  "within_budget added_latency_ms \<longleftrightarrow> f64_le added_latency_ms LATENCY_BUDGET_MS"

text \<open>The line \<open>attempt\<close> appends to the record file; the two gates are \<open>u32\<close>s.\<close>

definition attempt_line :: "str \<Rightarrow> u32 \<Rightarrow> u32 \<Rightarrow> str \<Rightarrow> str" where
  "attempt_line arm gate_before gate_after kind =
     ''{\"arm\":\"'' @ arm @ ''\",\"gate_after\":'' @ show_nat (unat gate_after) @
     '',\"gate_before\":'' @ show_nat (unat gate_before) @ '',\"kind\":\"'' @ kind @ ''\"}'' @ [char_of (10 :: nat)]"

text \<open>A session record on a file system: the files by path. What the directory of a path is, and what
  goes wrong, are the system's: creating the directories, opening the file, or writing, when
  only some bytes of the line have been written.\<close>

record session_record =
  sr_path :: str
  sr_arm :: str

definition session_record_new ::
  "(str \<Rightarrow> str option) \<Rightarrow> (str \<Rightarrow> io_error option) \<Rightarrow> str \<Rightarrow> str \<Rightarrow> io_error + session_record" where
  "session_record_new parent create_dirs path arm =
     (case Option.bind (parent path) create_dirs of
        Some e \<Rightarrow> Inl e
      | None \<Rightarrow> Inr \<lparr>sr_path = path, sr_arm = arm\<rparr>)"

definition session_record_attempt ::
  "io_error option \<Rightarrow> (nat \<times> io_error) option \<Rightarrow> u32 \<Rightarrow> u32 \<Rightarrow> str \<Rightarrow> session_record \<Rightarrow> (str, str) smap \<Rightarrow>
     (io_error + unit) \<times> (str, str) smap" where
  "session_record_attempt opening writing gate_before gate_after kind r fs =
     (case opening of
        Some e \<Rightarrow> (Inl e, fs)
      | None \<Rightarrow>
          (let old = unwrap_or (smap_get (sr_path r) fs) [];
               line = attempt_line (sr_arm r) gate_before gate_after kind
           in case writing of
                Some (n, e) \<Rightarrow> (Inl e, smap_put (sr_path r) (old @ take n line) fs)
              | None \<Rightarrow> (Inr (), smap_put (sr_path r) (old @ line) fs)))"

text \<open>The record is append-only, and nothing else is written.\<close>

lemma session_record_appends:
  assumes "session_record_attempt opening writing a b kind r fs = (res, fs')"
  shows "\<exists>new. unwrap_or (smap_get (sr_path r) fs') [] = unwrap_or (smap_get (sr_path r) fs) [] @ new"
    and "path \<noteq> sr_path r \<Longrightarrow> smap_get path fs' = smap_get path fs"
    and "res = Inr () \<Longrightarrow> smap_get (sr_path r) fs' =
      Some (unwrap_or (smap_get (sr_path r) fs) [] @ attempt_line (sr_arm r) a b kind)"
  using assms
  by (auto simp: session_record_attempt_def Let_def smap_get_put unwrap_or_def split: option.splits prod.splits)

section \<open>Properties\<close>

text \<open>The credential a backend receives in \<open>_meta\<close> never depends on the client's: it is
  the proxy's own token for that backend, or absent; every other key is passed through.\<close>
theorem client_credential_never_forwarded:
  "forward_meta (jput AUTHORIZATION_META_KEY x meta) token = forward_meta meta token \<and>
   jget AUTHORIZATION_META_KEY (forward_meta meta token) = map_option (\<lambda>t. JStr (''Bearer '' @ t)) token \<and>
   (if k = AUTHORIZATION_META_KEY then True else jget k (forward_meta meta token) = jget k meta)"
proof -
  have "smap_del AUTHORIZATION_META_KEY (smap_put AUTHORIZATION_META_KEY x ob) =
      smap_del AUTHORIZATION_META_KEY ob" for ob
    by (induction ob) (auto simp: smap_del_def)
  then have "forward_meta (jput AUTHORIZATION_META_KEY x meta) token = forward_meta meta token"
    by (cases meta) (simp_all add: forward_meta_def obj_or_empty_def)
  moreover have "smap_get k (obj_or_empty meta) = jget k meta"
    by (simp add: obj_or_empty_def json_simps)
  ultimately show ?thesis
    by (auto simp: forward_meta_def Let_def store_simps split: option.splits)
qed

text \<open>The headers sent to a backend: a header is the client's exactly when a rule of that
  backend targets it and the client sent the source header (the last such rule decides), and
  otherwise only \<open>Authorization\<close> is set, to the backend's own token. A rule that targets
  \<open>Authorization\<close> therefore overrides the injected credential with a client header.\<close>
theorem backend_headers_decided:
  "smap_get h (backend_headers p b client) =
     (case forwarded client (unwrap_or (smap_get b (forward_headers p)) []) h of
        Some v \<Rightarrow> Some v
      | None \<Rightarrow> if h = AUTHORIZATION then map_option (\<lambda>t. ''Bearer '' @ t) (smap_get b (backend_tokens p))
                else None)"
proof -
  let ?inj = "case smap_get b (backend_tokens p) of
      Some token \<Rightarrow> smap_put AUTHORIZATION (''Bearer '' @ token) [] | None \<Rightarrow> []"
  have "backend_headers p b client =
      foldl (forward_step client) ?inj (unwrap_or (smap_get b (forward_headers p)) [])"
    by (simp add: backend_headers_def Let_def split: option.splits)
  then show ?thesis by (simp add: forward_rules_get split: option.splits)
qed

text \<open>A capture masks every value under a sensitive key at every depth; along a path
  without a sensitive key it shows what the message holds there, redacted in turn; and a
  redacted message is redacted to itself.\<close>
theorem redact_masks_exactly:
  assumes "wf_json m"
  shows "masked (redact m) \<and> redact (redact m) = redact m \<and>
    (path_sensitive p \<or> get_at p (redact m) = map_option redact (get_at p m))"
  using redact_masked [OF assms] redact_fixed [OF redact_wf [OF assms]] get_at_redact [OF assms] by blast

theorem redact_masks_exactly_witness:
  "redact (jobj [(''params'', jobj [(''apiKey'', JStr ''k''), (''name'', JStr ''n'')])]) =
     jobj [(''params'', jobj [(''apiKey'', JStr MASK), (''name'', JStr ''n'')])] \<and>
   masked (redact (jobj [(''params'', jobj [(''apiKey'', JStr ''k''), (''name'', JStr ''n'')])]))"
proof
  show "redact (jobj [(''params'', jobj [(''apiKey'', JStr ''k''), (''name'', JStr ''n'')])]) =
     jobj [(''params'', jobj [(''apiKey'', JStr MASK), (''name'', JStr ''n'')])]" by code_simp
  show "masked (redact (jobj [(''params'', jobj [(''apiKey'', JStr ''k''), (''name'', JStr ''n'')])]))"
    using redact_masks_exactly [of "jobj [(''params'', jobj [(''apiKey'', JStr ''k''), (''name'', JStr ''n'')])]"]
    by (simp add: wf_json_jobj)
qed

text \<open>A bind is refused exactly when the host is not loopback, the client is not
  authenticated and the override is off. The loopback test reads a prefix, so a name such as
  \<open>127.example.com\<close> passes the gate although it is no address of \<open>127.0.0.0/8\<close>.\<close>
theorem guard_bind_decides:
  "(guard_bind listen auth insecure = None \<longleftrightarrow> insecure \<or> auth \<or> is_loopback (bind_host listen)) \<and>
   guard_bind ''127.example.com:80'' False False = None \<and> guard_bind ''0.0.0.0:80'' False False \<noteq> None"
proof (intro conjI)
  show "guard_bind listen auth insecure = None \<longleftrightarrow> insecure \<or> auth \<or> is_loopback (bind_host listen)"
    by (auto simp: guard_bind_def check_bind_def Let_def json_simps)
  have h: "bind_host ''127.example.com:80'' = ''127.example.com''" "bind_host ''0.0.0.0:80'' = ''0.0.0.0''"
    by code_simp+
  have "trimmed ''127.example.com''" "trimmed ''0.0.0.0''" by (simp_all add: trimmed_eval)
  then have t: "trim_str ''127.example.com'' = ''127.example.com''" "trim_str ''0.0.0.0'' = ''0.0.0.0''"
    using trim_str_trimmed by blast+
  have "starts_with ''127.'' (lower_word ''127.example.com'')" by code_simp
  then show "guard_bind ''127.example.com:80'' False False = None"
    by (simp add: guard_bind_def check_bind_def is_loopback_def h t Let_def)
  have "lower_word ''0.0.0.0'' = ''0.0.0.0''" "\<not> starts_with ''127.'' ''0.0.0.0''" by code_simp+
  then show "guard_bind ''0.0.0.0:80'' False False \<noteq> None"
    by (simp add: guard_bind_def check_bind_def is_loopback_def h t Let_def json_simps)
qed

text \<open>The PKCE challenge of a verifier is 43 characters of the URL alphabet without
  padding, and decodes to the SHA-256 of the verifier.\<close>
theorem code_challenge_decodes:
  "base64_decode (code_challenge verifier) = Some (sha256 (bytes_of verifier)) \<and>
   length (code_challenge verifier) = 43"
proof -
  have len: "length (encode_with URL bs False) = 4 * (length bs div 3) + (case length bs mod 3 of 0 \<Rightarrow> 0 | Suc k \<Rightarrow> k + 2)"
    for bs
    by (induction bs rule: chunks3.induct) (auto simp: encode_with_def encode_chunk_def Let_def)
  show ?thesis
    using len [of "sha256 (bytes_of verifier)"]
    by (simp add: code_challenge_def encode_url_nopad_def base64_decode_def decode_encode_loop
        alphabets_ok sha256_length)
qed

end
