(* ===== verification/Framing.thy ===== *)
theory Framing
  imports Prelude
begin

text \<open>
  The transports of \<open>src/src/transport/\<close> (newline-delimited, Content-Length and
  server-sent-event framing) and the relay of \<open>src/src/relay.rs\<close>. A reader works on the
  bytes that are still to come until end of stream; \<open>receive\<close> returns its result and the bytes it
  left. A writer is the bytes it writes. Errors of the underlying stream itself are not
  modelled: a stream is its content. The locale \<open>framing\<close> is the contract of a transport, and
  the relay is proved against it, for every pair of transports.
\<close>

abbreviation NL :: char where "NL \<equiv> CHR 0x0A"
abbreviation CR :: char where "CR \<equiv> CHR 0x0D"

type_synonym received = "(io_error + str option) \<times> str"

text \<open>\<open>read_until\<close>: the bytes up to and including the delimiter, and the rest.\<close>

fun read_until :: "char \<Rightarrow> str \<Rightarrow> str \<times> str" where
  "read_until d [] = ([], [])"
| "read_until d (c # cs) =
     (if c = d then ([c], cs) else (let (a, b) = read_until d cs in (c # a, b)))"

lemma read_until_append: "read_until d s = (a, b) \<Longrightarrow> s = a @ b"
  by (induction d s arbitrary: a rule: read_until.induct) (auto split: if_splits prod.splits)

lemma read_until_line: "d \<notin> set p \<Longrightarrow> read_until d (p @ d # rest) = (p @ [d], rest)"
  by (induction p) auto

lemma read_until_shorter: "read_until d s = (a, b) \<Longrightarrow> a \<noteq> [] \<Longrightarrow> length b < length s"
  using read_until_append by fastforce

lemma read_until_rest: "x = read_until d s \<Longrightarrow> (a, b) = x \<Longrightarrow> a \<noteq> [] \<Longrightarrow> length b < length s"
  using read_until_shorter by metis

lemma read_until_Nil: "read_until d s = ([], b) \<Longrightarrow> s = [] \<and> b = []"
  by (cases s) (auto split: if_splits prod.splits)

section \<open>Newline-delimited framing\<close>

definition line_receive :: "str \<Rightarrow> received" where
  "line_receive s =
     (let (buf, rest) = read_until NL s
      in if buf = [] then (Inr None, rest)
         else (Inr (Some (if last buf = NL then butlast buf else buf)), rest))"

definition line_send :: "str \<Rightarrow> str" where
  "line_send payload = payload @ [NL]"

section \<open>Content-Length framing\<close>

definition MAX_FRAME_BYTES :: nat where "MAX_FRAME_BYTES = 64 * 1024 * 1024"

definition is_ascii_whitespace :: "char \<Rightarrow> bool" where
  "is_ascii_whitespace c \<longleftrightarrow> c = CHR '' '' \<or> c = CHR 0x09 \<or> c = NL \<or> c = CHR 0x0C \<or> c = CR"

definition trim_bytes :: "str \<Rightarrow> str" where
  "trim_bytes bytes =
     rev (dropWhile is_ascii_whitespace (rev (dropWhile is_ascii_whitespace bytes)))"

definition strip_cr :: "str \<Rightarrow> str" where
  "strip_cr line = (if line \<noteq> [] \<and> last line = CR then butlast line else line)"

text \<open>The loop over the header's lines.\<close>

fun scan_length :: "str list \<Rightarrow> io_error + nat" where
  "scan_length [] = Inl (IoError InvalidData ''missing Content-Length header'')"
| "scan_length (raw # lines) =
     (case split_once '':'' (strip_cr raw) of
        None \<Rightarrow> scan_length lines
      | Some (name, rest) \<Rightarrow>
          if ascii_lower (trim_bytes name) = ''content-length'' then
            (case parse_unsigned (2 ^ 64 - 1) (trim_bytes rest) of
               None \<Rightarrow> Inl (IoError InvalidData ''invalid Content-Length'')
             | Some n \<Rightarrow>
                 if MAX_FRAME_BYTES < n
                 then Inl (IoError InvalidData ''Content-Length exceeds maximum'') else Inr n)
          else scan_length lines)"

definition parse_content_length :: "str \<Rightarrow> io_error + nat" where
  "parse_content_length header = scan_length (split_on NL header)"

function read_header :: "str \<Rightarrow> str \<Rightarrow> str option \<times> str" where
  "read_header s header =
     (let (line, rest) = read_until NL s
      in if line = [] then (None, rest)
         else if line = [CR, NL] \<or> line = [NL] then (Some header, rest)
         else read_header rest (header @ line))"
  by pat_completeness auto
termination
proof (relation "measure (\<lambda>(s, h). length s)")
  fix s header :: str and x line rest
  assume "x = read_until NL s" "(line, rest) = x" "line \<noteq> []"
  then show "((rest, header @ line), s, header) \<in> measure (\<lambda>(s, h). length s)"
    using read_until_shorter [of NL s line rest] by simp
qed simp

declare read_header.simps [simp del]

definition framed_receive :: "str \<Rightarrow> received" where
  "framed_receive s =
     (case read_header s [] of
        (None, rest) \<Rightarrow> (Inr None, rest)
      | (Some header, rest) \<Rightarrow>
          (case parse_content_length header of
             Inl e \<Rightarrow> (Inl e, rest)
           | Inr n \<Rightarrow>
               if n \<le> length rest then (Inr (Some (take n rest)), drop n rest) else (Inr None, [])))"

definition framed_send :: "str \<Rightarrow> str" where
  "framed_send payload = ''Content-Length: '' @ show_nat (length payload) @ [CR, NL, CR, NL] @ payload"

section \<open>Server-sent events\<close>

definition field_value :: "str \<Rightarrow> str" where
  "field_value line =
     (let value = drop 5 line in if value \<noteq> [] \<and> hd value = CHR '' '' then tl value else value)"

function sse_loop :: "str \<Rightarrow> str list \<Rightarrow> received" where
  "sse_loop s data =
     (let (raw, rest) = read_until NL s
      in if raw = [] then (Inr (if data = [] then None else Some (join_with [NL] data)), rest)
         else
           (let line = strip_cr (if last raw = NL then butlast raw else raw)
            in if line = [] then
                 (if data \<noteq> [] then (Inr (Some (join_with [NL] data)), rest) else sse_loop rest data)
               else if hd line = CHR '':'' then sse_loop rest data
               else if starts_with ''data:'' line then sse_loop rest (data @ [field_value line])
               else sse_loop rest data))"
  by pat_completeness auto
termination
  by (relation "measure (\<lambda>(s, d). length s)", rule wf_measure)
    (unfold in_measure prod.case, (erule read_until_rest; assumption)+)

declare sse_loop.simps [simp del]

definition sse_receive :: "str \<Rightarrow> received" where
  "sse_receive s = sse_loop s []"

definition sse_send :: "str \<Rightarrow> str" where
  "sse_send payload = concat (map (\<lambda>part. ''data: '' @ part @ [NL]) (split_on NL payload)) @ [NL]"

section \<open>The contract of a transport\<close>

locale framing =
  fixes send :: "str \<Rightarrow> str"
    and receive :: "str \<Rightarrow> received"
    and carries :: "str \<Rightarrow> bool"
  assumes receive_send: "carries p \<Longrightarrow> receive (send p @ rest) = (Inr (Some p), rest)"
    and receive_end: "receive [] = (Inr None, [])"
    and receive_progress: "receive s = (Inr (Some m), rest) \<Longrightarrow> length rest < length s"
begin

lemma send_inject: "carries p \<Longrightarrow> carries q \<Longrightarrow> send p = send q \<Longrightarrow> p = q"
  using receive_send [of p "[]"] receive_send [of q "[]"] by simp

text \<open>No message is a prefix of another: the boundaries are in the bytes.\<close>

lemma send_prefix_free:
  assumes "carries p" "carries q" "send p @ r = send q @ r'"
  shows "p = q \<and> r = r'"
  using receive_send [OF assms(1), of r] receive_send [OF assms(2), of r'] unfolding assms(3) by simp

end

section \<open>The relay\<close>

text \<open>
  \<open>pump\<close>: what one direction wrote, with its result. \<open>fuel\<close> bounds the messages; \<open>None\<close>
  means that it ran out.
\<close>

fun pump :: "nat \<Rightarrow> (str \<Rightarrow> received) \<Rightarrow> (str \<Rightarrow> str) \<Rightarrow> str \<Rightarrow> str \<Rightarrow> ((io_error + unit) \<times> str) option" where
  "pump 0 receive send s out = None"
| "pump (Suc n) receive send s out =
     (case receive s of
        (Inl e, _) \<Rightarrow> Some (Inl e, out)
      | (Inr None, _) \<Rightarrow> Some (Inr (), out)
      | (Inr (Some message), rest) \<Rightarrow> pump n receive send rest (out @ send message))"

locale bridge = src: framing send_a receive_a carries_a + dst: framing send_b receive_b carries_b
  for send_a receive_a carries_a send_b receive_b carries_b
begin

lemma pump_bridges:
  "list_all carries_a ps \<Longrightarrow> length ps < n \<Longrightarrow>
     pump n receive_a send_b (concat (map send_a ps)) out = Some (Inr (), out @ concat (map send_b ps))"
proof (induction ps arbitrary: n out)
  case Nil
  then show ?case by (cases n) (simp_all add: src.receive_end)
next
  case (Cons p ps)
  then show ?case by (cases n) (simp_all add: src.receive_send)
qed

lemma pump_returns: "length s < n \<Longrightarrow> pump n receive_a send_b s out \<noteq> None"
proof (induction n arbitrary: s out)
  case (Suc n)
  show ?case
  proof (cases "\<exists>m rest. receive_a s = (Inr (Some m), rest)")
    case True
    then obtain m rest where r: "receive_a s = (Inr (Some m), rest)" by blast
    then have "length rest < n" using src.receive_progress Suc.prems by fastforce
    then show ?thesis using Suc.IH r by simp
  next
    case False
    then show ?thesis by (auto split: prod.splits sum.splits option.splits)
  qed
qed simp

end

section \<open>The three transports keep the contract\<close>

datatype transport = Line | Framed | Sse

fun frame_send :: "transport \<Rightarrow> str \<Rightarrow> str" where
  "frame_send Line = line_send"
| "frame_send Framed = framed_send"
| "frame_send Sse = sse_send"

fun frame_receive :: "transport \<Rightarrow> str \<Rightarrow> received" where
  "frame_receive Line = line_receive"
| "frame_receive Framed = framed_receive"
| "frame_receive Sse = sse_receive"

text \<open>What each carries: no newline; at most the frame limit; no line that ends in a return.\<close>

fun carries :: "transport \<Rightarrow> str \<Rightarrow> bool" where
  "carries Line p = (NL \<notin> set p)"
| "carries Framed p = (length p \<le> MAX_FRAME_BYTES)"
| "carries Sse p = list_all (\<lambda>part. \<not> ends_with [CR] part) (split_on NL p)"

lemma line_receive_send: "NL \<notin> set p \<Longrightarrow> line_receive (line_send p @ rest) = (Inr (Some p), rest)"
  by (simp add: line_receive_def line_send_def read_until_line)

text \<open>Reading one header line and the blank line.\<close>

lemma read_header_own:
  assumes "NL \<notin> set h" "h \<noteq> []" "h \<noteq> [CR]"
  shows "read_header (h @ [CR, NL, CR, NL] @ rest) [] = (Some (h @ [CR, NL]), rest)"
proof -
  have "read_until NL ((h @ [CR]) @ NL # [CR, NL] @ rest) = ((h @ [CR]) @ [NL], [CR, NL] @ rest)"
    using assms(1) by (intro read_until_line) auto
  then have 1: "read_until NL (h @ [CR, NL, CR, NL] @ rest) = (h @ [CR, NL], [CR, NL] @ rest)" by simp
  have 2: "read_until NL ([CR, NL] @ rest) = ([CR, NL], rest)" by simp
  have ne: "h @ [CR, NL] \<noteq> [CR, NL]" "h @ [CR, NL] \<noteq> [NL]" using assms(2) by auto
  show ?thesis
    unfolding read_header.simps [of "h @ [CR, NL, CR, NL] @ rest"] 1 Let_def prod.case
      read_header.simps [of "[CR, NL] @ rest"] 2
    using ne by simp
qed

lemma digit_facts:
  assumes "is_digit_char c"
  shows "c \<noteq> NL" "c \<noteq> CR" "c \<noteq> CHR '':''" "\<not> is_ascii_whitespace c"
  using assms by (auto simp: is_digit_char_def digit_val_def is_ascii_whitespace_def)

lemma show_nat_no: "c \<in> {NL, CR, CHR '':''} \<Longrightarrow> c \<notin> set (show_nat n)"
  using show_nat_digits digit_facts by blast

lemma parse_own_length:
  assumes "n \<le> MAX_FRAME_BYTES"
  shows "parse_content_length (''Content-Length: '' @ show_nat n @ [CR, NL]) = Inr n"
proof -
  let ?h = "''Content-Length: '' @ show_nat n"
  have nl: "NL \<notin> set (?h @ [CR])" using show_nat_no [of NL n] by simp
  have "split_on NL ((?h @ [CR]) @ NL # []) = [?h @ [CR], []]"
    using nl by (simp add: split_on_append_sep split_on_single del: append_assoc)
  then have sp: "split_on NL (''Content-Length: '' @ show_nat n @ [CR, NL]) = [?h @ [CR], []]" by simp
  have cr: "strip_cr (?h @ [CR]) = ?h" by (simp add: strip_cr_def)
  have once: "split_once '':'' ?h = Some (''Content-Length'', '' '' @ show_nat n)"
    using split_once_single [of "CHR '':''" "''Content-Length''" "'' '' @ show_nat n"] by simp
  have ne: "show_nat n \<noteq> []" by (subst show_nat.simps) simp
  have hd: "\<not> is_ascii_whitespace (hd (show_nat n))" "\<not> is_ascii_whitespace (last (show_nat n))"
    using show_nat_digits digit_facts(4) ne by (metis hd_in_set, metis last_in_set)
  have "dropWhile is_ascii_whitespace (show_nat n) = show_nat n"
    using hd(1) ne by (cases "show_nat n") simp_all
  moreover have "dropWhile is_ascii_whitespace (rev (show_nat n)) = rev (show_nat n)"
    using hd(2) ne by (cases "show_nat n" rule: rev_cases) simp_all
  ultimately have tr: "trim_bytes ('' '' @ show_nat n) = show_nat n"
    by (simp add: trim_bytes_def is_ascii_whitespace_def)
  have nm: "ascii_lower (trim_bytes ''Content-Length'') = ''content-length''" by code_simp
  have "n \<le> 2 ^ 64 - 1" using assms by (simp add: MAX_FRAME_BYTES_def)
  then have "parse_unsigned (2 ^ 64 - 1) (show_nat n) = Some n" by (rule parse_show_nat)
  then show ?thesis
    using assms unfolding parse_content_length_def sp scan_length.simps cr once option.case prod.case nm tr
    by simp
qed

lemma framed_receive_send:
  assumes "length p \<le> MAX_FRAME_BYTES"
  shows "framed_receive (framed_send p @ rest) = (Inr (Some p), rest)"
proof -
  let ?h = "''Content-Length: '' @ show_nat (length p)"
  have "read_header (?h @ [CR, NL, CR, NL] @ p @ rest) [] = (Some (?h @ [CR, NL]), p @ rest)"
    using show_nat_no [of NL "length p"] by (intro read_header_own) auto
  then show ?thesis
    using parse_own_length [OF assms] by (simp add: framed_receive_def framed_send_def)
qed

subsection \<open>Server-sent events\<close>

lemma sse_data_line:
  assumes "NL \<notin> set p"
  shows "sse_loop (''data: '' @ p @ NL # rest) data = sse_loop rest (data @ [strip_cr p])"
proof -
  have "NL \<notin> set (''data: '' @ p)" using assms by simp
  from read_until_line [OF this, of rest]
  have r: "read_until NL (''data: '' @ p @ NL # rest) = (''data: '' @ p @ [NL], rest)" by simp
  have l: "strip_cr (''data: '' @ p) = ''data: '' @ strip_cr p"
    by (cases p rule: rev_cases) (auto simp: strip_cr_def butlast_append)
  have bl: "butlast (''data: '' @ p @ [NL]) = ''data: '' @ p" by (simp add: butlast_append)
  have f: "field_value (''data: '' @ q) = q" for q by (simp add: field_value_def)
  have "starts_with ''data:'' (''data: '' @ q)" for q by (simp add: starts_with_iff)
  then show ?thesis
    by (subst sse_loop.simps, unfold r Let_def prod.case bl)
      (simp add: l [simplified] f [simplified])
qed

lemma sse_blank_line: "data \<noteq> [] \<Longrightarrow> sse_loop (NL # rest) data = (Inr (Some (join_with [NL] data)), rest)"
  by (subst sse_loop.simps) (simp add: strip_cr_def)

lemma sse_event:
  "list_all (\<lambda>p. NL \<notin> set p) ps \<Longrightarrow> data @ ps \<noteq> [] \<Longrightarrow>
     sse_loop (concat (map (\<lambda>part. ''data: '' @ part @ [NL]) ps) @ NL # rest) data =
       (Inr (Some (join_with [NL] (data @ map strip_cr ps))), rest)"
proof (induction ps arbitrary: data)
  case Nil
  then show ?case by (simp add: sse_blank_line)
next
  case (Cons p ps)
  then show ?case
    using sse_data_line [of p "concat (map (\<lambda>part. ''data: '' @ part @ [NL]) ps) @ NL # rest" data]
    by simp
qed

text \<open>What the reader returns for any payload: its lines, each without a final return.\<close>

lemma sse_receive_send:
  "sse_receive (sse_send p @ rest) = (Inr (Some (join_with [NL] (map strip_cr (split_on NL p)))), rest)"
proof -
  have "list_all (\<lambda>q. NL \<notin> set q) (split_on NL p)"
    unfolding list_all_iff by (rule ballI, erule split_on_no_sep)
  then show ?thesis using sse_event [of "split_on NL p" "[]" rest] by (simp add: sse_receive_def sse_send_def)
qed

lemma strip_cr_id: "\<not> ends_with [CR] l \<Longrightarrow> strip_cr l = l"
  by (auto simp: strip_cr_def ends_with_iff) (metis append_butlast_last_id)

subsection \<open>Every message uses up input\<close>

lemma sse_loop_step:
  assumes "read_until NL s = (raw, u)"
  shows "(\<exists>r. sse_loop s data = (r, u)) \<or> (raw \<noteq> [] \<and> (\<exists>d. sse_loop s data = sse_loop u d))"
  unfolding sse_loop.simps [of s] assms Let_def prod.case by (cases "raw = []") auto

lemma sse_loop_shrinks:
  "sse_loop s data = (r, rest) \<Longrightarrow> length rest \<le> length s \<and> (s = [] \<or> length rest < length s)"
proof (induction "length s" arbitrary: s data rule: less_induct)
  case less
  obtain raw u where ru: "read_until NL s = (raw, u)" by force
  have u: "length u \<le> length s" "s = [] \<or> length u < length s"
    using read_until_Nil [of NL s u] read_until_shorter [of NL s raw u] ru by (cases "raw = []"; auto)+
  from sse_loop_step [OF ru, of data] show ?case
  proof
    assume "\<exists>r. sse_loop s data = (r, u)"
    then show ?thesis using less.prems u by auto
  next
    assume "raw \<noteq> [] \<and> (\<exists>d. sse_loop s data = sse_loop u d)"
    then obtain d where "length u < length s" "sse_loop u d = (r, rest)"
      using less.prems read_until_shorter [OF ru] by auto
    then show ?thesis using less.hyps [of u d] by auto
  qed
qed

lemma read_header_shrinks:
  "read_header s h = (x, rest) \<Longrightarrow> length rest \<le> length s \<and> (s = [] \<or> length rest < length s)"
proof (induction s h rule: read_header.induct)
  case (1 s h)
  obtain line u where ru: "read_until NL s = (line, u)" by force
  show ?case
  proof (cases "line = []")
    case True
    then show ?thesis
      using "1.prems" read_until_Nil [of NL s u] ru by (subst (asm) read_header.simps) auto
  next
    case False
    note shorter = read_until_shorter [OF ru False]
    show ?thesis
      using "1.prems" False shorter "1.IH" [OF ru [symmetric] refl False]
      by (subst (asm) read_header.simps) (fastforce simp: ru Let_def split: if_splits)
  qed
qed

lemma receive_end: "frame_receive k [] = (Inr None, [])"
proof -
  have "read_header [] [] = (None, [])" "sse_loop [] [] = (Inr None, [])"
    by (subst read_header.simps, simp) (subst sse_loop.simps, simp)
  then show ?thesis by (cases k) (simp_all add: line_receive_def framed_receive_def sse_receive_def)
qed

lemma receive_progress:
  assumes "frame_receive k s = (Inr (Some m), rest)"
  shows "length rest < length s"
proof -
  have s: "s \<noteq> []" using assms receive_end by auto
  show ?thesis
  proof (cases k)
    case Line
    then show ?thesis
      using assms read_until_shorter [of NL s]
      by (auto simp: line_receive_def Let_def split: prod.splits if_splits)
  next
    case Framed
    obtain x u where h: "read_header s [] = (x, u)" by force
    then have "length u < length s" using read_header_shrinks s by blast
    then show ?thesis
      using assms Framed h
      by (auto simp: framed_receive_def split: option.splits sum.splits if_splits)
  next
    case Sse
    then show ?thesis using assms sse_loop_shrinks s by (auto simp: sse_receive_def)
  qed
qed

interpretation transports: framing "frame_send k" "frame_receive k" "carries k" for k
proof
  fix p rest
  assume "carries k p"
  then show "frame_receive k (frame_send k p @ rest) = (Inr (Some p), rest)"
  proof (cases k)
    case Sse
    then have "map strip_cr (split_on NL p) = split_on NL p"
      using \<open>carries k p\<close> by (intro map_idI) (simp add: list_all_iff strip_cr_id)
    then show ?thesis using Sse by (simp add: sse_receive_send)
  qed (simp_all add: line_receive_send framed_receive_send)
qed (rule receive_end, rule receive_progress)

interpretation relays: bridge "frame_send a" "frame_receive a" "carries a"
    "frame_send b" "frame_receive b" "carries b" for a b
  by unfold_locales

section \<open>Properties\<close>

text \<open>C24: Each transport returns the payload it was given and leaves what follows untouched,
  for every payload it carries; and the boundaries are in the bytes: no framed payload is a
  prefix of another.\<close>
theorem frame_roundtrip:
  assumes "carries k p" "carries k q"
  shows "frame_receive k (frame_send k p @ rest) = (Inr (Some p), rest) \<and>
    (if frame_send k p @ rest = frame_send k q @ rest' then p = q \<and> rest = rest' else True)"
  using transports.receive_send [OF assms(1)] transports.send_prefix_free [OF assms] by simp

theorem frame_roundtrip_witness:
  "frame_receive Framed (frame_send Framed ''a:b'' @ ''tail'') = (Inr (Some ''a:b''), ''tail'') \<and>
   frame_receive Sse (frame_send Sse ''a:b'' @ ''tail'') = (Inr (Some ''a:b''), ''tail'')"
proof -
  have c: "carries Framed ''a:b''" by (simp add: MAX_FRAME_BYTES_def)
  have d: "carries Sse ''a:b''" by code_simp
  show ?thesis using frame_roundtrip [OF c c, of "''tail''"] frame_roundtrip [OF d d, of "''tail''"] by simp
qed

text \<open>C25: The relay bridges any two transports: the messages of one side, framed its way,
  come out framed the other way, all of them, in order and unchanged, and the relay then ends
  normally; and on any input whatever the relay ends.\<close>
theorem relay_bridges_faithfully:
  assumes "list_all (carries a) ps" "length ps < n" "length s < m"
  shows "pump n (frame_receive a) (frame_send b) (concat (map (frame_send a) ps)) [] =
      Some (Inr (), concat (map (frame_send b) ps)) \<and>
    pump m (frame_receive a) (frame_send b) s [] \<noteq> None"
  using relays.pump_bridges [OF assms(1,2), where out = "[]"] relays.pump_returns [OF assms(3)] by simp

theorem relay_bridges_faithfully_witness:
  "pump 3 (frame_receive Line) (frame_send Sse) (concat (map (frame_send Line) [''a'', ''b''])) [] =
     Some (Inr (), concat (map (frame_send Sse) [''a'', ''b'']))"
proof -
  have l: "list_all (carries Line) [''a'', ''b'']" "length [''a'', ''b''] < 3" "length ([] :: str) < 1" by simp_all
  show ?thesis using relay_bridges_faithfully [OF l, where b = Sse] by simp
qed

text \<open>What a transport does to a payload it does not carry: server-sent events drop one
  return at the end of every line of the payload, and newline framing breaks the payload at its
  first newline. So the relay is not byte-faithful for those payloads.\<close>
theorem framing_losses:
  assumes "NL \<notin> set a"
  shows "frame_receive Sse (frame_send Sse p @ rest) =
      (Inr (Some (join_with [NL] (map strip_cr (split_on NL p)))), rest) \<and>
    frame_receive Line (frame_send Line (a @ NL # b) @ rest) = (Inr (Some a), frame_send Line b @ rest)"
  using assms by (simp add: sse_receive_send line_receive_def line_send_def read_until_line)

theorem framing_losses_witness:
  "frame_receive Sse (frame_send Sse (''x'' @ [CR]) @ []) = (Inr (Some ''x''), []) \<and>
   frame_receive Line (frame_send Line (''x'' @ NL # ''y'') @ []) = (Inr (Some ''x''), frame_send Line ''y'')"
proof -
  have a: "NL \<notin> set ''x''" by simp
  show ?thesis using framing_losses [OF a, of "''x'' @ [CR]" "[]" "''y''"] by (simp add: strip_cr_def)
qed

end
