(* ===== verification/Registry.thy ===== *)
theory Registry
  imports Namespace Errors Framing Cache
begin

text \<open>
  \<open>src/src/handler.rs\<close> (local handlers and their registry), \<open>server.rs\<close> (output cap, cache
  directives) and \<open>schema.rs\<close> (schema checks). A handler is a trait object: what its call
  returns is a function of the world so far (\<open>'w\<close>), of the name and of the arguments. The
  schema validator is the \<open>jsonschema\<close> crate: \<open>validator\<close> gives the check a schema compiles to,
  or nothing when the schema does not parse.
\<close>

section \<open>Handlers\<close>

record 'w handler =
  h_id :: str
  h_tools :: "json list"
  h_call :: "'w \<Rightarrow> str \<Rightarrow> json \<Rightarrow> json"

type_synonym 'w registry = "'w handler list"

fun check_ids :: "str set \<Rightarrow> 'w handler list \<Rightarrow> io_error option" where
  "check_ids seen [] = None"
| "check_ids seen (h # hs) =
     (if \<not> valid_backend_id (h_id h) then Some (IoError InvalidInput (''invalid handler id: '' @ h_id h))
      else if h_id h \<in> seen then Some (IoError InvalidInput (''duplicate handler id: '' @ h_id h))
      else check_ids (insert (h_id h) seen) hs)"

definition registry_new :: "'w handler list \<Rightarrow> io_error + 'w registry" where
  "registry_new handlers =
     (case check_ids {} handlers of Some e \<Rightarrow> Inl e | None \<Rightarrow> Inr handlers)"

definition registry_ids :: "'w registry \<Rightarrow> str set" where
  "registry_ids r = h_id ` set r"

definition handler_for :: "str \<Rightarrow> 'w registry \<Rightarrow> 'w handler option" where
  "handler_for i r = List.find (\<lambda>h. h_id h = i) r"

definition expose_tool :: "str \<Rightarrow> json \<Rightarrow> json" where
  "expose_tool i tool =
     (case get_str ''name'' tool of
        Some name \<Rightarrow> jput ''name'' (JStr (ns_prefix i name)) tool
      | None \<Rightarrow> tool)"

definition registry_tools :: "'w registry \<Rightarrow> json list" where
  "registry_tools r = concat (map (\<lambda>h. map (expose_tool (h_id h)) (h_tools h)) r)"

text \<open>The built-in \<open>yamp__backends\<close>; \<open>render\<close> is the JSON text of a value.\<close>

definition backends_handler :: "(json \<Rightarrow> str) \<Rightarrow> ('w \<Rightarrow> json) \<Rightarrow> 'w handler" where
  "backends_handler render provider =
     \<lparr>h_id = ''yamp'',
      h_tools = [jobj [(''name'', JStr ''backends''),
        (''description'', JStr ''List the backends this proxy fronts and their availability''),
        (''inputSchema'', jobj [(''type'', JStr ''object''), (''properties'', jobj [])])]],
      h_call = (\<lambda>w _ _. jobj [(''content'', JArr [jobj [(''type'', JStr ''text''),
                                                     (''text'', JStr (render (provider w)))]])])\<rparr>"

lemma check_ids_None:
  "check_ids seen hs = None \<longleftrightarrow>
     list_all valid_backend_id (map h_id hs) \<and> distinct (map h_id hs) \<and> seen \<inter> h_id ` set hs = {}"
  by (induction seen hs rule: check_ids.induct) auto

lemma handler_for_Some: "handler_for i r = Some h \<Longrightarrow> h \<in> set r \<and> h_id h = i"
  by (auto simp: handler_for_def find_Some_iff)

lemma handler_for_member:
  "distinct (map h_id r) \<Longrightarrow> h \<in> set r \<Longrightarrow> handler_for (h_id h) r = Some h"
  by (induction r) (auto simp: handler_for_def image_iff)

section \<open>Server-side limits and directives (\<open>server.rs\<close>)\<close>

definition MAX_OUTPUT_BYTES :: nat where "MAX_OUTPUT_BYTES = MAX_FRAME_BYTES"

definition exceeds_output_cap :: "(json \<Rightarrow> 'a list) \<Rightarrow> json \<Rightarrow> nat \<Rightarrow> bool" where
  "exceeds_output_cap enc result max_bytes =
     (if max_bytes = 0 then False else max_bytes < length (enc result))"

definition list_directives_value :: "nat \<Rightarrow> str \<Rightarrow> json" where
  "list_directives_value ttl_ms scope =
     JObj (smap_puts [] [(TTL_MS_KEY, jnat ttl_ms), (CACHE_SCOPE_KEY, JStr scope)])"

definition attach_directives :: "json \<Rightarrow> nat \<Rightarrow> str \<Rightarrow> json" where
  "attach_directives result ttl_ms scope =
     JObj (smap_puts (obj_or_empty result) [(TTL_MS_KEY, jnat ttl_ms), (CACHE_SCOPE_KEY, JStr scope)])"

section \<open>Schema checks (\<open>schema.rs\<close>)\<close>

type_synonym validator = "json \<Rightarrow> (json \<Rightarrow> bool) option"

definition is_valid :: "validator \<Rightarrow> json \<Rightarrow> json \<Rightarrow> bool" where
  "is_valid validator schema value = (case validator schema of Some ok \<Rightarrow> ok value | None \<Rightarrow> False)"

definition validate_call_args :: "validator \<Rightarrow> json option \<Rightarrow> json \<Rightarrow> json option" where
  "validate_call_args validator input_schema arguments =
     (case input_schema of
        Some schema \<Rightarrow>
          if \<not> is_valid validator schema arguments
          then Some (error_object INVALID_PARAMS (Some ''input schema validation failed''))
          else None
      | None \<Rightarrow> None)"

definition validate_call_result :: "validator \<Rightarrow> json option \<Rightarrow> json \<Rightarrow> json option" where
  "validate_call_result validator output_schema result =
     (case output_schema of
        Some schema \<Rightarrow>
          (let structured = unwrap_or (jget ''structuredContent'' result) JNull
           in if is_valid validator schema structured then None
              else Some (error_object INTERNAL_ERROR (Some ''output schema validation failed'')))
      | None \<Rightarrow> None)"

section \<open>Properties\<close>

text \<open>A registry is built exactly from handlers with valid, pairwise different ids; then
  each handler is the one its id finds, and a name exposed for it resolves to it and to the
  tool's own name (for ids without a final underscore and non-empty names).\<close>
theorem registry_dispatch:
  assumes "h \<in> set hs" "n \<noteq> []"
  shows "(registry_new hs = Inr hs \<longleftrightarrow>
      list_all valid_backend_id (map h_id hs) \<and> distinct (map h_id hs)) \<and>
    (registry_new hs \<noteq> Inr hs \<or> ends_with ''_'' (h_id h) \<or>
     ns_split (ns_prefix (h_id h) n) = Some (h_id h, n) \<and> handler_for (h_id h) hs = Some h)"
proof -
  have iff: "registry_new hs = Inr hs \<longleftrightarrow> list_all valid_backend_id (map h_id hs) \<and> distinct (map h_id hs)"
    using check_ids_None [of "{}" hs] by (auto simp: registry_new_def split: option.splits)
  moreover have "ns_split (ns_prefix (h_id h) n) = Some (h_id h, n) \<and> handler_for (h_id h) hs = Some h"
    if "registry_new hs = Inr hs" "\<not> ends_with ''_'' (h_id h)"
  proof -
    have "valid_backend_id (h_id h)" "distinct (map h_id hs)"
      using that(1) iff assms(1) by (auto simp: list_all_iff)
    then show ?thesis
      using tool_names.resolve_label [of "h_id h" n] handler_for_member assms that(2) by (simp add: name_ok_def)
  qed
  ultimately show ?thesis by blast
qed

theorem registry_dispatch_witness:
  "ns_split (ns_prefix ''yamp'' ''backends'') = Some (''yamp'', ''backends'') \<and>
   registry_new [backends_handler (\<lambda>_. []) (\<lambda>w :: unit. JNull)] =
     Inr [backends_handler (\<lambda>_. []) (\<lambda>w :: unit. JNull)]"
proof -
  let ?h = "backends_handler (\<lambda>_. []) (\<lambda>w :: unit. JNull)"
  have h: "?h \<in> set [?h]" "''backends'' \<noteq> []" by simp_all
  have i: "h_id ?h = ''yamp''" by (simp add: backends_handler_def)
  have v: "valid_backend_id ''yamp''" "\<not> ends_with ''_'' ''yamp''" by code_simp+
  show ?thesis using registry_dispatch [OF h] v by (auto simp: i)
qed

end
