(* ===== verification/RouterCore.thy ===== *)
theory RouterCore
  imports Registry Resilience Pool Tasks Capability Collision Policy
begin

text \<open>
  The state of the forward router of \<open>src/src/router.rs\<close> and its operations on one backend:
  availability, a request with its credential handling, the demultiplexing of what a backend
  sends. The route loop is serial; every message written is appended to \<open>rt_wire\<close> in the order
  of the writes. What lies outside the sources is in \<open>env\<close>: what becomes of a message to a
  backend (the write fails, a reply arrives, the timeout passes, the connection closes), as a
  function of everything written so far; the two clocks, by the number of times one was read;
  JSON text, Unicode lowercasing and the schema validator. Client writes are taken to succeed.
  A call of the worker pool and the run of a task are spawned tasks of the runtime: the model
  keeps them in \<open>rt_pool_calls\<close> and \<open>rt_task_runs\<close> until a step of \<open>RouterSession\<close> finishes
  them or an abort drops them.
\<close>

section \<open>State\<close>

datatype wire = ToBackend str json | ToClient json

datatype delivery = WriteFailed io_error | Replied json | ReplyTimedOut | ReplyClosed

record env =
  e_delivery :: "wire list \<Rightarrow> str \<Rightarrow> json \<Rightarrow> delivery"
  e_clock :: "nat \<Rightarrow> f64"
  e_now :: "nat \<Rightarrow> u64"
  e_enc :: "json \<Rightarrow> byte list"
  e_dec :: "byte list \<Rightarrow> json option"
  e_parse_error :: "byte list \<Rightarrow> str"
  e_lower :: "str \<Rightarrow> str"
  e_validator :: validator

record backend =
  b_id :: str
  b_next_id :: u64
  b_breaker :: "breaker option"
  b_token :: "str option"
  b_keywords :: "str list"
  b_capabilities :: json
  b_server_info :: "json option"

record pool_call =
  pc_handle :: nat
  pc_message :: json
  pc_id :: json
  pc_running :: bool

record task_run =
  tr_handle :: nat
  tr_message :: json
  tr_id :: json
  tr_task :: str

record router =
  rt_backends :: "backend list"
  rt_resilient :: bool
  rt_single :: bool
  rt_trace :: bool
  rt_disclose :: bool
  rt_threshold :: nat
  rt_surface :: "str set"
  rt_cache :: "list_cache option"
  rt_principal :: "str option"
  rt_server_requests :: "(str, str \<times> json) smap"
  rt_server_seq :: u64
  rt_reverse :: "(str, str \<times> str) smap"
  rt_audit :: "audit_log option"
  rt_strategy :: str
  rt_priority :: "str list"
  rt_overrides :: "(str, str) smap"
  rt_registry :: "wire list registry"
  rt_issuer :: "str option"
  rt_audience :: "str option"
  rt_variants :: "str list"
  rt_filters :: "filter_obj list option"
  rt_directives :: "(nat \<times> str) option"
  rt_validate :: bool
  rt_pool_enabled :: bool
  rt_pool_idle :: u64
  rt_pool_permits :: "nat option"
  rt_inflight :: in_flight
  rt_pool_tasks :: "(str, nat) smap"
  rt_pool_tokens :: "(str, json) smap"
  rt_server_tasks :: bool
  rt_tasks :: server_tasks
  rt_task_handles :: "(str, nat) smap"
  rt_pool_calls :: "pool_call list"
  rt_task_runs :: "task_run list"
  rt_call_seq :: nat
  rt_run_seq :: nat
  rt_subs_enabled :: bool
  rt_subs :: subscriptions
  rt_output_limit :: nat
  rt_wire :: "wire list"
  rt_ticks :: nat
  rt_trace_seq :: u64

definition emit :: "wire \<Rightarrow> router \<Rightarrow> router" where
  "emit w r = r\<lparr>rt_wire := rt_wire r @ [w]\<rparr>"

definition set_backend :: "nat \<Rightarrow> backend \<Rightarrow> router \<Rightarrow> router" where
  "set_backend i b r = r\<lparr>rt_backends := (rt_backends r)[i := b]\<rparr>"

section \<open>Clock, traces and names\<close>

definition clock :: "env \<Rightarrow> router \<Rightarrow> f64 \<times> router" where
  "clock env r = (e_clock env (rt_ticks r), r\<lparr>rt_ticks := Suc (rt_ticks r)\<rparr>)"

definition now_ms :: "env \<Rightarrow> router \<Rightarrow> u64 \<times> router" where
  "now_ms env r = (e_now env (rt_ticks r), r\<lparr>rt_ticks := Suc (rt_ticks r)\<rparr>)"

definition rpc_decode :: "env \<Rightarrow> byte list \<Rightarrow> io_error + json" where
  "rpc_decode env raw =
     (case e_dec env raw of
        Some v \<Rightarrow> Inr v | None \<Rightarrow> Inl (IoError InvalidData (e_parse_error env raw)))"

definition request_key :: "env \<Rightarrow> json \<Rightarrow> str" where
  "request_key env = id_key (\<lambda>v. str_of_bytes (e_enc env v))"

text \<open>\<open>{n:032x}\<close> and \<open>{n:016x}\<close>.\<close>

definition hex_pad :: "nat \<Rightarrow> nat \<Rightarrow> str" where
  "hex_pad w n = replicate (w - length (show_hex n)) (CHR ''0'') @ show_hex n"

definition trace_ids :: "router \<Rightarrow> (str \<times> str) \<times> router" where
  "trace_ids r =
     (let n = unat (rt_trace_seq r)
      in ((hex_pad 32 n, hex_pad 16 n), r\<lparr>rt_trace_seq := rt_trace_seq r + 1\<rparr>))"

datatype kind = Name | Uri

record capability =
  cap_list :: str
  cap_call :: str
  cap_collection :: str
  cap_field :: str
  cap_kind :: kind

definition CAPABILITIES :: "capability list" where
  "CAPABILITIES =
     [\<lparr>cap_list = ''tools/list'', cap_call = ''tools/call'', cap_collection = ''tools'',
       cap_field = ''name'', cap_kind = Name\<rparr>,
      \<lparr>cap_list = ''prompts/list'', cap_call = ''prompts/get'', cap_collection = ''prompts'',
       cap_field = ''name'', cap_kind = Name\<rparr>,
      \<lparr>cap_list = ''resources/list'', cap_call = ''resources/read'', cap_collection = ''resources'',
       cap_field = ''uri'', cap_kind = Uri\<rparr>]"

fun cap_label :: "kind \<Rightarrow> str \<Rightarrow> str \<Rightarrow> str" where
  "cap_label Name i value = ns_prefix i value"
| "cap_label Uri i value = prefix_uri i value"

fun cap_resolve :: "kind \<Rightarrow> str \<Rightarrow> (str \<times> str) option" where
  "cap_resolve Name value = ns_split value"
| "cap_resolve Uri value = split_uri value"

section \<open>One backend\<close>

definition backend_new :: "str \<Rightarrow> breaker option \<Rightarrow> io_error + backend" where
  "backend_new i breaker =
     (if \<not> valid_backend_id i then Inl (IoError InvalidInput (''invalid backend id: '' @ i))
      else Inr \<lparr>b_id = i, b_next_id = 0, b_breaker = breaker, b_token = None, b_keywords = [],
                b_capabilities = jobj [], b_server_info = None\<rparr>)"

definition available :: "env \<Rightarrow> nat \<Rightarrow> router \<Rightarrow> bool \<times> router" where
  "available env i r =
     (let b = rt_backends r ! i
      in case b_breaker b of
           None \<Rightarrow> (True, r)
         | Some br \<Rightarrow>
             (let (now, r) = clock env r; (ok, br) = allow now br
              in (ok, set_backend i (b\<lparr>b_breaker := Some br\<rparr>) r)))"

text \<open>The credential step of \<open>request\<close>: nothing when there is no token and no client credential.\<close>

definition guard_params :: "str option \<Rightarrow> json \<Rightarrow> json" where
  "guard_params token params =
     (let has_client_cred = (case Option.bind (jget ''_meta'' params) as_object of
                               Some m \<Rightarrow> smap_get AUTHORIZATION_META_KEY m \<noteq> None
                             | None \<Rightarrow> False)
      in if token \<noteq> None \<or> has_client_cred
         then jput ''_meta'' (forward_meta (unwrap_or (jget ''_meta'' params) (jobj [])) token) params
         else params)"

definition backend_request_value :: "backend \<Rightarrow> str \<Rightarrow> json \<Rightarrow> json" where
  "backend_request_value b method params =
     jobj [(''jsonrpc'', JStr ''2.0''),
           (''id'', JStr (b_id b @ ''-'' @ show_nat (unat (b_next_id b)))),
           (''method'', JStr method), (''params'', guard_params (b_token b) params)]"

definition closed_error :: "str \<Rightarrow> io_error" where
  "closed_error i = IoError ConnectionAborted (''backend '' @ i @ '' closed'')"

definition timed_out_error :: "str \<Rightarrow> io_error" where
  "timed_out_error i = IoError TimedOut (''backend '' @ i @ '' timed out'')"

text \<open>
  \<open>BackendHandle::request\<close>. A failed write returns at the \<open>?\<close>, before the breaker is told.
\<close>

definition record_breaker :: "env \<Rightarrow> nat \<Rightarrow> bool \<Rightarrow> router \<Rightarrow> router" where
  "record_breaker env i ok r =
     (let b = rt_backends r ! i
      in case b_breaker b of
           None \<Rightarrow> r
         | Some br \<Rightarrow>
             if ok then set_backend i (b\<lparr>b_breaker := Some (record_success br)\<rparr>) r
             else (let (now, r) = clock env r
                   in set_backend i (b\<lparr>b_breaker := Some (record_failure now br)\<rparr>) r))"

definition request :: "env \<Rightarrow> nat \<Rightarrow> str \<Rightarrow> json \<Rightarrow> router \<Rightarrow> (io_error + json) \<times> router" where
  "request env i method params r =
     (let b = rt_backends r ! i;
          message = backend_request_value b method params;
          sent = e_delivery env (rt_wire r) (b_id b) message;
          r = set_backend i (b\<lparr>b_next_id := b_next_id b + 1\<rparr>) r
      in case sent of
           WriteFailed e \<Rightarrow> (Inl e, r)
         | Replied v \<Rightarrow> (Inr v, record_breaker env i True (emit (ToBackend (b_id b) message) r))
         | ReplyTimedOut \<Rightarrow>
             (Inl (timed_out_error (b_id b)), record_breaker env i False (emit (ToBackend (b_id b) message) r))
         | ReplyClosed \<Rightarrow>
             (Inl (closed_error (b_id b)), record_breaker env i False (emit (ToBackend (b_id b) message) r)))"

text \<open>\<open>send_message\<close>; every caller of the route loop drops its result.\<close>

definition send_message :: "env \<Rightarrow> nat \<Rightarrow> json \<Rightarrow> router \<Rightarrow> io_error option \<times> router" where
  "send_message env i message r =
     (let bid = b_id (rt_backends r ! i)
      in case e_delivery env (rt_wire r) bid message of
           WriteFailed e \<Rightarrow> (Some e, r)
         | _ \<Rightarrow> (None, emit (ToBackend bid message) r))"

section \<open>What a backend sends\<close>

definition LIST_CHANGED_METHODS :: "str list" where
  "LIST_CHANGED_METHODS =
     [''notifications/tools/list_changed'', ''notifications/prompts/list_changed'',
      ''notifications/resources/list_changed'']"

text \<open>
  One message of a backend, as the reader task of \<open>start\<close> handles it: \<open>pending\<close> are the ids of
  the requests still waiting. The result is a reply for a pending request, or the state
  with a message put into the client sink.
\<close>

datatype inbound = ForPending str json | ForClient json

definition relabel_inbound :: "bool \<Rightarrow> str \<Rightarrow> json \<Rightarrow> json" where
  "relabel_inbound single i message =
     (if method_of message = Some TASK_EVENT_METHOD then namespace_event message i
      else if \<not> single \<and> method_of message = Some UPDATED_METHOD then namespace_updated message i
      else message)"

definition read_backend :: "str list \<Rightarrow> str \<Rightarrow> json \<Rightarrow> router \<Rightarrow> inbound \<times> router" where
  "read_backend pending i message r =
     (case (case get_str ''id'' message of Some k \<Rightarrow> if k \<in> set pending then Some k else None | None \<Rightarrow> None) of
        Some k \<Rightarrow> (ForPending k message, r)
      | None \<Rightarrow>
          if jget ''id'' message \<noteq> None \<and> method_of message \<noteq> None then
            (let n = rt_server_seq r + 1;
                 client_id = ''srv-'' @ show_nat (unat n);
                 original = unwrap_or (jget ''id'' message) JNull
             in (ForClient (jput ''id'' (JStr client_id) message),
                 r\<lparr>rt_server_seq := n,
                   rt_server_requests := smap_put client_id (i, original) (rt_server_requests r)\<rparr>))
          else
            (let r = (case rt_cache r of
                        Some c \<Rightarrow>
                          (case method_of message of
                             Some m \<Rightarrow> if m \<in> set LIST_CHANGED_METHODS
                                       then r\<lparr>rt_cache := Some (invalidate_backend i c)\<rparr> else r
                           | None \<Rightarrow> r)
                      | None \<Rightarrow> r)
             in (ForClient (relabel_inbound (rt_single r) i message), r)))"

definition receive_backend :: "str list \<Rightarrow> str \<Rightarrow> json \<Rightarrow> router \<Rightarrow> router" where
  "receive_backend pending i message r =
     (case read_backend pending i message r of
        (ForClient m, r) \<Rightarrow> emit (ToClient m) r
      | (ForPending _ _, r) \<Rightarrow> r)"

section \<open>Spawned tasks\<close>

text \<open>\<open>AbortHandle::abort\<close>: the task is dropped, and with it what it would still have done. A
  spawned task has a handle of its own, a number from one of two counters.\<close>

definition abort_call :: "nat \<Rightarrow> router \<Rightarrow> router" where
  "abort_call h r = r\<lparr>rt_pool_calls := filter (\<lambda>j. pc_handle j \<noteq> h) (rt_pool_calls r)\<rparr>"

definition abort_run :: "nat \<Rightarrow> router \<Rightarrow> router" where
  "abort_run h r = r\<lparr>rt_task_runs := filter (\<lambda>j. tr_handle j \<noteq> h) (rt_task_runs r)\<rparr>"

section \<open>Replies and notifications of the client\<close>

definition index_of :: "str \<Rightarrow> router \<Rightarrow> nat option" where
  "index_of i r = position (\<lambda>b. b_id b = i) (rt_backends r)"

definition send_to :: "env \<Rightarrow> str \<Rightarrow> json \<Rightarrow> router \<Rightarrow> router" where
  "send_to env i message r =
     (case index_of i r of Some k \<Rightarrow> snd (send_message env k message r) | None \<Rightarrow> r)"

definition route_client_reply :: "env \<Rightarrow> json \<Rightarrow> router \<Rightarrow> router" where
  "route_client_reply env message r =
     (case get_str ''id'' message of
        None \<Rightarrow> r
      | Some client_id \<Rightarrow>
          (case smap_get client_id (rt_server_requests r) of
             None \<Rightarrow> r
           | Some (backend_id, original) \<Rightarrow>
               send_to env backend_id (jput ''id'' original message)
                 (r\<lparr>rt_server_requests := smap_del client_id (rt_server_requests r)\<rparr>)))"

definition deliver_cancellation :: "env \<Rightarrow> json \<Rightarrow> json \<Rightarrow> router \<Rightarrow> router" where
  "deliver_cancellation env message request_id r =
     (case as_str request_id of
        None \<Rightarrow> r
      | Some key \<Rightarrow>
          (case smap_get key (rt_server_requests r) of
             None \<Rightarrow> r
           | Some (backend_id, original) \<Rightarrow>
               send_to env backend_id (jmodify ''params'' (jput ''requestId'' original) message)
                 (r\<lparr>rt_server_requests := smap_del key (rt_server_requests r)\<rparr>)))"

definition route_client_cancellation :: "env \<Rightarrow> json \<Rightarrow> router \<Rightarrow> router" where
  "route_client_cancellation env message r =
     (case Option.bind (jget ''params'' message) (jget ''requestId'') of
        None \<Rightarrow> r
      | Some request_id \<Rightarrow>
          (case smap_get (request_key env request_id) (rt_pool_tasks r) of
             Some h \<Rightarrow>
               abort_call h (r\<lparr>rt_pool_tasks := smap_del (request_key env request_id) (rt_pool_tasks r)\<rparr>)
           | None \<Rightarrow> deliver_cancellation env message request_id r))"

definition touch_progress :: "env \<Rightarrow> json \<Rightarrow> router \<Rightarrow> router" where
  "touch_progress env message r =
     (case progress_token message of
        None \<Rightarrow> r
      | Some token \<Rightarrow>
          (case smap_get (request_key env token) (rt_pool_tokens r) of
             None \<Rightarrow> r
           | Some rid \<Rightarrow>
               (let (now, r) = now_ms env r
                in r\<lparr>rt_inflight := snd (if_touch (\<lambda>v. str_of_bytes (e_enc env v)) rid
                       (deadline now (rt_pool_idle r)) (rt_inflight r))\<rparr>)))"

fun broadcast :: "env \<Rightarrow> json \<Rightarrow> nat list \<Rightarrow> router \<Rightarrow> router" where
  "broadcast env message [] r = r"
| "broadcast env message (i # is) r = broadcast env message is (snd (send_message env i message r))"

definition forward_client_notification :: "env \<Rightarrow> json \<Rightarrow> router \<Rightarrow> router" where
  "forward_client_notification env message r =
     (if method_of message = Some ''notifications/cancelled'' then route_client_cancellation env message r
      else
        (let r = (if method_of message = Some ''notifications/progress'' then touch_progress env message r else r)
         in broadcast env message [0..<length (rt_backends r)] r))"

end
