(* ===== verification/RouterRoute.thy ===== *)
theory RouterRoute
  imports RouterCore
begin

text \<open>
  The serial dispatch of the forward router (\<open>src/src/router.rs\<close>): list aggregation, calls,
  tasks, subscriptions, and the handling of one client message by the route loop, which spawns
  a pooled call or the run of a task instead of dispatching when those are switched on. What the
  spawned tasks then do is in \<open>RouterSession\<close>.
\<close>

section \<open>Tracing and audit\<close>

definition apply_trace :: "bool \<Rightarrow> json \<Rightarrow> json" where
  "apply_trace trace result =
     (if \<not> trace then result
      else jput ''_meta'' (append_hop (unwrap_or (jget ''_meta'' result) (jobj [])) ''forward'') result)"

text \<open>\<open>new_ids\<close> is only called, and the counter only moves, when there is no traceparent.\<close>

definition trace_request :: "json \<Rightarrow> router \<Rightarrow> json \<times> router" where
  "trace_request params r =
     (if \<not> rt_trace r then (params, r)
      else
        (let hopped = append_hop (unwrap_or (jget ''_meta'' params) (jobj [])) ''forward'';
             (ids, r) = (if jget TRACEPARENT hopped = None then trace_ids r else (([], []), r))
         in (jput ''_meta'' (ensure_trace_context hopped ids) params, r)))"

definition record_audit :: "env \<Rightarrow> json \<Rightarrow> router \<Rightarrow> router" where
  "record_audit env rec r =
     (case rt_audit r of
        Some l \<Rightarrow> r\<lparr>rt_audit := Some (snd (audit_append (e_enc env) rec l))\<rparr>
      | None \<Rightarrow> r)"

section \<open>Local dispatch\<close>

definition find_tool :: "str \<Rightarrow> wire list handler \<Rightarrow> json option" where
  "find_tool original h = List.find (\<lambda>t. get_str ''name'' t = Some original) (h_tools h)"

definition dispatch_local ::
  "env \<Rightarrow> router \<Rightarrow> str \<Rightarrow> str \<Rightarrow> json \<Rightarrow> json \<Rightarrow> json" where
  "dispatch_local env r handler_id original arguments rid =
     (case handler_for handler_id (rt_registry r) of
        None \<Rightarrow> rpc_error rid METHOD_NOT_FOUND (''unknown tool: '' @ handler_id)
      | Some h \<Rightarrow>
          (let tool = (if rt_validate r then find_tool original h else None)
           in case Option.bind tool (\<lambda>t. validate_call_args (e_validator env) (jget ''inputSchema'' t) arguments) of
                Some err \<Rightarrow> rpc_error_value rid err
              | None \<Rightarrow>
                  (let result = h_call h (rt_wire r) original arguments
                   in case Option.bind tool (\<lambda>t. validate_call_result (e_validator env) (jget ''outputSchema'' t) result) of
                        Some err \<Rightarrow> rpc_error_value rid err
                      | None \<Rightarrow>
                          if exceeds_output_cap (e_enc env) result (rt_output_limit r)
                          then rpc_error_value rid
                                 (error_object INTERNAL_ERROR (Some ''server output exceeds size limit''))
                          else rpc_result rid (apply_trace (rt_trace r) result))))"

section \<open>Lists\<close>

definition variant_error :: "router \<Rightarrow> json \<Rightarrow> str option \<Rightarrow> json option" where
  "variant_error r rid variant =
     (case variant of
        None \<Rightarrow> None
      | Some v \<Rightarrow>
          if rt_variants r = [] then Some (rpc_error rid INVALID_PARAMS ''Server variants not supported'')
          else if v \<notin> set (rt_variants r) then
            Some (rpc_error_value rid (jobj
              [(''code'', jint INVALID_PARAMS), (''message'', JStr (''unknown variant: '' @ v)),
               (''data'', jobj [(''availableVariants'', JArr (map JStr (rt_variants r)))])]))
          else None)"

definition effective_variant :: "router \<Rightarrow> str option \<Rightarrow> str option" where
  "effective_variant r variant =
     (case variant of Some v \<Rightarrow> Some v
      | None \<Rightarrow> (case rt_variants r of [] \<Rightarrow> None | v # _ \<Rightarrow> Some v))"

text \<open>The backends a list asks: the availability test comes first and is skipped unless resilient.\<close>

fun select_backends :: "env \<Rightarrow> json list \<Rightarrow> cursors option \<Rightarrow> nat list \<Rightarrow> router \<Rightarrow> nat list \<times> router" where
  "select_backends env keywords restrict [] r = ([], r)"
| "select_backends env keywords restrict (i # is) r =
     (let (ok, r) = (if rt_resilient r then available env i r else (True, r));
          b = rt_backends r ! i;
          keep = ok \<and> backend_selected (b_keywords b) keywords \<and>
                 (case restrict of Some c \<Rightarrow> smap_get (b_id b) c \<noteq> None | None \<Rightarrow> True);
          (rest, r) = select_backends env keywords restrict is r
      in (if keep then i # rest else rest, r))"

fun unavailable_ids :: "env \<Rightarrow> nat list \<Rightarrow> router \<Rightarrow> str list \<times> router" where
  "unavailable_ids env [] r = ([], r)"
| "unavailable_ids env (i # is) r =
     (let (ok, r) = available env i r; (rest, r) = unavailable_ids env is r
      in (if ok then rest else b_id (rt_backends r ! i) # rest, r))"

definition list_params ::
  "bool \<Rightarrow> json \<Rightarrow> bool \<Rightarrow> json \<Rightarrow> str option \<Rightarrow> cursors option \<Rightarrow> bool \<Rightarrow> str \<Rightarrow> json" where
  "list_params has_filter list_filter has_cursor cursor variant restrict single bid =
     JObj (smap_puts []
       ((if has_filter then [(''filter'', list_filter)] else []) @
        (case variant of Some v \<Rightarrow> [(''_meta'', jobj [(SERVER_VARIANT_META_KEY, JStr v)])] | None \<Rightarrow> []) @
        (case restrict of
           Some c \<Rightarrow> [(''cursor'', JStr (unwrap_or (smap_get bid c) []))]
         | None \<Rightarrow> if has_cursor \<and> single then [(''cursor'', cursor)] else [])))"

text \<open>Cache hits first, then the fetches of the misses, which the code joins.\<close>

fun cache_hits :: "env \<Rightarrow> bool \<Rightarrow> str \<Rightarrow> nat list \<Rightarrow> router \<Rightarrow>
    (str, json) smap \<times> nat list \<times> router" where
  "cache_hits env use_cache method [] r = ([], [], r)"
| "cache_hits env use_cache method (i # is) r =
     (let bid = b_id (rt_backends r ! i);
          (hit, r) = (case rt_cache r of
                        Some c \<Rightarrow>
                          if use_cache then
                            (let (now, r) = clock env r;
                                 (v, c) = cache_get bid method (rt_principal r) now c
                             in (v, r\<lparr>rt_cache := Some c\<rparr>))
                          else (None, r)
                      | None \<Rightarrow> (None, r));
          (hits, misses, r) = cache_hits env use_cache method is r
      in case hit of
           Some v \<Rightarrow> (smap_put bid v hits, misses, r)
         | None \<Rightarrow> (hits, i # misses, r))"

fun fetch_all :: "env \<Rightarrow> str \<Rightarrow> (str \<Rightarrow> json) \<Rightarrow> nat list \<Rightarrow> router \<Rightarrow>
    (str \<times> (io_error + json)) list \<times> router" where
  "fetch_all env method params_for [] r = ([], r)"
| "fetch_all env method params_for (i # is) r =
     (let bid = b_id (rt_backends r ! i);
          (res, r) = request env i method (params_for bid) r;
          (rest, r) = fetch_all env method params_for is r
      in ((bid, res) # rest, r))"

text \<open>The loop over the results; a failure ends a router that is not resilient.\<close>

fun absorb_results :: "env \<Rightarrow> bool \<Rightarrow> str \<Rightarrow> (str \<times> (io_error + json)) list \<Rightarrow>
    (str, json) smap \<Rightarrow> str list \<Rightarrow> router \<Rightarrow> (io_error + (str, json) smap \<times> str list) \<times> router" where
  "absorb_results env use_cache method [] per unavail r = (Inr (per, unavail), r)"
| "absorb_results env use_cache method ((bid, Inl e) # rs) per unavail r =
     (if \<not> rt_resilient r then (Inl e, r)
      else absorb_results env use_cache method rs per (unavail @ [bid]) r)"
| "absorb_results env use_cache method ((bid, Inr response) # rs) per unavail r =
     (let result = unwrap_or (jget ''result'' response) (jobj []);
          r = (case rt_cache r of
                 Some c \<Rightarrow>
                   if use_cache then
                     (let (now, r) = clock env r
                      in r\<lparr>rt_cache := Some (cache_put bid method (rt_principal r) result now c)\<rparr>)
                   else r
               | None \<Rightarrow> r)
      in absorb_results env use_cache method rs (smap_put bid result per) unavail r)"

definition is_passthrough :: "capability \<Rightarrow> router \<Rightarrow> bool" where
  "is_passthrough cap r \<longleftrightarrow> cap_collection cap = ''tools'' \<and> rt_strategy r = PASSTHROUGH"

definition exposed_label :: "capability \<Rightarrow> router \<Rightarrow> str \<Rightarrow> str \<Rightarrow> str" where
  "exposed_label cap r bid value =
     (if rt_single r \<or> is_passthrough cap r then value else cap_label (cap_kind cap) bid value)"

definition entry_or_insert :: "'k::linorder \<Rightarrow> 'v \<Rightarrow> ('k, 'v) smap \<Rightarrow> ('k, 'v) smap" where
  "entry_or_insert k v m = (if smap_get k m = None then smap_put k v m else m)"

fun label_items :: "capability \<Rightarrow> json list \<Rightarrow> str \<Rightarrow> json list \<Rightarrow> router \<Rightarrow> json list \<times> router" where
  "label_items cap patterns bid [] r = ([], r)"
| "label_items cap patterns bid (item # items) r =
     (case get_str (cap_field cap) item of
        None \<Rightarrow> label_items cap patterns bid items r
      | Some value \<Rightarrow>
          (let labeled = exposed_label cap r bid value;
               r = (if is_passthrough cap r \<and> \<not> rt_single r
                    then r\<lparr>rt_reverse := entry_or_insert labeled (bid, value) (rt_reverse r)\<rparr> else r);
               (rest, r) = label_items cap patterns bid items r
           in (if name_matches labeled patterns then jput (cap_field cap) (JStr labeled) item # rest else rest, r)))"

fun compose_items :: "capability \<Rightarrow> json list \<Rightarrow> (str, json) smap \<Rightarrow> str list \<Rightarrow> router \<Rightarrow> json list \<times> router" where
  "compose_items cap patterns per [] r = ([], r)"
| "compose_items cap patterns per (bid # bids) r =
     (case smap_get bid per of
        None \<Rightarrow> compose_items cap patterns per bids r
      | Some result \<Rightarrow>
          (let listed = unwrap_or (get_array (cap_collection cap) result) [];
               (here, r) = label_items cap patterns bid listed r;
               (rest, r) = compose_items cap patterns per bids r
           in (here @ rest, r)))"

definition next_cursors :: "(str, json) smap \<Rightarrow> str list \<Rightarrow> cursors" where
  "next_cursors per bids =
     foldl (\<lambda>m bid. case Option.bind (smap_get bid per) (get_str ''nextCursor'') of
                      Some nc \<Rightarrow> smap_put bid nc m | None \<Rightarrow> m) [] bids"

definition filter_list :: "str \<Rightarrow> json \<Rightarrow> json list" where
  "filter_list k list_filter = unwrap_or (get_array k list_filter) []"

definition collect :: "env \<Rightarrow> capability \<Rightarrow> json \<Rightarrow> json \<Rightarrow> str option \<Rightarrow> router \<Rightarrow>
    (io_error + json list \<times> str list \<times> cursors) \<times> router" where
  "collect env cap list_filter cursor variant r =
     (let keywords = filter_list ''keywords'' list_filter;
          patterns = filter_list ''namePatterns'' list_filter;
          has_filter = (case as_object list_filter of Some ob \<Rightarrow> ob \<noteq> [] | None \<Rightarrow> False);
          restrict = map_option snd (resolve_cursor (e_dec env) cursor);
          variant = effective_variant r variant;
          has_cursor = (cursor \<noteq> JNull);
          all = [0..<length (rt_backends r)];
          (picked, r) = select_backends env keywords restrict all r;
          use_cache = (\<not> has_filter \<and> \<not> has_cursor \<and> variant = None);
          params_for = list_params has_filter list_filter has_cursor cursor variant restrict (rt_single r);
          (hits, misses, r) = cache_hits env use_cache (cap_list cap) picked r;
          (results, r) = fetch_all env (cap_list cap) params_for misses r;
          (unavail, r) = (if rt_resilient r then unavailable_ids env all r else ([], r));
          (absorbed, r) = absorb_results env use_cache (cap_list cap) results hits unavail r
      in case absorbed of
           Inl e \<Rightarrow> (Inl e, r)
         | Inr (per, unavail) \<Rightarrow>
             (let bids = map (\<lambda>i. b_id (rt_backends r ! i)) picked;
                  (items, r) = compose_items cap patterns per bids r
              in (Inr (items, unavail, next_cursors per bids), r)))"

definition rename_items :: "str \<Rightarrow> (str, str) smap \<Rightarrow> json list \<Rightarrow> json list" where
  "rename_items fld mapping items =
     map (\<lambda>item. case Option.bind (get_str fld item) (\<lambda>n. smap_get n mapping) of
                   Some exposed \<Rightarrow> jput fld (JStr exposed) item | None \<Rightarrow> item) items"

text \<open>The message of a manual collision; the names are formatted with \<open>{:?}\<close>, a parameter.\<close>

definition aggregate_items :: "env \<Rightarrow> (manual_error \<Rightarrow> str) \<Rightarrow> capability \<Rightarrow> json \<Rightarrow> json list \<Rightarrow> router \<Rightarrow>
    str + json list" where
  "aggregate_items env show_error cap list_filter items r =
     (if cap_collection cap \<noteq> ''tools'' then Inr items
      else
        (let patterns = filter_list ''namePatterns'' list_filter;
             items = items @ filter (\<lambda>t. name_matches (unwrap_or (get_str (cap_field cap) t) []) patterns)
                               (registry_tools (rt_registry r));
             renamed = (if rt_strategy r = MANUAL
                        then (case resolve_manual (List.map_filter (get_str (cap_field cap)) items) (rt_overrides r) of
                                Inr mapping \<Rightarrow> Inr (rename_items (cap_field cap) mapping items)
                              | Inl e \<Rightarrow> Inl (''manual collision: '' @ show_error e))
                        else Inr items)
         in case renamed of
              Inl e \<Rightarrow> Inl e
            | Inr items \<Rightarrow>
                (let items = (if rt_strategy r = PRIORITY
                              then (case apply_priority (cap_resolve (cap_kind cap)) (rt_priority r) (cap_field cap) items of
                                      Some (out, _) \<Rightarrow> out | None \<Rightarrow> [])
                              else items)
                 in Inr (if rt_disclose r then fst (disclose items (rt_threshold r)) else items))))"

definition cursor_problem :: "env \<Rightarrow> json \<Rightarrow> json \<Rightarrow> str option \<Rightarrow> router \<Rightarrow> json option" where
  "cursor_problem env rid cursor variant r =
     (case resolve_cursor (e_dec env) cursor of
        Some (cursor_variant, _) \<Rightarrow>
          if cursor_variant \<noteq> variant then
            Some (rpc_error_value rid (jobj
              [(''code'', jint INVALID_PARAMS), (''message'', JStr ''Cursor invalid for requested variant''),
               (''data'', mismatch_data cursor_variant variant)]))
          else None
      | None \<Rightarrow>
          if cursor \<noteq> JNull \<and> \<not> rt_single r then Some (rpc_error rid INVALID_PARAMS ''unknown cursor'') else None)"

definition aggregate :: "env \<Rightarrow> (manual_error \<Rightarrow> str) \<Rightarrow> json \<Rightarrow> capability \<Rightarrow> json \<Rightarrow> json \<Rightarrow> str option \<Rightarrow>
    router \<Rightarrow> (io_error + json) \<times> router" where
  "aggregate env show_error rid cap list_filter cursor variant r =
     (let eff = effective_variant r variant
      in case cursor_problem env rid cursor eff r of
           Some reply \<Rightarrow> (Inr reply, r)
         | None \<Rightarrow>
             (case collect env cap list_filter cursor variant r of
                (Inl e, r) \<Rightarrow> (Inl e, r)
              | (Inr (items, unavail, nexts), r) \<Rightarrow>
                  (case aggregate_items env show_error cap list_filter items r of
                     Inl message \<Rightarrow> (Inr (rpc_error rid INTERNAL_ERROR message), r)
                   | Inr items \<Rightarrow>
                       (let result = smap_put (cap_collection cap) (JArr items) [];
                            result = (if nexts \<noteq> []
                                      then smap_put ''nextCursor'' (JStr (bind_cursor (e_enc env) eff nexts)) result
                                      else result);
                            result = (if unavail \<noteq> []
                                      then smap_put ''_meta'' (partial_meta unavail ''backend_unavailable'') result
                                      else result);
                            body = (case rt_directives r of
                                      Some (ttl, scope) \<Rightarrow> attach_directives (JObj result) ttl scope
                                    | None \<Rightarrow> JObj result)
                        in (Inr (rpc_result rid (apply_trace (rt_trace r) body)), r)))))"

section \<open>Calls\<close>

definition param_str :: "str \<Rightarrow> json \<Rightarrow> str option" where
  "param_str k message = Option.bind (jget ''params'' message) (get_str k)"

definition params_or_empty :: "json \<Rightarrow> json" where
  "params_or_empty message = unwrap_or (jget ''params'' message) (jobj [])"

text \<open>The reply for a backend's response: its result shaped by \<open>f\<close>, or its error.\<close>

definition relay_response :: "bool \<Rightarrow> json \<Rightarrow> (json \<Rightarrow> json) \<Rightarrow> json \<Rightarrow> json" where
  "relay_response trace rid f response =
     (case jget ''result'' response of
        Some result \<Rightarrow> rpc_result rid (apply_trace trace (f result))
      | None \<Rightarrow> rpc_error_value rid (unwrap_or (jget ''error'' response) backend_error_value))"

definition unavailable_reply :: "json \<Rightarrow> str \<Rightarrow> json" where
  "unavailable_reply rid bid = rpc_error rid SERVER_NOT_AVAILABLE (''backend unavailable: '' @ bid)"

definition failed_reply :: "json \<Rightarrow> str \<Rightarrow> json" where
  "failed_reply rid bid = rpc_error rid SERVER_NOT_AVAILABLE (''backend call failed: '' @ bid)"

text \<open>Resolving \<open>(backend id, original)\<close> to the position of a known backend.\<close>

definition locate :: "(str \<times> str) option \<Rightarrow> router \<Rightarrow> (nat \<times> str) option" where
  "locate resolved r =
     (case resolved of
        Some (bid, original) \<Rightarrow> map_option (\<lambda>i. (i, original)) (index_of bid r)
      | None \<Rightarrow> None)"

definition check_available :: "env \<Rightarrow> nat \<Rightarrow> router \<Rightarrow> bool \<times> router" where
  "check_available env i r = (if rt_resilient r then available env i r else (True, r))"

text \<open>The filter chain in front of a call: a block's reply, or the request that goes on.\<close>

definition filter_request :: "env \<Rightarrow> capability \<Rightarrow> json \<Rightarrow> router \<Rightarrow> (json + json) \<times> router" where
  "filter_request env cap message r =
     (case rt_filters r of
        None \<Rightarrow> (Inr message, r)
      | Some filters \<Rightarrow>
          (let out = chain_run filters REQUEST message
           in if get_str ''action'' out = Some ''block''
              then (Inl (jindex out ''response''),
                    record_audit env (outcome_record (cap_call cap)
                      (Some (unwrap_or (param_str (cap_field cap) message) [])) False) r)
              else (Inr (unwrap_or (jget ''message'' out) message), r)))"

definition call_target :: "env \<Rightarrow> capability \<Rightarrow> str \<Rightarrow> router \<Rightarrow> (io_error + (nat \<times> str) option) \<times> router" where
  "call_target env cap value r =
     (if rt_single r then (Inr (Some (0, value)), r)
      else if cap_call cap = ''tools/call'' \<and> rt_strategy r = MANUAL then
        (let namespaced = (case List.find (\<lambda>(_, exposed). exposed = value) (rt_overrides r) of
                             Some (n, _) \<Rightarrow> n | None \<Rightarrow> value)
         in (Inr (locate (ns_split namespaced) r), r))
      else if cap_call cap = ''tools/call'' \<and> rt_strategy r = PASSTHROUGH then
        (let (res, r) = (if smap_get value (rt_reverse r) = None
                         then collect env (CAPABILITIES ! 0) (jobj []) JNull None r
                         else (Inr ([], [], []), r))
         in case res of
              Inl e \<Rightarrow> (Inl e, r)
            | Inr _ \<Rightarrow> (Inr (locate (smap_get value (rt_reverse r)) r), r))
      else (Inr (locate (cap_resolve (cap_kind cap) value) r), r))"

definition shape_call_result :: "capability \<Rightarrow> str \<Rightarrow> json \<Rightarrow> json" where
  "shape_call_result cap bid result =
     (if cap_call cap = ''tools/call'' \<and> is_task_result result then namespace_task_id result bid else result)"

definition forward_call :: "env \<Rightarrow> capability \<Rightarrow> json \<Rightarrow> json \<Rightarrow> str \<Rightarrow> nat \<Rightarrow> str \<Rightarrow> router \<Rightarrow>
    (io_error + json) \<times> router" where
  "forward_call env cap message rid value i original r =
     (let bid = b_id (rt_backends r ! i);
          params = jput (cap_field cap) (JStr original) (params_or_empty message);
          (params, r) = trace_request params r;
          r = record_audit env (attestation_record (unwrap_or (rt_principal r) ''anonymous'')
                (cap_call cap) (Some value)) r;
          (res, r) = request env i (cap_call cap) params r
      in case res of
           Inl e \<Rightarrow>
             if \<not> rt_resilient r then (Inl e, r)
             else (Inr (failed_reply rid bid),
                   record_audit env (outcome_record (cap_call cap) (Some value) False) r)
         | Inr response \<Rightarrow>
             (Inr (relay_response (rt_trace r) rid (shape_call_result cap bid) response),
              record_audit env (outcome_record (cap_call cap) (Some value)
                (jget ''result'' response \<noteq> None)) r))"

definition search_reply :: "env \<Rightarrow> json \<Rightarrow> json \<Rightarrow> json list \<Rightarrow> router \<Rightarrow> json" where
  "search_reply env rid message tools r =
     (let query = unwrap_or (Option.bind (Option.bind (jget ''params'' message) (jget ''arguments''))
                              (get_str ''query'')) [];
          names = List.map_filter (get_str ''name'') (search_tools (e_lower env) query tools);
          txt = str_of_bytes (e_enc env (JArr (map JStr names)))
      in rpc_result rid (apply_trace (rt_trace r)
           (jobj [(''content'', JArr [jobj [(''type'', JStr ''text''), (''text'', JStr txt)]])])))"

definition local_target :: "capability \<Rightarrow> str \<Rightarrow> router \<Rightarrow> (str \<times> str) option" where
  "local_target cap value r =
     (if cap_call cap \<noteq> ''tools/call'' then None
      else case cap_resolve (cap_kind cap) value of
        Some (bid, original) \<Rightarrow> if handler_for bid (rt_registry r) \<noteq> None then Some (bid, original) else None
      | None \<Rightarrow> None)"

text \<open>The two tails of \<open>route_call\<close>: the search meta-tool, and the call of a backend.\<close>

definition serve_search :: "env \<Rightarrow> json \<Rightarrow> json \<Rightarrow> router \<Rightarrow> (io_error + json) \<times> router" where
  "serve_search env message rid r =
     (case collect env (CAPABILITIES ! 0) (jobj []) JNull None r of
        (Inl e, r) \<Rightarrow> (Inl e, r)
      | (Inr (tools, _, _), r) \<Rightarrow> (Inr (search_reply env rid message tools r), r))"

definition serve_target :: "env \<Rightarrow> capability \<Rightarrow> json \<Rightarrow> json \<Rightarrow> str \<Rightarrow> router \<Rightarrow> (io_error + json) \<times> router" where
  "serve_target env cap message rid value r =
     (case call_target env cap value r of
        (Inl e, r) \<Rightarrow> (Inl e, r)
      | (Inr None, r) \<Rightarrow>
          (Inr (rpc_error rid INVALID_PARAMS (''unknown '' @ cap_field cap @ '': '' @ value)), r)
      | (Inr (Some (i, original)), r) \<Rightarrow>
          (let (ok, r) = check_available env i r
           in if \<not> ok then (Inr (unavailable_reply rid (b_id (rt_backends r ! i))), r)
              else forward_call env cap message rid value i original r))"

definition route_call :: "env \<Rightarrow> json \<Rightarrow> json \<Rightarrow> capability \<Rightarrow> router \<Rightarrow> (io_error + json) \<times> router" where
  "route_call env message rid cap r =
     (case filter_request env cap message r of
        (Inl reply, r) \<Rightarrow> (Inr reply, r)
      | (Inr message, r) \<Rightarrow>
          (let value = unwrap_or (param_str (cap_field cap) message) []
           in if rt_disclose r \<and> cap_call cap = ''tools/call'' \<and> value = PROXY_SEARCH_TOOL
              then serve_search env message rid r
              else case local_target cap value r of
                Some (bid, original) \<Rightarrow>
                  (let arguments = unwrap_or (Option.bind (jget ''params'' message) (jget ''arguments'')) (jobj [])
                   in (Inr (dispatch_local env r bid original arguments rid), r))
              | None \<Rightarrow> serve_target env cap message rid value r))"

section \<open>Tasks and subscriptions\<close>

definition serve_local_task :: "json \<Rightarrow> str \<Rightarrow> str \<Rightarrow> router \<Rightarrow> json \<times> router" where
  "serve_local_task rid method task_id r =
     (let r = (if method = ''tasks/cancel''
               then (let r = (case smap_get task_id (rt_task_handles r) of
                                Some h \<Rightarrow> abort_run h (r\<lparr>rt_task_handles := smap_del task_id (rt_task_handles r)\<rparr>)
                              | None \<Rightarrow> r)
                     in r\<lparr>rt_tasks := snd (task_cancel task_id (rt_tasks r))\<rparr>)
               else r);
          rec = unwrap_or (task_get task_id (rt_tasks r)) (jobj [(''status'', JStr STATUS_FAILED)]);
          status = unwrap_or (get_str ''status'' rec) STATUS_FAILED
      in (rpc_result rid (apply_trace (rt_trace r)
            (task_handle task_id status (jget ''result'' rec) (jget ''error'' rec))), r))"

text \<open>The shared tail of \<open>route_task\<close> and \<open>route_subscription\<close>: forward, and shape the reply.\<close>

definition forward_keyed :: "env \<Rightarrow> str \<Rightarrow> str \<Rightarrow> (str \<Rightarrow> json \<Rightarrow> json) \<Rightarrow> json \<Rightarrow> json \<Rightarrow> nat \<Rightarrow> str \<Rightarrow> router \<Rightarrow>
    (io_error + json) \<times> router" where
  "forward_keyed env method fld shape message rid i original r =
     (let (ok, r) = check_available env i r; bid = b_id (rt_backends r ! i)
      in if \<not> ok then (Inr (unavailable_reply rid bid), r)
         else
           (let (params, r) = trace_request (jput fld (JStr original) (params_or_empty message)) r;
                (res, r) = request env i method params r
            in case res of
                 Inl e \<Rightarrow> if \<not> rt_resilient r then (Inl e, r) else (Inr (failed_reply rid bid), r)
               | Inr response \<Rightarrow> (Inr (relay_response (rt_trace r) rid (shape bid) response), r)))"

definition route_task :: "env \<Rightarrow> json \<Rightarrow> json \<Rightarrow> str \<Rightarrow> router \<Rightarrow> (io_error + json) \<times> router" where
  "route_task env message rid method r =
     (let task_id = unwrap_or (param_str ''taskId'' message) []
      in if rt_server_tasks r \<and> task_contains task_id (rt_tasks r)
         then (let (reply, r) = serve_local_task rid method task_id r in (Inr reply, r))
         else case locate (resolve_task task_id) r of
           None \<Rightarrow> (Inr (rpc_error rid INVALID_PARAMS (''unknown task: '' @ task_id)), r)
         | Some (i, original) \<Rightarrow>
             forward_keyed env method ''taskId'' (\<lambda>bid result. namespace_task_id result bid) message rid i original r)"

definition route_subscription :: "env \<Rightarrow> json \<Rightarrow> json \<Rightarrow> str \<Rightarrow> router \<Rightarrow> (io_error + json) \<times> router" where
  "route_subscription env message rid method r =
     (let uri = unwrap_or (param_str ''uri'' message) []
      in case (if rt_single r then Some (0, uri) else locate (split_uri uri) r) of
           Some (i, original) \<Rightarrow> forward_keyed env method ''uri'' (\<lambda>_ result. result) message rid i original r
         | None \<Rightarrow>
             if rt_subs_enabled r then
               (let r = (if method = SUBSCRIBE_METHOD then r\<lparr>rt_subs := subscribe uri (rt_subs r)\<rparr>
                         else r\<lparr>rt_subs := snd (unsubscribe uri (rt_subs r))\<rparr>)
                in (Inr (rpc_result rid (apply_trace (rt_trace r) (jobj []))), r))
             else (Inr (rpc_error rid INVALID_PARAMS (''unknown resource: '' @ uri)), r))"

text \<open>\<open>ResourcePublisher::publish\<close>\<close>

definition publish :: "str \<Rightarrow> router \<Rightarrow> bool \<times> router" where
  "publish uri r =
     (if \<not> subscribed uri (rt_subs r) then (False, r)
      else (True, emit (ToClient (updated_notification uri)) r))"

section \<open>The loop\<close>

text \<open>\<open>SurfaceWatcher\<close>: the available set, and the announcement of a change.\<close>

fun watch_available :: "env \<Rightarrow> nat list \<Rightarrow> router \<Rightarrow> str set \<times> router" where
  "watch_available env [] r = ({}, r)"
| "watch_available env (i # is) r =
     (let (ok, r) = available env i r; (rest, r) = watch_available env is r
      in (if ok then insert (b_id (rt_backends r ! i)) rest else rest, r))"

definition emit_if_changed :: "env \<Rightarrow> router \<Rightarrow> router" where
  "emit_if_changed env r =
     (let (current, r) = watch_available env [0..<length (rt_backends r)] r
      in if current \<noteq> rt_surface r then
           (let departed = filter (\<lambda>i. i \<in> rt_surface r - current) (map b_id (rt_backends r));
                r = (case rt_cache r of
                       Some c \<Rightarrow> r\<lparr>rt_cache := Some (foldl (\<lambda>c d. invalidate_backend d c) c departed)\<rparr>
                     | None \<Rightarrow> r)
            in emit (ToClient list_changed_notification) (r\<lparr>rt_surface := current\<rparr>))
         else r)"

definition not_routable :: "json \<Rightarrow> str option \<Rightarrow> json" where
  "not_routable rid method =
     rpc_error rid METHOD_NOT_FOUND (''method not routable: '' @ unwrap_or method ''<none>'')"

definition dispatch :: "env \<Rightarrow> (manual_error \<Rightarrow> str) \<Rightarrow> json \<Rightarrow> json \<Rightarrow> router \<Rightarrow> (io_error + json) \<times> router" where
  "dispatch env show_error message rid r =
     (let method = method_of message;
          params = params_or_empty message;
          list_filter = unwrap_or (jget ''filter'' params) (jobj []);
          variant = selected_variant params;
          cursor = unwrap_or (jget ''cursor'' params) JNull;
          is_cap = (\<lambda>f. List.find (\<lambda>c. Some (f c) = method) CAPABILITIES)
      in case method of
           Some m \<Rightarrow>
             if is_task_method m then route_task env message rid m r
             else if is_subscribe_method m then route_subscription env message rid m r
             else (case variant_error r rid variant of
                Some err \<Rightarrow> (Inr err, r)
              | None \<Rightarrow>
                  if m = ''server/discover'' then aggregate env show_error rid (CAPABILITIES ! 0) list_filter cursor variant r
                  else (case is_cap cap_list of
                     Some cap \<Rightarrow> aggregate env show_error rid cap list_filter cursor variant r
                   | None \<Rightarrow>
                       (case is_cap cap_call of
                          Some cap \<Rightarrow> route_call env message rid cap r
                        | None \<Rightarrow> (Inr (not_routable rid method), r))))
         | None \<Rightarrow>
             (case variant_error r rid variant of
                Some err \<Rightarrow> (Inr err, r)
              | None \<Rightarrow> (Inr (not_routable rid method), r)))"

text \<open>Calls that run as spawned tasks: a plain local call in the pool, or the run of a task.\<close>

definition is_local_call :: "json \<Rightarrow> capability \<Rightarrow> router \<Rightarrow> bool" where
  "is_local_call message cap r \<longleftrightarrow>
     cap_call cap = ''tools/call'' \<and>
     (case cap_resolve (cap_kind cap) (unwrap_or (param_str (cap_field cap) message) []) of
        Some (bid, _) \<Rightarrow> handler_for bid (rt_registry r) \<noteq> None | None \<Rightarrow> False)"

definition call_token :: "json \<Rightarrow> json option" where
  "call_token message =
     Option.bind (Option.bind (jget ''params'' message) (jget ''_meta'')) (jget ''progressToken'')"

definition spawn_pooled_call :: "env \<Rightarrow> json \<Rightarrow> json \<Rightarrow> router \<Rightarrow> router" where
  "spawn_pooled_call env message rid r =
     (let r = (case call_token message of
                 Some token \<Rightarrow> r\<lparr>rt_pool_tokens := smap_put (request_key env token) rid (rt_pool_tokens r)\<rparr>
               | None \<Rightarrow> r);
          h = rt_call_seq r
      in r\<lparr>rt_call_seq := Suc h,
           rt_pool_calls := rt_pool_calls r @ [\<lparr>pc_handle = h, pc_message = message, pc_id = rid,
                                                pc_running = False\<rparr>],
           rt_pool_tasks := smap_put (request_key env rid) h (rt_pool_tasks r)\<rparr>)"

definition spawn_task_execution :: "json \<Rightarrow> json \<Rightarrow> str \<Rightarrow> router \<Rightarrow> router" where
  "spawn_task_execution message rid task_id r =
     (let h = rt_run_seq r
      in r\<lparr>rt_run_seq := Suc h,
           rt_task_runs := rt_task_runs r @ [\<lparr>tr_handle = h, tr_message = message, tr_id = rid,
                                              tr_task = task_id\<rparr>],
           rt_task_handles := smap_put task_id h (rt_task_handles r)\<rparr>)"

definition originate_task :: "json \<Rightarrow> json \<Rightarrow> router \<Rightarrow> json \<times> router" where
  "originate_task message rid r =
     (let (task_id, store) = task_create (rt_tasks r);
          r = spawn_task_execution message rid task_id (r\<lparr>rt_tasks := store\<rparr>)
      in (rpc_result rid (apply_trace (rt_trace r) (task_handle task_id STATUS_WORKING None None)), r))"

definition runs_spawned :: "json \<Rightarrow> router \<Rightarrow> bool" where
  "runs_spawned message r \<longleftrightarrow>
     (rt_server_tasks r \<or> rt_pool_enabled r) \<and>
     (case List.find (\<lambda>c. Some (cap_call c) = method_of message) CAPABILITIES of
        Some cap \<Rightarrow> is_local_call message cap r | None \<Rightarrow> False)"

text \<open>One iteration of \<open>route_loop\<close>; an error ends the loop.\<close>

definition route_request :: "env \<Rightarrow> (manual_error \<Rightarrow> str) \<Rightarrow> json \<Rightarrow> json \<Rightarrow> router \<Rightarrow> io_error option \<times> router" where
  "route_request env show_error message rid r =
     (if runs_spawned message r \<and> rt_server_tasks r \<and> is_task_augmented (params_or_empty message) then
        (let (response, r) = originate_task message rid r in (None, emit (ToClient response) r))
      else if runs_spawned message r \<and> rt_pool_enabled r then (None, spawn_pooled_call env message rid r)
      else
        (case dispatch env show_error message rid r of
           (Inl e, r) \<Rightarrow> (Some e, r)
         | (Inr response, r) \<Rightarrow>
             (let r = emit (ToClient response) r
              in (None, if rt_resilient r then emit_if_changed env r else r))))"

definition route_message :: "env \<Rightarrow> (manual_error \<Rightarrow> str) \<Rightarrow> json \<Rightarrow> router \<Rightarrow> io_error option \<times> router" where
  "route_message env show_error message r =
     (if method_of message = None \<and> jget ''id'' message \<noteq> None
      then (None, route_client_reply env message r)
      else case jget ''id'' message of
        None \<Rightarrow> (None, forward_client_notification env message r)
      | Some rid \<Rightarrow> route_request env show_error message rid r)"

fun route_loop :: "env \<Rightarrow> (manual_error \<Rightarrow> str) \<Rightarrow> byte list list \<Rightarrow> router \<Rightarrow> io_error option \<times> router" where
  "route_loop env show_error [] r = (None, r)"
| "route_loop env show_error (raw # raws) r =
     (case rpc_decode env raw of
        Inl e \<Rightarrow> (Some e, r)
      | Inr message \<Rightarrow>
          (case route_message env show_error message r of
             (Some e, r) \<Rightarrow> (Some e, r)
           | (None, r) \<Rightarrow> route_loop env show_error raws r))"

end
