(* ===== verification/RouterProps.thy ===== *)
theory RouterProps
  imports RouterRoute
begin

text \<open>
  What holds of the router of \<open>RouterCore\<close> and \<open>RouterRoute\<close>. The relation \<open>served\<close> is the frame
  of every operation of the serial dispatch: the configuration of the backends is kept, and all
  that was written are requests to configured backends that carry no credential but the
  backend's own. It is reflexive and transitive, so each operation needs one lemma.
\<close>

section \<open>The frame of the dispatch\<close>

type_synonym roster = "(str \<times> str option \<times> str list) list"

definition roster :: "router \<Rightarrow> roster" where
  "roster r = map (\<lambda>b. (b_id b, b_token b, b_keywords b)) (rt_backends r)"

type_synonym pool_view =
  "pool_call list \<times> nat \<times> (str, nat) smap \<times> (str, json) smap \<times> in_flight \<times> nat option \<times> u64"

definition pool_view :: "router \<Rightarrow> pool_view" where
  "pool_view r = (rt_pool_calls r, rt_call_seq r, rt_pool_tasks r, rt_pool_tokens r, rt_inflight r,
                  rt_pool_permits r, rt_pool_idle r)"

definition frame :: "router \<Rightarrow> roster \<times> bool \<times> bool \<times> bool \<times> wire list registry \<times> pool_view" where
  "frame r = (roster r, rt_resilient r, rt_single r, rt_pool_enabled r, rt_registry r, pool_view r)"

lemmas frame_defs = frame_def roster_def pool_view_def

text \<open>The credential a message carries.\<close>

definition credential :: "json \<Rightarrow> json option" where
  "credential message =
     Option.bind (Option.bind (jget ''params'' message) (jget ''_meta'')) (jget AUTHORIZATION_META_KEY)"

definition bearer :: "str option \<Rightarrow> json option" where
  "bearer token = map_option (\<lambda>t. JStr (''Bearer '' @ t)) token"

fun own_request :: "roster \<Rightarrow> wire \<Rightarrow> bool" where
  "own_request st (ToClient m) = False"
| "own_request st (ToBackend bid m) =
     (\<exists>token kw. (bid, token, kw) \<in> set st \<and> (credential m = None \<or> credential m = bearer token))"

definition served :: "router \<Rightarrow> router \<Rightarrow> bool" where
  "served r r' \<longleftrightarrow>
     frame r' = frame r \<and> (\<exists>ws. rt_wire r' = rt_wire r @ ws \<and> list_all (own_request (roster r)) ws)"

lemma served_refl [simp]: "served r r"
  by (simp add: served_def)

lemma served_trans [trans]: "served r s \<Longrightarrow> served s t \<Longrightarrow> served r t"
  unfolding served_def frame_def by auto

lemma served_same: "frame r' = frame r \<Longrightarrow> rt_wire r' = rt_wire r \<Longrightarrow> served r r'"
  by (simp add: served_def)

lemma served_size: "served r r' \<Longrightarrow> length (rt_backends r') = length (rt_backends r)"
  by (auto simp: served_def frame_defs dest: map_eq_imp_length_eq)

lemma served_resilient: "served r r' \<Longrightarrow> rt_resilient r' = rt_resilient r"
  by (simp add: served_def frame_def)

lemma roster_set_backend:
  "b_id b = b_id (rt_backends r ! i) \<Longrightarrow> b_token b = b_token (rt_backends r ! i) \<Longrightarrow>
     b_keywords b = b_keywords (rt_backends r ! i) \<Longrightarrow> roster (set_backend i b r) = roster r"
  by (cases "i < length (rt_backends r)")
    (auto simp: roster_def set_backend_def map_update list_update_same_conv intro: nth_equalityI
      simp flip: list_update_id)

lemma frame_set_backend:
  "b_id b = b_id (rt_backends r ! i) \<Longrightarrow> b_token b = b_token (rt_backends r ! i) \<Longrightarrow>
     b_keywords b = b_keywords (rt_backends r ! i) \<Longrightarrow> frame (set_backend i b r) = frame r"
  using roster_set_backend [of b r i] by (simp add: frame_def pool_view_def set_backend_def)

text \<open>The fields outside the frame.\<close>

lemma frame_update [simp]:
  "frame (r\<lparr>rt_ticks := a\<rparr>) = frame r" "frame (r\<lparr>rt_trace_seq := b\<rparr>) = frame r"
  "frame (r\<lparr>rt_cache := c\<rparr>) = frame r" "frame (r\<lparr>rt_tasks := d\<rparr>) = frame r"
  "frame (r\<lparr>rt_subs := e\<rparr>) = frame r" "frame (r\<lparr>rt_reverse := f\<rparr>) = frame r"
  "frame (r\<lparr>rt_audit := g\<rparr>) = frame r" "frame (r\<lparr>rt_surface := h\<rparr>) = frame r"
  "frame (r\<lparr>rt_task_handles := l\<rparr>) = frame r" "frame (r\<lparr>rt_task_runs := m\<rparr>) = frame r"
  "frame (r\<lparr>rt_server_requests := q\<rparr>) = frame r" "frame (r\<lparr>rt_server_seq := t\<rparr>) = frame r"
  "frame (r\<lparr>rt_run_seq := n\<rparr>) = frame r" "frame (r\<lparr>rt_wire := w\<rparr>) = frame r"
  by (simp_all add: frame_defs)

lemma wire_set_backend [simp]: "rt_wire (set_backend i b r) = rt_wire r"
  by (simp add: set_backend_def)

lemma clock_served: "clock env r = (now, r') \<Longrightarrow> served r r' \<and> rt_backends r' = rt_backends r"
  by (auto simp: clock_def served_def frame_defs)

lemma available_served: "available env i r = (ok, r') \<Longrightarrow> served r r'"
  by (auto simp: available_def Let_def clock_def frame_set_backend split: option.splits prod.splits
      intro!: served_same)

lemma record_breaker_served: "served r (record_breaker env i ok r)"
  by (auto simp: record_breaker_def Let_def clock_def frame_set_backend split: option.splits
      intro!: served_same)

text \<open>The credential of what \<open>request\<close> sends.\<close>

lemma credential_guarded:
  "credential (backend_request_value b meth params) = None \<or>
   credential (backend_request_value b meth params) = bearer (b_token b)"
proof -
  have c: "credential (backend_request_value b meth params) =
      Option.bind (jget ''_meta'' (guard_params (b_token b) params)) (jget AUTHORIZATION_META_KEY)"
    by (simp add: credential_def backend_request_value_def json_simps)
  have f: "jget AUTHORIZATION_META_KEY (forward_meta m tok) = bearer tok" for m tok
    by (auto simp: forward_meta_def Let_def store_simps bearer_def split: option.splits)
  show ?thesis
  proof (cases "is_object params")
    case True
    have "Option.bind (jget ''_meta'' params) (jget AUTHORIZATION_META_KEY) = None"
      if "\<not> (case Option.bind (jget ''_meta'' params) as_object of
               Some m \<Rightarrow> smap_get AUTHORIZATION_META_KEY m \<noteq> None | None \<Rightarrow> False)"
    proof (cases "jget ''_meta'' params")
      case (Some m)
      then show ?thesis using that by (cases m) auto
    qed simp
    then show ?thesis
      unfolding c guard_params_def Let_def using True f by (auto simp: json_simps split: option.splits)
  next
    case False
    then have "jget k (guard_params tok params) = None" for k tok
      by (cases params) (auto simp: guard_params_def Let_def)
    then show ?thesis unfolding c by simp
  qed
qed

lemma request_served:
  assumes "request env i meth params r = (res, r')" "i < length (rt_backends r)"
  shows "served r r'"
proof -
  let ?b = "rt_backends r ! i"
  let ?r1 = "set_backend i (?b\<lparr>b_next_id := b_next_id ?b + 1\<rparr>) r"
  let ?m = "backend_request_value ?b meth params"
  have 1: "frame ?r1 = frame r" by (rule frame_set_backend) simp_all
  then have 2: "served r ?r1" by (intro served_same) simp_all
  have "(b_id ?b, b_token ?b, b_keywords ?b) \<in> set (roster r)"
    using assms(2) by (auto simp: roster_def)
  then have "own_request (roster r) (ToBackend (b_id ?b) ?m)"
    using credential_guarded [of ?b meth params] by auto
  then have 3: "served ?r1 (emit (ToBackend (b_id ?b) ?m) ?r1)"
    using 1 by (auto simp: served_def emit_def frame_defs)
  show ?thesis
    using assms(1) served_trans [OF served_trans [OF 2 3] record_breaker_served] 2
    by (auto simp: request_def Let_def split: delivery.splits)
qed

lemma trace_request_served: "trace_request params r = (p, r') \<Longrightarrow> served r r'"
  by (auto simp: trace_request_def trace_ids_def Let_def frame_defs
      split: if_splits intro!: served_same)

lemma record_audit_served [simp]: "served r (record_audit env rec r)"
  by (auto simp: record_audit_def frame_defs split: option.splits intro!: served_same)

section \<open>Lists keep the frame\<close>

lemma select_backends_served:
  "select_backends env kws restrict is r = (ks, r') \<Longrightarrow> served r r' \<and> set ks \<subseteq> set is"
proof (induction "is" arbitrary: r ks r')
  case (Cons i "is")
  obtain ok r1 where 1: "(if rt_resilient r then available env i r else (True, r)) = (ok, r1)" by force
  obtain rest r2 where 2: "select_backends env kws restrict is r1 = (rest, r2)" by force
  have "served r r1" using 1 available_served by (auto split: if_splits)
  moreover have "served r1 r2" "set rest \<subseteq> set is" using Cons.IH [OF 2] by simp_all
  moreover have "r' = r2" "ks = rest \<or> ks = i # rest"
    using Cons.prems 1 2 by (auto simp: Let_def split: if_splits)
  ultimately show ?case using served_trans by auto
qed simp

lemma unavailable_ids_served: "unavailable_ids env is r = (ids, r') \<Longrightarrow> served r r'"
proof (induction "is" arbitrary: r ids r')
  case (Cons i "is")
  obtain ok r1 where 1: "available env i r = (ok, r1)" by force
  obtain rest r2 where 2: "unavailable_ids env is r1 = (rest, r2)" by force
  have "r' = r2" using Cons.prems 1 2 by (simp add: Let_def split: if_splits)
  then show ?case using available_served [OF 1] Cons.IH [OF 2] served_trans by blast
qed simp

lemma cache_hits_served:
  "cache_hits env use m is r = (hits, misses, r') \<Longrightarrow> served r r' \<and> set misses \<subseteq> set is"
proof (induction "is" arbitrary: r hits misses r')
  case (Cons i "is")
  define step where "step =
    (case rt_cache r of
       Some c \<Rightarrow>
         if use then
           (let (now, r) = clock env r;
                (v, c) = cache_get (b_id (rt_backends r ! i)) m (rt_principal r) now c
            in (v, r\<lparr>rt_cache := Some c\<rparr>))
         else (None, r)
     | None \<Rightarrow> (None, r))"
  obtain hit r1 where 1: "step = (hit, r1)" by force
  have b: "rt_backends (snd (clock env r)) = rt_backends r" by (simp add: clock_def)
  have s1: "served r r1"
    using 1 by (auto simp: step_def clock_def Let_def split: option.splits if_splits prod.splits
        intro!: served_same)
  obtain hits2 misses2 r2 where 2: "cache_hits env use m is r1 = (hits2, misses2, r2)" by (metis prod_cases3)
  have "cache_hits env use m (i # is) r =
      (case hit of Some v \<Rightarrow> (smap_put (b_id (rt_backends r ! i)) v hits2, misses2, r2)
       | None \<Rightarrow> (hits2, i # misses2, r2))"
    using 1 2 b unfolding step_def cache_hits.simps Let_def
    by (auto simp: clock_def split: option.splits if_splits prod.splits)
  then have "r' = r2" "set misses \<subseteq> insert i (set misses2)" using Cons.prems by (auto split: option.splits)
  then show ?case using Cons.IH [OF 2] s1 served_trans by fastforce
qed simp

lemma fetch_all_served:
  "fetch_all env m pf is r = (rs, r') \<Longrightarrow> list_all (\<lambda>i. i < length (rt_backends r)) is \<Longrightarrow> served r r'"
proof (induction "is" arbitrary: r rs r')
  case (Cons i "is")
  obtain res r1 where 1: "request env i m (pf (b_id (rt_backends r ! i))) r = (res, r1)" by force
  obtain rest r2 where 2: "fetch_all env m pf is r1 = (rest, r2)" by force
  have s: "served r r1" using request_served [OF 1] Cons.prems(2) by simp
  then have "list_all (\<lambda>i. i < length (rt_backends r1)) is" using Cons.prems(2) served_size by simp
  moreover have "r' = r2" using Cons.prems(1) 1 2 by (simp add: Let_def)
  ultimately show ?case using s Cons.IH [OF 2] served_trans by blast
qed simp

lemma absorb_results_served:
  "absorb_results env use m rs per un r = (out, r') \<Longrightarrow>
     served r r' \<and> (rt_resilient r \<longrightarrow> (\<exists>x. out = Inr x))"
proof (induction env use m rs per un r rule: absorb_results.induct)
  case (3 env use m bid response rs per un r)
  define r1 where "r1 = (case rt_cache r of
                 Some c \<Rightarrow>
                   if use then
                     (let (now, r) = clock env r
                      in r\<lparr>rt_cache := Some (cache_put bid m (rt_principal r)
                            (unwrap_or (jget ''result'' response) (jobj [])) now c)\<rparr>)
                   else r
               | None \<Rightarrow> r)"
  have s: "served r r1"
    by (auto simp: r1_def clock_def Let_def split: option.splits intro!: served_same)
  have "absorb_results env use m rs (smap_put bid (unwrap_or (jget ''result'' response) (jobj [])) per) un r1 = (out, r')"
    using 3(2) by (simp add: r1_def Let_def)
  from 3(1) [OF refl r1_def this] show ?case
    using s served_trans served_resilient [OF s] by blast
qed (auto split: if_splits)

lemma label_items_served: "label_items cap pats bid items r = (out, r') \<Longrightarrow> served r r'"
proof (induction items arbitrary: r out r')
  case (Cons item items)
  show ?case
  proof (cases "get_str (cap_field cap) item")
    case None
    then show ?thesis using Cons by simp
  next
    case (Some v)
    let ?r1 = "if is_passthrough cap r \<and> \<not> rt_single r
      then r\<lparr>rt_reverse := entry_or_insert (exposed_label cap r bid v) (bid, v) (rt_reverse r)\<rparr> else r"
    obtain rest r2 where 2: "label_items cap pats bid items ?r1 = (rest, r2)" by force
    have "r' = r2" using Cons.prems Some 2 by (simp add: Let_def split: if_splits)
    moreover have "served r ?r1" by (auto intro!: served_same)
    ultimately show ?thesis using Cons.IH [OF 2] served_trans by blast
  qed
qed simp

lemma compose_items_served: "compose_items cap pats per bids r = (out, r') \<Longrightarrow> served r r'"
proof (induction bids arbitrary: r out r')
  case (Cons bid bids)
  show ?case
  proof (cases "smap_get bid per")
    case None
    then show ?thesis using Cons by simp
  next
    case (Some v)
    obtain here r1 where 1: "label_items cap pats bid (unwrap_or (get_array (cap_collection cap) v) []) r = (here, r1)"
      by force
    obtain rest r2 where 2: "compose_items cap pats per bids r1 = (rest, r2)" by force
    have "r' = r2" using Cons.prems Some 1 2 by (simp add: Let_def)
    then show ?thesis using label_items_served [OF 1] Cons.IH [OF 2] served_trans by blast
  qed
qed simp

lemma collect_served:
  assumes "collect env cap lf cursor variant r = (out, r')"
  shows "served r r' \<and> (rt_resilient r \<longrightarrow> (\<exists>x. out = Inr x))"
proof -
  let ?restrict = "map_option snd (resolve_cursor (e_dec env) cursor)"
  let ?all = "[0..<length (rt_backends r)]"
  let ?v = "effective_variant r variant"
  let ?hf = "case as_object lf of Some ob \<Rightarrow> ob \<noteq> [] | None \<Rightarrow> False"
  let ?use = "\<not> ?hf \<and> \<not> cursor \<noteq> JNull \<and> ?v = None"
  obtain picked r1 where 1: "select_backends env (filter_list ''keywords'' lf) ?restrict ?all r = (picked, r1)" by force
  obtain hits misses r2 where 2: "cache_hits env ?use (cap_list cap) picked r1 = (hits, misses, r2)"
    by (metis prod_cases3)
  let ?pf = "list_params ?hf lf (cursor \<noteq> JNull) cursor ?v ?restrict (rt_single r1)"
  obtain results r3 where 3: "fetch_all env (cap_list cap) ?pf misses r2 = (results, r3)" by force
  obtain un r4 where 4: "(if rt_resilient r3 then unavailable_ids env ?all r3 else ([], r3)) = (un, r4)" by force
  obtain ab r5 where 5: "absorb_results env ?use (cap_list cap) results hits un r4 = (ab, r5)" by force
  have s1: "served r r1" "set picked \<subseteq> set ?all" using select_backends_served [OF 1] by simp_all
  have s2: "served r1 r2" "set misses \<subseteq> set picked" using cache_hits_served [OF 2] by simp_all
  have len: "length (rt_backends r2) = length (rt_backends r)"
    using served_size [OF s1(1)] served_size [OF s2(1)] by simp
  have "list_all (\<lambda>i. i < length (rt_backends r2)) misses"
    using s1(2) s2(2) len by (auto simp: list_all_iff)
  with fetch_all_served [OF 3] have s3: "served r2 r3" .
  have s4: "served r3 r4" using 4 unavailable_ids_served by (auto split: if_splits)
  have s5: "served r4 r5" "rt_resilient r4 \<Longrightarrow> \<exists>x. ab = Inr x" using absorb_results_served [OF 5] by auto
  have s: "served r r5" using s1 s2 s3 s4 s5 served_trans by blast
  have res: "rt_resilient r4 = rt_resilient r"
    using s1 s2 s3 s4 served_resilient by metis
  have c: "collect env cap lf cursor variant r =
    (case ab of Inl e \<Rightarrow> (Inl e, r5)
     | Inr (per, unavail) \<Rightarrow>
         (let bids = map (\<lambda>i. b_id (rt_backends r5 ! i)) picked;
              (items, r) = compose_items cap (filter_list ''namePatterns'' lf) per bids r5
          in (Inr (items, unavail, next_cursors per bids), r)))"
    unfolding collect_def Let_def 1 prod.case 2 3 4 5 ..
  show ?thesis
  proof (cases ab)
    case (Inl e)
    then show ?thesis using assms c s s5(2) res by auto
  next
    case (Inr x)
    obtain per unavail where x: "x = (per, unavail)" by force
    let ?bids = "map (\<lambda>i. b_id (rt_backends r5 ! i)) picked"
    obtain items r6 where 6: "compose_items cap (filter_list ''namePatterns'' lf) per ?bids r5 = (items, r6)" by force
    have "served r r6" using s compose_items_served [OF 6] served_trans by blast
    then show ?thesis using assms c Inr x 6 by (auto simp: Let_def)
  qed
qed

section \<open>Every request is answered under its id\<close>

definition is_reply :: "json \<Rightarrow> json \<Rightarrow> bool" where
  "is_reply rid v \<longleftrightarrow> jget ''id'' v = Some rid \<and> jget ''method'' v = None"

definition answered :: "router \<Rightarrow> json \<Rightarrow> (io_error + json) \<times> router \<Rightarrow> bool" where
  "answered r rid p \<longleftrightarrow>
     served r (snd p) \<and> (rt_resilient r \<longrightarrow> (\<exists>v. fst p = Inr v)) \<and>
     (\<forall>v. fst p = Inr v \<longrightarrow> is_reply rid v)"

definition wf_router :: "router \<Rightarrow> bool" where
  "wf_router r \<longleftrightarrow> (rt_single r \<longrightarrow> rt_backends r \<noteq> [])"

lemma reply_id [simp]:
  "is_reply rid (rpc_result rid v)" "is_reply rid (rpc_error_value rid v)" "is_reply rid (rpc_error rid code msg)"
  by (simp_all add: is_reply_def rpc_result_def rpc_error_value_def rpc_error_def json_simps)

lemma relay_response_id [simp]: "is_reply rid (relay_response tr rid f v)"
  by (simp add: relay_response_def split: option.splits)

lemma failure_ids [simp]:
  "is_reply rid (unavailable_reply rid b)" "is_reply rid (failed_reply rid b)"
  "is_reply rid (search_reply env rid m ts r)" "is_reply rid (not_routable rid x)"
  by (simp_all add: unavailable_reply_def failed_reply_def search_reply_def not_routable_def Let_def)

lemma dispatch_local_id [simp]: "is_reply rid (dispatch_local env r h og args rid)"
  by (simp add: dispatch_local_def Let_def split: option.splits)

lemma answered_after: "served r s \<Longrightarrow> answered s rid p \<Longrightarrow> answered r rid p"
  unfolding answered_def using served_trans served_resilient by metis

lemma answered_reply: "served r s \<Longrightarrow> is_reply rid v \<Longrightarrow> answered r rid (Inr v, s)"
  by (simp add: answered_def)

lemma answered_error: "served r s \<Longrightarrow> \<not> rt_resilient r \<Longrightarrow> answered r rid (Inl e, s)"
  by (simp add: answered_def)

lemma check_available_served: "check_available env i r = (ok, r') \<Longrightarrow> served r r'"
  by (auto simp: check_available_def available_served split: if_splits)

lemma aggregate_answered: "answered r rid (aggregate env se rid cap lf cursor variant r)"
proof -
  have p: "cursor_problem env rid cursor v r = Some reply \<Longrightarrow> is_reply rid reply" for v reply
    by (auto simp: cursor_problem_def split: option.splits prod.splits if_splits)
  obtain out r1 where 1: "collect env cap lf cursor variant r = (out, r1)" by force
  note c = collect_served [OF 1]
  show ?thesis
  proof (cases out)
    case (Inl e)
    then have "\<not> rt_resilient r" using c by auto
    then show ?thesis
      using c Inl by (auto simp: aggregate_def 1 Let_def p answered_reply answered_error split: option.splits)
  next
    case (Inr x)
    obtain items un nexts where x: "x = (items, un, nexts)" by (metis prod_cases3)
    show ?thesis
      using c Inr x by (auto simp: aggregate_def 1 Let_def p answered_reply split: option.splits sum.splits)
  qed
qed

lemma outcome_loop_cases:
  "(\<exists>m'. outcome_loop message vs m = forward_outcome m') \<or> (\<exists>v. outcome_loop message vs m = block_outcome message v)"
  by (induction vs arbitrary: m) auto

lemma block_reply_id:
  assumes "get_str ''action'' (chain_run fs hook message) = Some ''block''"
  shows "is_reply (unwrap_or (jget ''id'' message) JNull) (jindex (chain_run fs hook message) ''response'')"
proof -
  have "get_str ''action'' (forward_outcome m) \<noteq> Some ''block''" for m
    by (simp add: forward_outcome_def get_str_def json_simps)
  then obtain v where "chain_run fs hook message = block_outcome message v"
    using assms outcome_loop_cases [of message _ message] unfolding chain_run_def chain_outcome_def by metis
  then show ?thesis by (simp add: block_outcome_def deny_response_def json_simps)
qed

lemma filter_request_served:
  "filter_request env cap message r = (out, r') \<Longrightarrow> jget ''id'' message = Some rid \<Longrightarrow>
     served r r' \<and> (\<forall>reply. out = Inl reply \<longrightarrow> is_reply rid reply)"
  using block_reply_id [where message = message]
  by (auto simp: filter_request_def Let_def split: option.splits if_splits)

lemma index_of_bound: "index_of bid r = Some i \<Longrightarrow> i < length (rt_backends r) \<and> b_id (rt_backends r ! i) = bid"
  unfolding index_of_def by (drule position_Some) simp

lemma locate_bound: "locate x r = Some (i, og) \<Longrightarrow> i < length (rt_backends r)"
  by (auto simp: locate_def index_of_bound split: option.splits)

lemma call_target_served:
  assumes "call_target env cap value r = (out, r')" "wf_router r"
  shows "served r r' \<and> (rt_resilient r \<longrightarrow> (\<exists>x. out = Inr x)) \<and>
    (\<forall>i og. out = Inr (Some (i, og)) \<longrightarrow> i < length (rt_backends r'))"
proof (cases "\<not> rt_single r \<and> cap_call cap = ''tools/call'' \<and> rt_strategy r = PASSTHROUGH")
  case True
  obtain res r1 where 1: "(if smap_get value (rt_reverse r) = None
      then collect env (CAPABILITIES ! 0) (jobj []) JNull None r else (Inr ([], [], []), r)) = (res, r1)" by force
  have s: "served r r1 \<and> (rt_resilient r \<longrightarrow> (\<exists>x. res = Inr x))"
    using 1 collect_served by (auto split: if_splits)
  have "call_target env cap value r =
      (case res of Inl e \<Rightarrow> (Inl e, r1) | Inr _ \<Rightarrow> (Inr (locate (smap_get value (rt_reverse r1)) r1), r1))"
    using True 1 by (simp add: call_target_def strategy_defs)
  then show ?thesis using assms(1) s locate_bound by (auto split: sum.splits)
next
  case False
  then show ?thesis
    using assms locate_bound
    by (auto simp: call_target_def wf_router_def Let_def split: if_splits option.splits)
qed

lemma served_audit: "served r s \<Longrightarrow> served r (record_audit env x s)"
  using served_trans record_audit_served by blast

lemma forward_call_answered:
  assumes "i < length (rt_backends r)"
  shows "answered r rid (forward_call env cap message rid value i og r)"
proof -
  let ?p = "jput (cap_field cap) (JStr og) (params_or_empty message)"
  obtain params r1 where 1: "trace_request ?p r = (params, r1)" by force
  let ?r2 = "record_audit env (attestation_record (unwrap_or (rt_principal r1) ''anonymous'') (cap_call cap) (Some value)) r1"
  obtain res r3 where 3: "request env i (cap_call cap) params ?r2 = (res, r3)" by force
  have s2: "served r ?r2" using trace_request_served [OF 1] served_audit by blast
  then have "i < length (rt_backends ?r2)" using assms served_size by simp
  then have s: "served r r3" using s2 request_served [OF 3] served_trans by blast
  show ?thesis
    using s served_audit [OF s] served_resilient [OF s]
    by (auto simp: forward_call_def 1 3 Let_def answered_reply answered_error split: sum.splits)
qed

lemma serve_search_answered: "answered r rid (serve_search env message rid r)"
proof -
  obtain out r1 where 1: "collect env (CAPABILITIES ! 0) (jobj []) JNull None r = (out, r1)" by force
  show ?thesis
    using collect_served [OF 1] by (auto simp: serve_search_def 1 answered_def split: sum.splits)
qed

lemma serve_target_answered:
  assumes "wf_router r"
  shows "answered r rid (serve_target env cap message rid value r)"
proof -
  obtain out r1 where 1: "call_target env cap value r = (out, r1)" by force
  note t = call_target_served [OF 1 assms]
  show ?thesis
  proof (cases "\<exists>i og. out = Inr (Some (i, og))")
    case True
    then obtain i og where out: "out = Inr (Some (i, og))" by blast
    obtain ok r2 where 2: "check_available env i r1 = (ok, r2)" by force
    have s: "served r r2" using t check_available_served [OF 2] served_trans by blast
    have "i < length (rt_backends r2)" using t out served_size [OF check_available_served [OF 2]] by simp
    then show ?thesis
      using s answered_after [OF s forward_call_answered] by (simp add: serve_target_def 1 out 2 answered_reply)
  next
    case False
    then show ?thesis
      using t by (auto simp: serve_target_def 1 answered_def split: sum.splits option.splits)
  qed
qed

lemma route_call_answered:
  assumes "wf_router r" "jget ''id'' message = Some rid"
  shows "answered r rid (route_call env message rid cap r)"
proof -
  obtain out r1 where 1: "filter_request env cap message r = (out, r1)" by force
  have s: "served r r1" and id: "\<And>reply. out = Inl reply \<Longrightarrow> is_reply rid reply"
    using filter_request_served [OF 1 assms(2)] by auto
  have "wf_router r1"
    using assms(1) s served_size [OF s] by (auto simp: wf_router_def served_def frame_def)
  then show ?thesis
    using s id answered_after [OF s serve_search_answered] answered_after [OF s serve_target_answered]
    by (auto simp: route_call_def 1 Let_def answered_reply split: sum.splits option.splits)
qed

lemma frame_abort_run [simp]: "frame (abort_run h r) = frame r" "rt_wire (abort_run h r) = rt_wire r"
  by (simp_all add: abort_run_def)

lemma serve_local_task_answered:
  "answered r rid (Inr (fst (serve_local_task rid m tid r)), snd (serve_local_task rid m tid r))"
  by (auto simp: serve_local_task_def Let_def intro!: answered_reply served_same split: option.splits)

lemma forward_keyed_answered:
  assumes "i < length (rt_backends r)"
  shows "answered r rid (forward_keyed env m fld shape message rid i og r)"
proof -
  obtain ok r1 where 1: "check_available env i r = (ok, r1)" by force
  have s1: "served r r1" using check_available_served [OF 1] .
  obtain params r2 where 2: "trace_request (jput fld (JStr og) (params_or_empty message)) r1 = (params, r2)" by force
  have s2: "served r r2" using s1 trace_request_served [OF 2] served_trans by blast
  obtain res r3 where 3: "request env i m params r2 = (res, r3)" by force
  have "i < length (rt_backends r2)" using assms served_size [OF s2] by simp
  then have s3: "served r r3" using s2 request_served [OF 3] served_trans by blast
  show ?thesis
    using s1 s3 served_resilient [OF s3]
    by (auto simp: forward_keyed_def 1 2 3 Let_def answered_reply answered_error split: sum.splits)
qed

lemma route_task_answered: "answered r rid (route_task env message rid m r)"
  using serve_local_task_answered [of r rid m "unwrap_or (param_str ''taskId'' message) []"]
  by (auto simp: route_task_def Let_def answered_reply split: option.splits prod.splits
      dest!: locate_bound intro: forward_keyed_answered)

lemma route_subscription_answered:
  assumes "wf_router r"
  shows "answered r rid (route_subscription env message rid m r)"
proof -
  have "served r (r\<lparr>rt_subs := s\<rparr>)" for s by (rule served_same) simp_all
  then show ?thesis
    using assms by (auto simp: route_subscription_def Let_def answered_reply wf_router_def split: option.splits
        dest!: locate_bound intro: forward_keyed_answered)
qed

lemma variant_error_id: "variant_error r rid v = Some e \<Longrightarrow> is_reply rid e"
  by (auto simp: variant_error_def split: option.splits if_splits)

lemma dispatch_answered:
  assumes "wf_router r" "jget ''id'' message = Some rid"
  shows "answered r rid (dispatch env se message rid r)"
proof -
  note parts = route_task_answered route_subscription_answered [OF assms(1)] aggregate_answered
    route_call_answered [OF assms]
  show ?thesis
    by (auto simp: dispatch_def Let_def parts answered_reply variant_error_id split: option.splits)
qed

section \<open>One iteration of the loop\<close>

lemma watch_available_served: "watch_available env is r = (cur, r') \<Longrightarrow> served r r' \<and> rt_wire r' = rt_wire r"
proof (induction "is" arbitrary: r cur r')
  case (Cons i "is")
  obtain ok r1 where 1: "available env i r = (ok, r1)" by force
  obtain rest r2 where 2: "watch_available env is r1 = (rest, r2)" by force
  have "rt_wire r1 = rt_wire r"
    using 1 by (auto simp: available_def Let_def clock_def split: option.splits prod.splits)
  moreover have "r' = r2" using Cons.prems 1 2 by (simp add: Let_def split: if_splits)
  ultimately show ?case using available_served [OF 1] Cons.IH [OF 2] served_trans by auto
qed simp

lemma emit_if_changed_wire:
  "frame (emit_if_changed env r) = frame r \<and>
   (\<exists>tail. rt_wire (emit_if_changed env r) = rt_wire r @ tail \<and>
     (tail = [] \<or> tail = [ToClient list_changed_notification]))"
proof -
  obtain cur r1 where 1: "watch_available env [0..<length (rt_backends r)] r = (cur, r1)" by force
  have e: "frame (emit w s) = frame s" for w s by (simp add: emit_def frame_defs)
  have w: "served r r1" "rt_wire r1 = rt_wire r" using watch_available_served [OF 1] by simp_all
  then show ?thesis
    by (auto simp: emit_if_changed_def 1 Let_def e served_def emit_def [THEN arg_cong [where f = rt_wire]]
        split: option.splits)
qed

definition is_request :: "json \<Rightarrow> bool" where
  "is_request message \<longleftrightarrow> method_of message \<noteq> None \<and> jget ''id'' message \<noteq> None"

text \<open>A request is answered at once, or becomes a pooled call; a router that is not resilient may
  end instead.\<close>

definition answers :: "json \<Rightarrow> router \<Rightarrow> router \<Rightarrow> bool" where
  "answers rid r r' \<longleftrightarrow>
     (\<exists>ws reply tail. rt_wire r' = rt_wire r @ ws @ [ToClient reply] @ tail \<and>
        list_all (own_request (roster r)) ws \<and> is_reply rid reply \<and>
        (tail = [] \<or> tail = [ToClient list_changed_notification])) \<and> frame r' = frame r"

lemma answersI:
  assumes "served r r1" "is_reply rid reply" "frame r' = frame r1"
    and "rt_wire r' = rt_wire (emit (ToClient reply) r1) @ tail"
    and "tail = [] \<or> tail = [ToClient list_changed_notification]"
  shows "answers rid r r'"
proof -
  obtain ws where ws: "rt_wire r1 = rt_wire r @ ws" "list_all (own_request (roster r)) ws"
    using assms(1) by (auto simp: served_def)
  have f: "frame r' = frame r" using assms(1,3) by (simp add: served_def)
  have w: "rt_wire r' = rt_wire r @ ws @ [ToClient reply] @ tail" using assms(4) ws(1) by (simp add: emit_def)
  show ?thesis unfolding answers_def using f w ws(2) assms(2,5) by blast
qed

lemma frame_emit [simp]: "frame (emit w r) = frame r"
  by (simp add: emit_def)

lemma originate_task_served:
  "originate_task message rid r = (reply, r') \<Longrightarrow> served r r' \<and> is_reply rid reply"
  by (auto simp: originate_task_def spawn_task_execution_def Let_def
      split: prod.splits intro!: served_same)

lemma route_request_cases:
  assumes "wf_router r" "jget ''id'' message = Some rid"
    and out: "route_request env se message rid r = (err, r')"
  obtains (answered) "err = None" "answers rid r r'"
    | (pooled) "err = None" "rt_pool_enabled r" "r' = spawn_pooled_call env message rid r"
    | (ended) e where "err = Some e" "\<not> rt_resilient r" "served r r'"
proof (cases "runs_spawned message r \<and> rt_server_tasks r \<and> is_task_augmented (params_or_empty message)")
  case True
  obtain reply r1 where 1: "originate_task message rid r = (reply, r1)" by force
  have "err = None" "r' = emit (ToClient reply) r1" using out True 1 by (simp_all add: route_request_def)
  moreover have "answers rid r (emit (ToClient reply) r1)"
    using originate_task_served [OF 1] by (intro answersI [of r r1 rid reply _ "[]"]) simp_all
  ultimately show ?thesis using answered by blast
next
  case False
  note notask = False
  show ?thesis
  proof (cases "runs_spawned message r \<and> rt_pool_enabled r")
    case True
    have "(err, r') = (None, spawn_pooled_call env message rid r)"
      using out unfolding route_request_def if_not_P [OF notask] if_P [OF True] by simp
    then show ?thesis using pooled True by blast
  next
    case False
    obtain res r1 where 1: "dispatch env se message rid r = (res, r1)" by force
    have d: "answered r rid (res, r1)" using dispatch_answered [OF assms(1,2), of env se] 1 by simp
    have o1: "(err, r') = (case res of Inl e \<Rightarrow> (Some e, r1)
        | Inr response \<Rightarrow> (let r = emit (ToClient response) r1
              in (None, if rt_resilient r then emit_if_changed env r else r)))"
      using out unfolding route_request_def if_not_P [OF notask] if_not_P [OF False] 1 prod.case by simp
    show ?thesis
    proof (cases res)
      case (Inl e)
      then have "err = Some e" "r' = r1" using o1 by simp_all
      moreover have "\<not> rt_resilient r" "served r r1" using d Inl by (auto simp: answered_def)
      ultimately show ?thesis using ended by blast
    next
      case (Inr reply)
      let ?r2 = "emit (ToClient reply) r1"
      have "err = None" and r': "r' = (if rt_resilient ?r2 then emit_if_changed env ?r2 else ?r2)"
        using o1 Inr by (simp_all add: Let_def)
      obtain tail where tail: "rt_wire r' = rt_wire ?r2 @ tail" "frame r' = frame ?r2"
          "tail = [] \<or> tail = [ToClient list_changed_notification]"
        using r' emit_if_changed_wire [of env ?r2] by (auto split: if_splits)
      have "answers rid r r'"
        using d Inr tail by (intro answersI [of r r1 rid reply _ tail]) (simp_all add: answered_def)
      then show ?thesis using answered \<open>err = None\<close> by blast
    qed
  qed
qed

lemma route_request_credentials:
  assumes "wf_router r" "jget ''id'' message = Some rid" "route_request env se message rid r = (err, r')"
  shows "\<exists>ws. rt_wire r' = rt_wire r @ ws \<and>
    list_all (\<lambda>w. case w of ToClient _ \<Rightarrow> True
      | ToBackend bid m \<Rightarrow> list_ex (\<lambda>b. b_id b = bid \<and> (credential m = None \<or> credential m = bearer (b_token b)))
                             (rt_backends r)) ws"
proof -
  let ?ok = "\<lambda>w. case w of ToClient _ \<Rightarrow> True
      | ToBackend bid m \<Rightarrow> list_ex (\<lambda>b. b_id b = bid \<and> (credential m = None \<or> credential m = bearer (b_token b)))
                             (rt_backends r)"
  have own: "?ok w" if "own_request (roster r) w" for w
    using that by (cases w) (auto simp: roster_def list_ex_iff)
  have all: "list_all ?ok ws" if "list_all (own_request (roster r)) ws" for ws
    using that own by (auto simp: list_all_iff)
  show ?thesis
  proof (rule route_request_cases [OF assms])
    assume "answers rid r r'"
    then obtain ws reply tail where "rt_wire r' = rt_wire r @ ws @ [ToClient reply] @ tail"
        "list_all (own_request (roster r)) ws" "tail = [] \<or> tail = [ToClient list_changed_notification]"
      unfolding answers_def by blast
    then show ?thesis using all [of ws] by (intro exI [of _ "ws @ [ToClient reply] @ tail"]) auto
  next
    assume "r' = spawn_pooled_call env message rid r"
    then show ?thesis by (auto simp: spawn_pooled_call_def Let_def split: option.splits)
  next
    assume "served r r'"
    then show ?thesis using all by (auto simp: served_def)
  qed
qed

lemma wf_router_frame: "frame r' = frame r \<Longrightarrow> wf_router r' \<longleftrightarrow> wf_router r"
proof -
  assume f: "frame r' = frame r"
  then have "length (rt_backends r') = length (rt_backends r)"
    unfolding frame_defs prod.inject by (blast dest: map_eq_imp_length_eq)
  then show ?thesis using f by (auto simp: wf_router_def frame_def)
qed

text \<open>The ids of the replies in a list of writes.\<close>

definition reply_id_of :: "wire \<Rightarrow> json option" where
  "reply_id_of w = (case w of ToClient m \<Rightarrow> if jget ''method'' m = None then jget ''id'' m else None
                           | ToBackend _ _ \<Rightarrow> None)"

definition reply_ids :: "wire list \<Rightarrow> json list" where
  "reply_ids ws = List.map_filter reply_id_of ws"

lemma reply_ids_simps [simp]:
  "reply_ids [] = []" "reply_ids (xs @ ys) = reply_ids xs @ reply_ids ys"
  "reply_ids [ToBackend b m] = []" "is_reply rid v \<Longrightarrow> reply_ids [ToClient v] = [rid]"
  "jget ''method'' v \<noteq> None \<Longrightarrow> reply_ids [ToClient v] = []"
  by (auto simp: reply_ids_def reply_id_of_def is_reply_def List.map_filter_def)

lemma reply_ids_requests [simp]: "list_all (own_request st) ws \<Longrightarrow> reply_ids ws = []"
  by (induction ws) (auto simp: reply_ids_def reply_id_of_def List.map_filter_simps split: wire.splits)

lemma list_changed_no_reply [simp]: "reply_ids [ToClient list_changed_notification] = []"
  by (simp add: list_changed_notification_def json_simps)

lemma answers_reply_ids:
  assumes "answers rid r r'"
  shows "reply_ids (rt_wire r') = reply_ids (rt_wire r) @ [rid]" "frame r' = frame r"
proof -
  obtain ws reply tail where "rt_wire r' = rt_wire r @ ws @ [ToClient reply] @ tail"
      "list_all (own_request (roster r)) ws" "is_reply rid reply"
      "tail = [] \<or> tail = [ToClient list_changed_notification]" "frame r' = frame r"
    using assms unfolding answers_def by blast
  moreover from this(4) have "reply_ids tail = []" by auto
  ultimately show "reply_ids (rt_wire r') = reply_ids (rt_wire r) @ [rid]" "frame r' = frame r"
    by (simp_all del: append_Cons append_Nil)
qed

end
