(* ===== verification/RouterSession.thy ===== *)
theory RouterSession
  imports RouterProps
begin

text \<open>
  A session of the forward router (\<open>src/src/router.rs\<close>): its construction, the handshake, what
  the spawned tasks do, and \<open>serve\<close>. The parts that run beside the route loop (backend readers,
  pooled calls, runs of tasks, health pings, resource publishers) are the rules of the relation
  \<open>session\<close>, one step at a time in any order. A spawned task reaches its handler in one step: the
  code before its first await writes no shared state that another step reads.
\<close>

section \<open>Construction\<close>

definition configure :: "backend list \<Rightarrow> router" where
  "configure bs =
     \<lparr>rt_backends = bs, rt_resilient = list_ex (\<lambda>b. b_breaker b \<noteq> None) bs,
      rt_single = (length bs = 1), rt_trace = True, rt_disclose = False,
      rt_threshold = DEFAULT_TOOL_THRESHOLD, rt_surface = b_id ` set bs, rt_cache = None,
      rt_principal = None, rt_server_requests = [], rt_server_seq = 0, rt_reverse = [],
      rt_audit = None, rt_strategy = PREFIX, rt_priority = [], rt_overrides = [], rt_registry = [],
      rt_issuer = None, rt_audience = None, rt_variants = [], rt_filters = None,
      rt_directives = None, rt_validate = False, rt_pool_enabled = False, rt_pool_idle = 0,
      rt_pool_permits = None, rt_inflight = [], rt_pool_tasks = [], rt_pool_tokens = [],
      rt_server_tasks = False, rt_tasks = tasks_new, rt_task_handles = [], rt_pool_calls = [],
      rt_task_runs = [], rt_call_seq = 0, rt_run_seq = 0, rt_subs_enabled = False, rt_subs = [],
      rt_output_limit = MAX_OUTPUT_BYTES, rt_wire = [], rt_ticks = 0, rt_trace_seq = 1\<rparr>"

definition set_registry :: "wire list registry \<Rightarrow> router \<Rightarrow> router" where
  "set_registry reg r =
     r\<lparr>rt_single := (length (rt_backends r) = 1 \<and> registry_ids reg = {}), rt_registry := reg\<rparr>"

definition set_worker_pool :: "u64 \<Rightarrow> u64 \<Rightarrow> router \<Rightarrow> router" where
  "set_worker_pool cap idle r =
     r\<lparr>rt_pool_enabled := True, rt_pool_idle := idle,
       rt_pool_permits := (if 0 < cap then Some (unat cap) else None)\<rparr>"

definition set_cache :: "list_cache \<Rightarrow> str option \<Rightarrow> router \<Rightarrow> router" where
  "set_cache c owner r = r\<lparr>rt_cache := Some c, rt_principal := owner\<rparr>"

definition set_auth :: "str option \<Rightarrow> str option \<Rightarrow> router \<Rightarrow> router" where
  "set_auth issuer audience r = r\<lparr>rt_issuer := issuer, rt_audience := audience\<rparr>"

definition set_disclose :: "nat \<Rightarrow> router \<Rightarrow> router" where
  "set_disclose cap r = r\<lparr>rt_disclose := True, rt_threshold := cap\<rparr>"

section \<open>Handshake\<close>

definition initialize_params :: json where
  "initialize_params =
     jobj [(''protocolVersion'', JStr PROXY_PROTOCOL_VERSION), (''capabilities'', jobj []),
           (''clientInfo'', proxy_server_info)]"

definition initialized_notification :: json where
  "initialized_notification =
     jobj [(''jsonrpc'', JStr ''2.0''), (''method'', JStr ''notifications/initialized'')]"

text \<open>\<open>Backend::handshake\<close>\<close>

definition backend_handshake :: "env \<Rightarrow> nat \<Rightarrow> router \<Rightarrow> io_error option \<times> router" where
  "backend_handshake env i r =
     (case request env i ''initialize'' initialize_params r of
        (Inl e, r) \<Rightarrow> (Some e, r)
      | (Inr reply, r) \<Rightarrow>
          (let r = (case jget ''result'' reply of
                      Some result \<Rightarrow>
                        set_backend i ((rt_backends r ! i)
                          \<lparr>b_capabilities := unwrap_or (jget ''capabilities'' result) (jobj []),
                           b_server_info := jget ''serverInfo'' result\<rparr>) r
                    | None \<Rightarrow> r)
           in send_message env i initialized_notification r))"

fun handshake_backends :: "env \<Rightarrow> nat list \<Rightarrow> router \<Rightarrow> (io_error + json list) \<times> router" where
  "handshake_backends env [] r = (Inr [], r)"
| "handshake_backends env (i # is) r =
     (case backend_handshake env i r of
        (None, r) \<Rightarrow>
          (case handshake_backends env is r of
             (Inr caps, r') \<Rightarrow> (Inr (b_capabilities (rt_backends r ! i) # caps), r')
           | (Inl e, r') \<Rightarrow> (Inl e, r'))
      | (Some e, r) \<Rightarrow>
          if \<not> rt_resilient r then (Inl e, r)
          else handshake_backends env is (record_breaker env i False r))"

text \<open>The capabilities of the session: composed, with the tools of local handlers, and with the
  variants every variant-supporting backend offers in the place of the naive union.\<close>

definition with_local_tools :: "bool \<Rightarrow> json \<Rightarrow> json" where
  "with_local_tools local caps =
     (if local \<and> jget ''tools'' caps = None then jput ''tools'' (jobj []) caps else caps)"

definition with_variants :: "json list \<Rightarrow> json \<Rightarrow> json" where
  "with_variants vs caps =
     (if vs = [] then
        (case Option.bind (jget ''extensions'' caps) as_object of
           Some ext \<Rightarrow>
             (let ext = smap_del EXTENSION_ID ext
              in if ext = [] then jdel ''extensions'' caps else jput ''extensions'' (JObj ext) caps)
         | None \<Rightarrow> caps)
      else
        jput ''extensions''
          (jput EXTENSION_ID (jobj [(''availableVariants'', JArr vs)])
             (unwrap_or (jget ''extensions'' caps) (jobj []))) caps)"

definition initialize_reply :: "json \<Rightarrow> json \<Rightarrow> json" where
  "initialize_reply rid capabilities =
     rpc_result rid (jobj [(''protocolVersion'', JStr PROXY_PROTOCOL_VERSION),
       (''capabilities'', capabilities), (''serverInfo'', proxy_server_info)])"

definition client_claims :: "json \<Rightarrow> json" where
  "client_claims init =
     unwrap_or (Option.bind (Option.bind (jget ''params'' init) (jget ''_meta'')) (jget CLAIMS_META_KEY)) (jobj [])"

definition id_or_null :: "json \<Rightarrow> json" where
  "id_or_null message = unwrap_or (jget ''id'' message) JNull"

definition handshake_init :: "env \<Rightarrow> json \<Rightarrow> router \<Rightarrow> (io_error + bool) \<times> router" where
  "handshake_init env init r =
     (if method_of init \<noteq> Some ''initialize'' then
        (Inl (IoError InvalidData ''first client message was not initialize''),
         emit (ToClient (rpc_error (id_or_null init) INVALID_REQUEST ''expected initialize'')) r)
      else if (rt_issuer r \<noteq> None \<or> rt_audience r \<noteq> None) \<and>
              \<not> claims_valid (client_claims init) (rt_issuer r) (rt_audience r) then
        (Inl (IoError PermissionDenied ''client token claims failed iss/aud validation''),
         emit (ToClient (rpc_error (id_or_null init) UNAUTHORIZED ''invalid token claims'')) r)
      else
        (case handshake_backends env [0..<length (rt_backends r)] r of
           (Inl e, r) \<Rightarrow> (Inl e, r)
         | (Inr backend_caps, r) \<Rightarrow>
             (let (surface, r) = watch_available env [0..<length (rt_backends r)] r;
                  client_caps = Option.bind (jget ''params'' init) (jget ''capabilities'');
                  caps = with_local_tools (registry_ids (rt_registry r) \<noteq> {})
                           (compose_capabilities backend_caps client_caps);
                  vs = compose_variants backend_caps
              in (Inr True,
                  emit (ToClient (initialize_reply (id_or_null init) (with_variants vs caps)))
                    (r\<lparr>rt_surface := surface, rt_variants := variant_ids vs\<rparr>)))))"

text \<open>The frames of the client: the first is the initialize, the second is consumed unread.\<close>

fun handshake :: "env \<Rightarrow> byte list list \<Rightarrow> router \<Rightarrow> (io_error + bool) \<times> byte list list \<times> router" where
  "handshake env [] r = (Inr False, [], r)"
| "handshake env (raw # raws) r =
     (case rpc_decode env raw of
        Inl e \<Rightarrow> (Inl e, raws, r)
      | Inr init \<Rightarrow>
          (case handshake_init env init r of
             (Inl e, r) \<Rightarrow> (Inl e, raws, r)
           | (Inr ok, r) \<Rightarrow> (Inr ok, drop 1 raws, r)))"

section \<open>Spawned tasks\<close>

text \<open>\<open>run_pooled\<close>: the filter chain, then the local dispatch.\<close>

definition run_pooled :: "env \<Rightarrow> json \<Rightarrow> json \<Rightarrow> router \<Rightarrow> json \<times> router" where
  "run_pooled env message rid r =
     (let out = (case rt_filters r of
                   None \<Rightarrow> Inr message
                 | Some filters \<Rightarrow>
                     (let out = chain_run filters REQUEST message
                      in if jindex out ''action'' = JStr ''block'' then Inl (jindex out ''response'')
                         else Inr (jindex out ''message'')))
      in case out of
           Inl response \<Rightarrow>
             (response, record_audit env (outcome_record ''tools/call'' (param_str ''name'' message) False) r)
         | Inr message \<Rightarrow>
             (let name = unwrap_or (param_str ''name'' message) [];
                  arguments = unwrap_or (Option.bind (jget ''params'' message) (jget ''arguments'')) (jobj [])
              in case ns_split name of
                   Some (bid, original) \<Rightarrow> (dispatch_local env r bid original arguments rid, r)
                 | None \<Rightarrow> (rpc_error rid METHOD_NOT_FOUND (''unknown tool: '' @ name), r)))"

definition running_calls :: "router \<Rightarrow> nat" where
  "running_calls r = length (filter pc_running (rt_pool_calls r))"

definition permit_free :: "router \<Rightarrow> bool" where
  "permit_free r \<longleftrightarrow> (case rt_pool_permits r of Some n \<Rightarrow> running_calls r < n | None \<Rightarrow> True)"

text \<open>The body of the task \<open>spawn_pooled_call\<close> spawns: it takes a permit and registers, and it
  ends by removing what it registered and sending its response.\<close>

definition start_call :: "env \<Rightarrow> pool_call \<Rightarrow> router \<Rightarrow> router" where
  "start_call env j r =
     (let (now, r) = now_ms env r
      in r\<lparr>rt_pool_calls := map (\<lambda>x. if pc_handle x = pc_handle j then x\<lparr>pc_running := True\<rparr> else x)
                              (rt_pool_calls r),
           rt_inflight := if_register (\<lambda>v. str_of_bytes (e_enc env v)) (pc_id j)
                            (deadline now (rt_pool_idle r)) (rt_inflight r)\<rparr>)"

definition finish_call :: "env \<Rightarrow> pool_call \<Rightarrow> json \<Rightarrow> router \<Rightarrow> router" where
  "finish_call env j response r =
     (let r = abort_call (pc_handle j) r;
          r = r\<lparr>rt_inflight := snd (if_remove (\<lambda>v. str_of_bytes (e_enc env v)) (pc_id j) (rt_inflight r)),
                rt_pool_tasks := smap_del (request_key env (pc_id j)) (rt_pool_tasks r),
                rt_pool_tokens := (case call_token (pc_message j) of
                   Some token \<Rightarrow> smap_del (request_key env token) (rt_pool_tokens r)
                 | None \<Rightarrow> rt_pool_tokens r)\<rparr>
      in emit (ToClient response) r)"

definition idle_reply :: "json \<Rightarrow> json" where
  "idle_reply rid =
     rpc_error_value rid (error_object INTERNAL_ERROR (Some ''call exceeded idle deadline''))"

definition task_failed_error :: json where
  "task_failed_error = error_object INTERNAL_ERROR (Some ''task execution failed'')"

text \<open>The end of the task \<open>spawn_task_execution\<close> spawns.\<close>

definition finish_run :: "task_run \<Rightarrow> json \<Rightarrow> router \<Rightarrow> router" where
  "finish_run j response r =
     (let store = (case jget ''result'' response of
                     Some result \<Rightarrow> task_complete (tr_task j) result (rt_tasks r)
                   | None \<Rightarrow> task_fail (tr_task j) (unwrap_or (jget ''error'' response) task_failed_error)
                               (rt_tasks r))
      in abort_run (tr_handle j)
           (r\<lparr>rt_tasks := store, rt_task_handles := smap_del (tr_task j) (rt_task_handles r)\<rparr>))"

text \<open>Shutdown: what still runs when the drain window is over is aborted.\<close>

definition drain :: "router \<Rightarrow> router" where
  "drain r =
     r\<lparr>rt_pool_calls := filter (\<lambda>j. pc_handle j \<notin> snd ` set (rt_pool_tasks r)) (rt_pool_calls r),
       rt_task_runs := filter (\<lambda>j. tr_handle j \<notin> snd ` set (rt_task_handles r)) (rt_task_runs r),
       rt_pool_tasks := [], rt_task_handles := []\<rparr>"

text \<open>\<open>serve\<close>, with nothing running beside the loop.\<close>

definition serve :: "env \<Rightarrow> (manual_error \<Rightarrow> str) \<Rightarrow> byte list list \<Rightarrow> router \<Rightarrow> io_error option \<times> router" where
  "serve env show_error raws r =
     (case handshake env raws r of
        (Inl e, _, r) \<Rightarrow> (Some e, r)
      | (Inr False, _, r) \<Rightarrow> (None, r)
      | (Inr True, raws, r) \<Rightarrow>
          (case route_loop env show_error raws r of
             (Some e, r) \<Rightarrow> (Some e, r)
           | (None, r) \<Rightarrow> (None, drain r)))"

end
