(* ===== verification/RouterRun.thy ===== *)
theory RouterRun
  imports RouterSession "HOL-Library.Multiset"
begin

text \<open>
  Runs of the forward router: the route loop, the backend readers, the spawned tasks, the health
  pings and the resource publishers as the rules of one relation, taken in any order. The
  invariants of every run: the worker pool stays within its permits, and every request of the
  client is answered once, still held by the pool, or was dropped by a cancellation of its own;
  what else reaches the client as a reply is a stray reply of a backend.
\<close>

section \<open>Runs\<close>

inductive spawned_step :: "env \<Rightarrow> router \<Rightarrow> router \<Rightarrow> bool" for env where
  start: "\<lbrakk>j \<in> set (rt_pool_calls r); \<not> pc_running j; permit_free r\<rbrakk>
    \<Longrightarrow> spawned_step env r (start_call env j r)"
| finish: "\<lbrakk>j \<in> set (rt_pool_calls r); pc_running j; run_pooled env (pc_message j) (pc_id j) r = (response, r')\<rbrakk>
    \<Longrightarrow> spawned_step env r (finish_call env j response r')"
| idle: "\<lbrakk>j \<in> set (rt_pool_calls r); pc_running j; rt_pool_idle r \<noteq> 0\<rbrakk>
    \<Longrightarrow> spawned_step env r (finish_call env j (idle_reply (pc_id j)) r)"
| run: "\<lbrakk>j \<in> set (rt_task_runs r); run_pooled env (tr_message j) (tr_id j) r = (response, r')\<rbrakk>
    \<Longrightarrow> spawned_step env r (finish_run j response r')"

datatype event = FromClient json | FromBackend str json | Spawned | Ping nat | Publish str

inductive session :: "env \<Rightarrow> (manual_error \<Rightarrow> str) \<Rightarrow> router \<Rightarrow> event list \<Rightarrow> router \<Rightarrow> bool"
  for env show_error r0 where
  init: "session env show_error r0 [] r0"
| client: "\<lbrakk>session env show_error r0 es r; route_message env show_error m r = (None, r')\<rbrakk>
    \<Longrightarrow> session env show_error r0 (es @ [FromClient m]) r'"
| backend: "session env show_error r0 es r
    \<Longrightarrow> session env show_error r0 (es @ [FromBackend i m]) (receive_backend pending i m r)"
| spawned: "\<lbrakk>session env show_error r0 es r; spawned_step env r r'\<rbrakk>
    \<Longrightarrow> session env show_error r0 (es @ [Spawned]) r'"
| ping: "\<lbrakk>session env show_error r0 es r; rt_resilient r; i < length (rt_backends r);
      request env i ''ping'' (jobj []) r = (res, r')\<rbrakk>
    \<Longrightarrow> session env show_error r0 (es @ [Ping i]) (emit_if_changed env r')"
| publish: "session env show_error r0 es r
    \<Longrightarrow> session env show_error r0 (es @ [Publish u]) (snd (RouterRoute.publish u r))"

inductive_cases spawned_stepE: "spawned_step env r r'"

section \<open>Steps that leave the pool and the replies alone\<close>

definition quiet :: "router \<Rightarrow> router \<Rightarrow> bool" where
  "quiet r r' \<longleftrightarrow>
     rt_pool_calls r' = rt_pool_calls r \<and> rt_call_seq r' = rt_call_seq r \<and>
     rt_pool_permits r' = rt_pool_permits r \<and> reply_ids (rt_wire r') = reply_ids (rt_wire r) \<and>
     rt_single r' = rt_single r \<and> length (rt_backends r') = length (rt_backends r)"

lemma quiet_refl [simp]: "quiet r r"
  by (simp add: quiet_def)

lemma quiet_trans [trans]: "quiet r s \<Longrightarrow> quiet s t \<Longrightarrow> quiet r t"
  by (simp add: quiet_def)

lemma served_quiet: "served r r' \<Longrightarrow> quiet r r'"
  using served_size [of r r'] by (auto simp: served_def quiet_def frame_def pool_view_def)

lemma quiet_update [simp]:
  "quiet r (r\<lparr>rt_ticks := a\<rparr>)" "quiet r (r\<lparr>rt_inflight := b\<rparr>)" "quiet r (r\<lparr>rt_server_requests := c\<rparr>)"
  "quiet r (r\<lparr>rt_pool_tasks := d\<rparr>)" "quiet r (r\<lparr>rt_pool_tokens := e\<rparr>)" "quiet r (r\<lparr>rt_tasks := f\<rparr>)"
  "quiet r (r\<lparr>rt_cache := g\<rparr>)" "quiet r (r\<lparr>rt_task_handles := h\<rparr>)" "quiet r (abort_run i r)"
  "quiet r (r\<lparr>rt_server_seq := j\<rparr>)" "quiet r (emit (ToBackend k v) r)"
  by (simp_all add: quiet_def abort_run_def emit_def)

lemma quiet_no_reply: "jget ''method'' m \<noteq> None \<Longrightarrow> quiet r (emit (ToClient m) r)"
  by (simp add: quiet_def emit_def)

lemma quiet_send: "quiet r (snd (send_message env i m r))"
  by (auto simp: send_message_def Let_def split: delivery.splits)

lemma quiet_send_to: "quiet r (send_to env i m r)"
  by (auto simp: send_to_def quiet_send split: option.splits)

lemma quiet_reply: "quiet r (route_client_reply env m r)"
proof -
  have "quiet r (send_to env i v (r\<lparr>rt_server_requests := q\<rparr>))" for i v q
    using quiet_trans quiet_send_to quiet_update(3) by blast
  then show ?thesis by (auto simp: route_client_reply_def split: option.splits prod.splits)
qed

lemma quiet_deliver: "quiet r (deliver_cancellation env m k r)"
proof -
  have "quiet r (send_to env i v (r\<lparr>rt_server_requests := q\<rparr>))" for i v q
    using quiet_trans quiet_send_to quiet_update(3) by blast
  then show ?thesis by (auto simp: deliver_cancellation_def split: option.splits prod.splits)
qed

lemma quiet_touch: "quiet r (touch_progress env m r)"
  by (auto simp: touch_progress_def now_ms_def quiet_def Let_def split: option.splits)

lemma quiet_broadcast: "quiet r (broadcast env m is r)"
proof (induction "is" arbitrary: r)
  case (Cons i "is")
  show ?case using quiet_trans [OF quiet_send Cons] by simp
qed simp

lemma relabel_method: "jget ''method'' (relabel_inbound single i m) = jget ''method'' m"
  by (cases m) (auto simp: relabel_inbound_def namespace_event_def namespace_updated_def relabel_def json_simps
      split: option.splits)

lemma quiet_receive: "jget ''method'' m \<noteq> None \<Longrightarrow> quiet r (receive_backend pending i m r)"
proof -
  assume m: "jget ''method'' m \<noteq> None"
  obtain out r1 where 1: "read_backend pending i m r = (out, r1)" by force
  have "quiet r r1"
    using 1 by (auto simp: read_backend_def Let_def quiet_def split: option.splits if_splits)
  moreover have "jget ''method'' v \<noteq> None" if "out = ForClient v" for v
    using 1 m that relabel_method
    by (cases m) (auto simp: read_backend_def Let_def json_simps store_simps split: option.splits if_splits)
  ultimately show ?thesis
    using quiet_trans quiet_no_reply by (auto simp: receive_backend_def 1 split: inbound.splits)
qed

lemma quiet_ping:
  assumes "i < length (rt_backends r)" "request env i ''ping'' (jobj []) r = (res, r')"
  shows "quiet r (emit_if_changed env r')"
proof -
  obtain tail where t: "frame (emit_if_changed env r') = frame r'" "rt_wire (emit_if_changed env r') = rt_wire r' @ tail"
      "tail = [] \<or> tail = [ToClient list_changed_notification]"
    using emit_if_changed_wire by blast
  have "reply_ids tail = []" using t(3) by auto
  then have "quiet r' (emit_if_changed env r')"
    using t wf_router_frame [OF t(1)] unfolding quiet_def frame_defs prod.inject
    by (auto dest: map_eq_imp_length_eq)
  then show ?thesis using quiet_trans served_quiet request_served [OF assms(2,1)] by blast
qed

lemma quiet_publish: "quiet r (snd (RouterRoute.publish u r))"
  using quiet_no_reply [of "updated_notification u" r]
  by (simp add: RouterRoute.publish_def updated_notification_def json_simps)

section \<open>The loop without a pool\<close>

text \<open>What the loop reads: the messages up to the first line that is none, and the error of that line.\<close>

fun client_input :: "env \<Rightarrow> byte list list \<Rightarrow> json list \<times> io_error option" where
  "client_input env [] = ([], None)"
| "client_input env (raw # raws) =
     (case rpc_decode env raw of
        Inl e \<Rightarrow> ([], Some e)
      | Inr m \<Rightarrow> (let (ms, stop) = client_input env raws in (m # ms, stop)))"

definition serial :: "router \<Rightarrow> bool" where
  "serial r \<longleftrightarrow> wf_router r \<and> rt_resilient r \<and> \<not> rt_pool_enabled r"

definition unanswered :: "router \<Rightarrow> router \<Rightarrow> bool" where
  "unanswered r r' \<longleftrightarrow> (serial r \<longrightarrow> serial r') \<and> reply_ids (rt_wire r') = reply_ids (rt_wire r)"

lemma unanswered_trans: "unanswered r s \<Longrightarrow> unanswered s t \<Longrightarrow> unanswered r t"
  by (simp add: unanswered_def)

lemma unanswered_update [simp]:
  "unanswered r r" "unanswered r (r\<lparr>rt_ticks := a\<rparr>)" "unanswered r (r\<lparr>rt_inflight := b, rt_ticks := c\<rparr>)"
  "unanswered r (r\<lparr>rt_server_requests := d\<rparr>)" "unanswered r (abort_call h (r\<lparr>rt_pool_tasks := e\<rparr>))"
  "unanswered r (emit (ToBackend i m) r)"
  by (simp_all add: unanswered_def serial_def wf_router_def abort_call_def emit_def)

lemma unanswered_send: "unanswered r (snd (send_message env i m r))"
  by (simp add: send_message_def Let_def split: delivery.split)

lemma unanswered_send_to: "unanswered r (send_to env i m r)"
  by (simp add: send_to_def unanswered_send split: option.split)

lemma unanswered_after: "unanswered r (send_to env i m (r\<lparr>rt_server_requests := q\<rparr>))"
  using unanswered_trans unanswered_send_to unanswered_update(4) by blast

lemma unanswered_reply: "unanswered r (route_client_reply env m r)"
  by (simp add: route_client_reply_def unanswered_after split: option.split)

lemma unanswered_broadcast: "unanswered r (broadcast env m is r)"
proof (induction "is" arbitrary: r)
  case (Cons i "is")
  show ?case using unanswered_trans [OF unanswered_send Cons] by simp
qed simp

lemma unanswered_notification: "unanswered r (forward_client_notification env m r)"
proof -
  have "unanswered r (touch_progress env m r)"
    by (simp add: touch_progress_def now_ms_def unanswered_def serial_def wf_router_def Let_def split: option.split)
  then have "unanswered r (broadcast env m is (touch_progress env m r))" for "is"
    using unanswered_trans unanswered_broadcast by blast
  then show ?thesis
    by (simp add: forward_client_notification_def route_client_cancellation_def deliver_cancellation_def unanswered_after
        unanswered_broadcast Let_def split: option.split)
qed

lemma serial_message:
  assumes "serial r" "route_message env se m r = (err, r')"
  shows "err = None \<and> serial r' \<and> reply_ids (rt_wire r') = reply_ids (rt_wire r) @
    (if is_request m then [unwrap_or (jget ''id'' m) JNull] else [])"
proof (cases "is_request m")
  case False
  then have "err = None" "unanswered r r'"
    using assms(2) unanswered_reply unanswered_notification
    by (auto simp: route_message_def is_request_def split: option.splits if_splits)
  then show ?thesis using assms(1) False by (simp add: unanswered_def)
next
  case True
  then obtain rid where rid: "jget ''id'' m = Some rid" "method_of m \<noteq> None" by (auto simp: is_request_def)
  then have "route_request env se m rid r = (err, r')" using assms(2) by (auto simp: route_message_def)
  then have a: "err = None" "answers rid r r'"
    using route_request_cases [OF _ rid(1)] assms(1) unfolding serial_def by metis+
  note f = answers_reply_ids [OF a(2)]
  have "serial r'" using assms(1) wf_router_frame [OF f(2)] f(2) by (simp add: serial_def frame_def)
  then show ?thesis using a(1) f(1) rid True by simp
qed

lemma serial_loop:
  assumes "serial r" "client_input env raws = (ms, stop)"
  shows "\<exists>r'. route_loop env se raws r = (stop, r') \<and>
    reply_ids (rt_wire r') = reply_ids (rt_wire r) @ map (\<lambda>m. unwrap_or (jget ''id'' m) JNull) (filter is_request ms)"
  using assms
proof (induction raws arbitrary: r ms)
  case (Cons raw raws)
  show ?case
  proof (cases "rpc_decode env raw")
    case (Inl e)
    then show ?thesis using Cons.prems(2) by simp
  next
    case (Inr m)
    obtain ms' where ms: "client_input env raws = (ms', stop)" "ms = m # ms'"
      using Cons.prems(2) Inr by (auto split: prod.splits)
    obtain err r1 where 1: "route_message env se m r = (err, r1)" by force
    note s = serial_message [OF Cons.prems(1) 1]
    show ?thesis using Cons.IH [of r1 ms'] s ms Inr 1 by auto
  qed
qed simp

section \<open>The invariants of a run\<close>

lemma filter_unique: "distinct (map f xs) \<Longrightarrow> x \<in> set xs \<Longrightarrow> filter (\<lambda>y. f y = f x) xs = [x]"
  by (induction xs) (auto simp: filter_empty_conv image_iff)

lemma served_pool: "served r r' \<Longrightarrow> pool_view r' = pool_view r"
  by (simp add: served_def frame_def)

lemma run_pooled_frame:
  assumes "run_pooled env m rid r = (response, r')"
  shows "served r r'" "jget ''id'' m = Some rid \<Longrightarrow> is_reply rid response"
proof -
  have b: "is_reply rid (jindex (chain_run fs REQUEST m) ''response'')"
    if "jindex (chain_run fs REQUEST m) ''action'' = JStr ''block''" "jget ''id'' m = Some rid" for fs
  proof -
    have "get_str ''action'' (chain_run fs REQUEST m) = Some ''block''"
      using that(1) by (auto simp: jindex_def get_str_def split: option.splits)
    then show ?thesis using block_reply_id [of fs REQUEST m] that(2) by simp
  qed
  show "served r r'"
    using assms by (auto simp: run_pooled_def Let_def split: option.splits sum.splits if_splits)
  show "is_reply rid response" if "jget ''id'' m = Some rid"
    using assms b [OF _ that] by (auto simp: run_pooled_def Let_def split: option.splits sum.splits if_splits)
qed

definition pool_ok :: "router \<Rightarrow> bool" where
  "pool_ok r \<longleftrightarrow> distinct (map pc_handle (rt_pool_calls r)) \<and>
     list_all (\<lambda>j. pc_handle j < rt_call_seq r \<and> jget ''id'' (pc_message j) = Some (pc_id j)) (rt_pool_calls r) \<and>
     (\<forall>n. rt_pool_permits r = Some n \<longrightarrow> running_calls r \<le> n)"

text \<open>What the client is owed or has been given: the ids of the replies, and of the pooled calls.\<close>

definition account :: "router \<Rightarrow> json multiset" where
  "account r = mset (reply_ids (rt_wire r)) + mset (map pc_id (rt_pool_calls r))"

definition balanced :: "router \<Rightarrow> router \<Rightarrow> json multiset \<Rightarrow> json multiset \<Rightarrow> bool" where
  "balanced r r' asked dropped \<longleftrightarrow>
     (wf_router r \<longrightarrow> wf_router r') \<and> (pool_ok r \<longrightarrow> pool_ok r') \<and> account r' + dropped = account r + asked \<and>
     mset (map pc_id (rt_pool_calls r')) \<subseteq># mset (map pc_id (rt_pool_calls r)) + asked"

lemma quiet_balanced: "quiet r r' \<Longrightarrow> balanced r r' {#} {#}"
  by (auto simp: quiet_def balanced_def pool_ok_def account_def wf_router_def running_calls_def)

lemma pool_ok_fewer:
  assumes "pool_ok r" "rt_pool_calls r' = filter P (rt_pool_calls r)"
    and "rt_call_seq r' = rt_call_seq r" "rt_pool_permits r' = rt_pool_permits r"
  shows "pool_ok r'"
proof -
  have "running_calls r' = length (filter P (filter pc_running (rt_pool_calls r)))"
    by (simp add: running_calls_def assms(2) conj_commute)
  also have "\<dots> \<le> running_calls r" by (simp only: running_calls_def length_filter_le)
  finally show ?thesis
    using assms by (auto simp: pool_ok_def distinct_map_filter list_all_iff intro: le_trans)
qed

lemma abort_balanced:
  "balanced r (abort_call h r) {#} (mset (map pc_id (filter (\<lambda>j. pc_handle j = h) (rt_pool_calls r))))"
proof -
  have "pool_ok r \<longrightarrow> pool_ok (abort_call h r)"
    by (intro impI pool_ok_fewer [of r "abort_call h r"]) (simp_all add: abort_call_def)
  then show ?thesis
    by (auto simp: balanced_def wf_router_def account_def abort_call_def simp flip: image_mset_union
        intro: arg_cong [where f = "image_mset pc_id"] image_mset_subseteq_mono)
qed

lemma balanced_trans:
  "balanced r s a d \<Longrightarrow> balanced s t a' d' \<Longrightarrow> balanced r t (a + a') (d + d')"
proof -
  assume b: "balanced r s a d" "balanced s t a' d'"
  have "mset (map pc_id (rt_pool_calls t)) \<subseteq># mset (map pc_id (rt_pool_calls s)) + a'" using b(2) by (simp add: balanced_def)
  also have "\<dots> \<subseteq># mset (map pc_id (rt_pool_calls r)) + a + a'" using b(1) by (simp add: balanced_def)
  finally show "balanced r t (a + a') (d + d')" using b unfolding balanced_def by (auto simp: add_ac)
qed

lemma spawn_balanced:
  assumes "jget ''id'' m = Some rid"
  shows "balanced r (spawn_pooled_call env m rid r) {#rid#} {#}"
  using assms
  by (auto simp: balanced_def spawn_pooled_call_def Let_def wf_router_def pool_ok_def account_def running_calls_def
      list_all_iff add_ac split: option.splits)

lemma answers_balanced:
  assumes "answers rid r r'"
  shows "balanced r r' {#rid#} {#}"
proof -
  note a = answers_reply_ids [OF assms]
  have v: "pool_view r' = pool_view r" using a(2) by (simp add: frame_def)
  then have "pool_ok r' = pool_ok r" by (auto simp: pool_view_def pool_ok_def running_calls_def)
  then show ?thesis
    using a(1) v wf_router_frame [OF a(2)] by (simp add: balanced_def account_def pool_view_def add_ac)
qed

definition asked :: "json \<Rightarrow> json multiset" where
  "asked m = (if is_request m then {#unwrap_or (jget ''id'' m) JNull#} else {#})"

lemma start_balanced:
  assumes "j \<in> set (rt_pool_calls r)" "\<not> pc_running j" "permit_free r" "pool_ok r"
  shows "balanced r (start_call env j r) {#} {#}"
proof -
  let ?mark = "\<lambda>x. if pc_handle x = pc_handle j then x\<lparr>pc_running := True\<rparr> else x"
  have keep: "map pc_handle (map ?mark xs) = map pc_handle xs" "map pc_id (map ?mark xs) = map pc_id xs" for xs
    by (simp_all cong: map_cong)
  have more: "length (filter pc_running (map ?mark xs)) \<le> Suc (length (filter pc_running xs))"
    if "distinct (map pc_handle xs)" for xs
    using that
  proof (induction xs)
    case (Cons x xs)
    show ?case
    proof (cases "pc_handle x = pc_handle j")
      case True
      then have "map ?mark xs = xs" using Cons.prems by (intro map_idI) (auto simp: image_iff)
      then show ?thesis by simp
    next
      case False
      then show ?thesis using Cons by auto
    qed
  qed simp
  have calls: "rt_pool_calls (start_call env j r) = map ?mark (rt_pool_calls r)"
    "rt_pool_permits (start_call env j r) = rt_pool_permits r" "rt_call_seq (start_call env j r) = rt_call_seq r"
    "rt_wire (start_call env j r) = rt_wire r" "rt_single (start_call env j r) = rt_single r"
    "rt_backends (start_call env j r) = rt_backends r"
    by (simp_all add: start_call_def now_ms_def)
  have "pool_ok (start_call env j r)"
    unfolding pool_ok_def calls keep running_calls_def
  proof (intro conjI allI impI)
    show "distinct (map pc_handle (rt_pool_calls r))" using assms(4) by (simp add: pool_ok_def)
    then show "length (filter pc_running (map ?mark (rt_pool_calls r))) \<le> n"
      if "rt_pool_permits r = Some n" for n
      using more [of "rt_pool_calls r"] assms(3) that unfolding permit_free_def running_calls_def by simp
    show "list_all (\<lambda>j. pc_handle j < rt_call_seq r \<and> jget ''id'' (pc_message j) = Some (pc_id j))
        (map ?mark (rt_pool_calls r))"
      using assms(4) by (auto simp: pool_ok_def list_all_iff)
  qed
  then show ?thesis by (simp add: balanced_def account_def calls keep wf_router_def del: map_map)
qed

lemma finish_balanced:
  assumes "j \<in> set (rt_pool_calls r)" "pool_ok r" "is_reply (pc_id j) response"
  shows "balanced r (finish_call env j response r) {#} {#}"
proof -
  let ?h = "pc_handle j" and ?calls = "rt_pool_calls r"
  obtain r1 where 1: "finish_call env j response r = emit (ToClient response) r1" "quiet (abort_call ?h r) r1"
    by (rule that [OF finish_call_def [unfolded Let_def]]) (simp add: quiet_def abort_call_def)
  have "filter (\<lambda>x. pc_handle x = ?h) ?calls = [j]"
    using assms(1,2) by (simp add: pool_ok_def filter_unique)
  with abort_balanced [of r ?h] have "balanced r (abort_call ?h r) {#} {#pc_id j#}" by simp
  from balanced_trans [OF this quiet_balanced [OF 1(2)]] have "balanced r r1 {#} {#pc_id j#}" by simp
  then show ?thesis
    using assms(3) unfolding 1(1)
    by (auto simp: balanced_def account_def emit_def wf_router_def pool_ok_def running_calls_def)
qed

lemma spawned_balanced:
  assumes "spawned_step env r r'" "pool_ok r"
  shows "balanced r r' {#} {#}"
  using assms
proof cases
  case (start j)
  then show ?thesis using start_balanced assms(2) by blast
next
  case (finish j response r1)
  note f = run_pooled_frame [OF finish(4)]
  have q: "pool_view r1 = pool_view r" using served_pool f by blast
  have reply: "is_reply (pc_id j) response"
    using f finish(2) assms(2) by (auto simp: pool_ok_def list_all_iff)
  have b: "balanced r r1 {#} {#}" using f quiet_balanced [OF served_quiet] by blast
  then have "balanced r1 (finish_call env j response r1) {#} {#}"
    using finish_balanced [of j r1 response env] finish(2) assms(2) q reply
    by (simp add: balanced_def pool_view_def)
  from balanced_trans [OF b this] show ?thesis using finish(1) by simp
next
  case (idle j)
  then show ?thesis using finish_balanced [OF idle(2) assms(2), of "idle_reply (pc_id j)"] by (simp add: idle_reply_def)
next
  case (run j response r1)
  have "quiet r (finish_run j response r1)"
    using served_quiet run_pooled_frame [OF run(3)] by (auto simp: finish_run_def quiet_def abort_run_def Let_def)
  then show ?thesis using run(1) quiet_balanced by simp
qed

section \<open>The handles of the pooled calls\<close>

text \<open>A law about the map of abort handles, the calls of the pool and the counter of handles, which
  both ends of a call, its finish and its abort, keep. Every step but the spawning of a call
  keeps it then.\<close>

definition pool_law :: "((str, nat) smap \<Rightarrow> pool_call list \<Rightarrow> nat \<Rightarrow> bool) \<Rightarrow> router \<Rightarrow> bool" where
  "pool_law P r \<longleftrightarrow> P (rt_pool_tasks r) (rt_pool_calls r) (rt_call_seq r)"

locale handle_law =
  fixes env :: env and P :: "(str, nat) smap \<Rightarrow> pool_call list \<Rightarrow> nat \<Rightarrow> bool"
  assumes law_drop: "P ts calls n \<Longrightarrow> distinct (map pc_handle calls) \<Longrightarrow>
      smap_get k ts = Some h \<or> (\<exists>j \<in> set calls. pc_handle j = h \<and> request_key env (pc_id j) = k) \<Longrightarrow>
      P (smap_del k ts) (filter (\<lambda>j. pc_handle j \<noteq> h) calls) n"
    and law_start: "P ts calls n \<Longrightarrow>
      P ts (map (\<lambda>j. if pc_handle j = h then j\<lparr>pc_running := True\<rparr> else j) calls) n"
begin

lemma kept_same:
  "pool_law P r \<Longrightarrow> rt_pool_tasks r' = rt_pool_tasks r \<Longrightarrow> rt_pool_calls r' = rt_pool_calls r \<Longrightarrow>
     rt_call_seq r' = rt_call_seq r \<Longrightarrow> pool_law P r'"
  by (simp add: pool_law_def)

lemma kept_served: "served r r' \<Longrightarrow> pool_law P r \<Longrightarrow> pool_law P r'"
  using served_pool [of r r'] by (auto simp: pool_view_def intro: kept_same)

lemma kept_emit [simp]: "pool_law P (emit w r) = pool_law P r"
  by (simp add: pool_law_def emit_def)

lemma kept_update [simp]:
  "pool_law P (r\<lparr>rt_server_requests := a\<rparr>) = pool_law P r" "pool_law P (r\<lparr>rt_ticks := b\<rparr>) = pool_law P r"
  "pool_law P (r\<lparr>rt_inflight := c\<rparr>) = pool_law P r" "pool_law P (r\<lparr>rt_pool_tokens := d\<rparr>) = pool_law P r"
  "pool_law P (r\<lparr>rt_cache := e\<rparr>) = pool_law P r" "pool_law P (r\<lparr>rt_server_seq := f\<rparr>) = pool_law P r"
  by (simp_all add: pool_law_def)

lemma kept_send: "pool_law P r \<Longrightarrow> pool_law P (snd (send_message env' i m r))"
  by (simp add: send_message_def Let_def split: delivery.split)

lemma kept_send_to: "pool_law P r \<Longrightarrow> pool_law P (send_to env' i m r)"
  by (auto simp: send_to_def kept_send split: option.splits)

lemma kept_reply: "pool_law P r \<Longrightarrow> pool_law P (route_client_reply env' m r)"
  by (auto simp: route_client_reply_def kept_send_to split: option.splits)

lemma kept_broadcast: "pool_law P r \<Longrightarrow> pool_law P (broadcast env' m is r)"
  by (induction "is" arbitrary: r) (simp_all add: kept_send)

lemma kept_receive: "pool_law P r \<Longrightarrow> pool_law P (receive_backend pending i m r)"
  by (auto simp: receive_backend_def read_backend_def Let_def split: option.splits if_splits)

lemma kept_publish: "pool_law P r \<Longrightarrow> pool_law P (snd (RouterRoute.publish u r))"
  by (simp add: RouterRoute.publish_def)

lemma kept_notification:
  assumes "pool_law P r" "pool_ok r"
  shows "pool_law P (forward_client_notification env m r)"
proof -
  have "pool_law P (touch_progress env m r)"
    using assms(1) by (simp add: touch_progress_def now_ms_def Let_def split: option.split)
  moreover have "pool_law P (deliver_cancellation env m k r)" for k
    using assms(1) by (simp add: deliver_cancellation_def kept_send_to split: option.split)
  moreover have "pool_law P (abort_call h (r\<lparr>rt_pool_tasks := smap_del k (rt_pool_tasks r)\<rparr>))"
    if "smap_get k (rt_pool_tasks r) = Some h" for k h
    using law_drop [of "rt_pool_tasks r" "rt_pool_calls r" "rt_call_seq r" k h] that assms
    by (simp add: pool_law_def abort_call_def pool_ok_def)
  ultimately show ?thesis
    using assms(1) by (auto simp: forward_client_notification_def route_client_cancellation_def kept_broadcast Let_def split: option.splits)
qed

lemma kept_finish:
  assumes "pool_law P r" "pool_ok r" "j \<in> set (rt_pool_calls r)"
  shows "pool_law P (finish_call env j response r)"
  using law_drop [of "rt_pool_tasks r" "rt_pool_calls r" "rt_call_seq r" "request_key env (pc_id j)" "pc_handle j"] assms
  by (auto simp: pool_law_def finish_call_def abort_call_def pool_ok_def emit_def Let_def)

lemma kept_spawned:
  assumes "spawned_step env r r'" "pool_law P r" "pool_ok r"
  shows "pool_law P r'"
  using assms(1)
proof cases
  case (start j)
  then show ?thesis using law_start assms(2) by (simp add: pool_law_def start_call_def now_ms_def)
next
  case (finish j response r1)
  note f = run_pooled_frame(1) [OF finish(4)]
  have "pool_ok r1" using served_quiet [OF f] assms(3) by (auto simp: quiet_def pool_ok_def running_calls_def)
  moreover have "j \<in> set (rt_pool_calls r1)" using served_quiet [OF f] finish(2) by (simp add: quiet_def)
  ultimately show ?thesis using finish(1) kept_finish kept_served [OF f assms(2)] by blast
next
  case (idle j)
  then show ?thesis using kept_finish assms(2,3) by blast
next
  case (run j response r1)
  then show ?thesis
    using kept_served [OF run_pooled_frame(1) assms(2)] by (auto simp: finish_run_def abort_run_def Let_def pool_law_def)
qed

lemma kept_ping:
  assumes "pool_law P r" "i < length (rt_backends r)" "request env i ''ping'' (jobj []) r = (res, r')"
  shows "pool_law P (emit_if_changed env r')"
proof -
  have "frame (emit_if_changed env r') = frame r'" using emit_if_changed_wire by blast
  then show ?thesis
    using kept_served [OF request_served [OF assms(3,2)] assms(1)]
    by (auto simp: frame_def pool_view_def intro: kept_same)
qed

lemma kept_message:
  assumes "pool_law P r" "wf_router r" "pool_ok r" "route_message env se m r = (None, r')"
    and "\<And>rid. asked m = {#rid#} \<Longrightarrow> pool_law P (spawn_pooled_call env m rid r)"
  shows "pool_law P r'"
proof (cases "jget ''id'' m")
  case None
  then show ?thesis using assms(4) kept_notification [OF assms(1,3)] by (auto simp: route_message_def)
next
  case (Some rid)
  show ?thesis
  proof (cases "method_of m")
    case None
    then show ?thesis using assms(4) Some kept_reply [OF assms(1)] by (auto simp: route_message_def)
  next
    case m: (Some k)
    have "route_request env se m rid r = (None, r')" using assms(4) Some m by (simp add: route_message_def)
    with assms(2) Some show ?thesis
    proof (cases rule: route_request_cases)
      case answered
      then show ?thesis using answers_reply_ids(2) [OF answered(2)] assms(1)
        by (auto simp: frame_def pool_view_def intro: kept_same)
    next
      case pooled
      then show ?thesis using assms(5) Some m by (simp add: asked_def is_request_def)
    qed simp_all
  qed
qed

end

text \<open>A handle is stored under the id of its call, and under no other.\<close>

definition own_handles :: "env \<Rightarrow> (str, nat) smap \<Rightarrow> pool_call list \<Rightarrow> nat \<Rightarrow> bool" where
  "own_handles env ts calls n \<longleftrightarrow>
     (\<forall>k h. smap_get k ts = Some h \<longrightarrow>
        h < n \<and> (\<forall>j \<in> set calls. pc_handle j = h \<longrightarrow> request_key env (pc_id j) = k))"

interpretation owned: handle_law env "own_handles env"
  by unfold_locales (auto simp: own_handles_def smap_get_del)

lemma owned_spawn:
  assumes "pool_law (own_handles env) r" "pool_ok r"
  shows "pool_law (own_handles env) (spawn_pooled_call env m rid r)"
proof -
  have "pc_handle j < rt_call_seq r" if "j \<in> set (rt_pool_calls r)" for j
    using assms(2) that by (auto simp: pool_ok_def list_all_iff)
  then show ?thesis
    using assms(1)
    by (fastforce simp: pool_law_def own_handles_def spawn_pooled_call_def Let_def smap_get_put less_Suc_eq split: option.splits)
qed

section \<open>The account of a run\<close>

text \<open>The key a cancellation names.\<close>

definition cancelled_key :: "env \<Rightarrow> json \<Rightarrow> str multiset" where
  "cancelled_key env m =
     (case cancel_request_id m of Some rid \<Rightarrow> {#request_key env rid#} | None \<Rightarrow> {#})"

lemma notification_balanced:
  assumes "pool_law (own_handles env) r" "pool_ok r"
  shows "\<exists>d. balanced r (forward_client_notification env m r) {#} d \<and>
     image_mset (request_key env) d \<subseteq># cancelled_key env m"
proof (cases "method_of m = Some ''notifications/cancelled''")
  case True
  have q: "quiet r r' \<Longrightarrow> \<exists>d. balanced r r' {#} d \<and> image_mset (request_key env) d \<subseteq># A" for r' A
    using quiet_balanced by (intro exI [of _ "{#}"]) auto
  have q0: "\<exists>d. balanced r r {#} d \<and> image_mset (request_key env) d \<subseteq># {#}"
    using q [OF quiet_refl] .
  have "\<exists>d. balanced r (abort_call h (r\<lparr>rt_pool_tasks := p\<rparr>)) {#} d \<and> image_mset (request_key env) d \<subseteq># {#k#}"
    if h: "smap_get k (rt_pool_tasks r) = Some h" for h k p
  proof -
    let ?d = "mset (map pc_id (filter (\<lambda>j. pc_handle j = h) (rt_pool_calls r)))"
    have "balanced r (abort_call h (r\<lparr>rt_pool_tasks := p\<rparr>)) {#} ?d"
      using balanced_trans [OF quiet_balanced abort_balanced, of r "r\<lparr>rt_pool_tasks := p\<rparr>" h] by simp
    moreover have "image_mset (request_key env) ?d \<subseteq># {#k#}"
    proof (cases "\<exists>j \<in> set (rt_pool_calls r). pc_handle j = h")
      case True
      then obtain j where j: "j \<in> set (rt_pool_calls r)" "pc_handle j = h" by blast
      then have "filter (\<lambda>x. pc_handle x = h) (rt_pool_calls r) = [j]"
        using assms(2) filter_unique [of pc_handle "rt_pool_calls r" j] by (simp add: pool_ok_def)
      moreover have "request_key env (pc_id j) = k"
        using assms(1) h j by (auto simp: pool_law_def own_handles_def)
      ultimately show ?thesis by simp
    next
      case False
      then have "filter (\<lambda>x. pc_handle x = h) (rt_pool_calls r) = []" by (auto simp: filter_empty_conv)
      then show ?thesis by simp
    qed
    ultimately show ?thesis by blast
  qed
  then have "\<exists>d. balanced r (route_client_cancellation env m r) {#} d \<and> image_mset (request_key env) d \<subseteq># cancelled_key env m"
    using q [OF quiet_deliver] q0 True
    by (auto simp: route_client_cancellation_def cancelled_key_def cancel_request_id_def split: option.splits)
  then show ?thesis using True by (auto simp: forward_client_notification_def)
next
  case False
  then have "quiet r (forward_client_notification env m r)"
    using quiet_trans [OF quiet_touch quiet_broadcast] quiet_broadcast
    by (auto simp: forward_client_notification_def Let_def)
  then show ?thesis using quiet_balanced by (intro exI [of _ "{#}"]) auto
qed

lemma client_balanced:
  assumes "wf_router r" "pool_law (own_handles env) r" "pool_ok r" "route_message env se m r = (None, r')"
  shows "\<exists>d. balanced r r' (asked m) d \<and> image_mset (request_key env) d \<subseteq># cancelled_key env m"
proof (cases "jget ''id'' m")
  case None
  then show ?thesis
    using assms(4) notification_balanced [OF assms(2,3), of m] by (auto simp: route_message_def asked_def is_request_def)
next
  case (Some rid)
  have "\<exists>d. balanced r r' (asked m) d \<and> d = {#}"
  proof (cases "method_of m")
    case None
    then show ?thesis
      using assms(4) Some quiet_balanced [OF quiet_reply]
      by (auto simp: route_message_def asked_def is_request_def)
  next
    case m: (Some k)
    have "route_request env se m rid r = (None, r')"
      using assms(4) Some m by (simp add: route_message_def)
    then have "balanced r r' {#rid#} {#}"
      using route_request_cases [OF assms(1) Some, of env se None r'] answers_balanced spawn_balanced [OF Some]
      by (metis option.distinct(1))
    then show ?thesis using Some m by (auto simp: asked_def is_request_def)
  qed
  then show ?thesis by auto
qed

text \<open>A message of a backend without a method. The code takes it for the reply to a request of its
  own; when it answers none that still waits, it is relayed to the client under its id.\<close>

definition stray :: "json \<Rightarrow> json multiset" where
  "stray m = (if jget ''method'' m = None then (case jget ''id'' m of Some v \<Rightarrow> {#v#} | None \<Rightarrow> {#}) else {#})"

lemma receive_balanced: "\<exists>s. balanced r (receive_backend pending i m r) s {#} \<and> s \<subseteq># stray m"
proof (cases "jget ''method'' m = None")
  case True
  then have m: "method_of m = None" by (simp add: method_of_def get_str_def)
  have "receive_backend pending i m r \<in> {r, emit (ToClient m) r}"
    using m by (auto simp: receive_backend_def read_backend_def relabel_inbound_def Let_def split: option.splits if_splits)
  moreover have "balanced r (emit (ToClient m) r) (stray m) {#}"
    using True by (auto simp: balanced_def account_def emit_def wf_router_def pool_ok_def running_calls_def stray_def
        reply_ids_def reply_id_of_def List.map_filter_def split: option.splits)
  ultimately show ?thesis using quiet_balanced [OF quiet_refl, of r] by force
next
  case False
  then show ?thesis using quiet_balanced [OF quiet_receive] by (intro exI [of _ "{#}"]) simp
qed

fun asked_by :: "event list \<Rightarrow> json multiset" where
  "asked_by [] = {#}"
| "asked_by (FromClient m # es) = asked m + asked_by es"
| "asked_by (_ # es) = asked_by es"

fun cancelled_by :: "env \<Rightarrow> event list \<Rightarrow> str multiset" where
  "cancelled_by env [] = {#}"
| "cancelled_by env (FromClient m # es) = cancelled_key env m + cancelled_by env es"
| "cancelled_by env (_ # es) = cancelled_by env es"

fun strays :: "event list \<Rightarrow> json multiset" where
  "strays [] = {#}"
| "strays (FromBackend i m # es) = stray m + strays es"
| "strays (_ # es) = strays es"

lemma by_append:
  "asked_by (es @ es') = asked_by es + asked_by es'"
  "cancelled_by env (es @ es') = cancelled_by env es + cancelled_by env es'"
  "strays (es @ es') = strays es + strays es'"
  by (induction es rule: asked_by.induct) (simp_all add: add_ac)

text \<open>What is owed after the events \<open>es\<close>: everything asked, less what a cancellation named, and the
  stray replies.\<close>

definition accounts :: "env \<Rightarrow> router \<Rightarrow> event list \<Rightarrow> router \<Rightarrow> bool" where
  "accounts env r0 es r \<longleftrightarrow> wf_router r \<and> pool_ok r \<and>
     mset (map pc_id (rt_pool_calls r)) \<subseteq># asked_by es \<and>
     (\<exists>dropped relayed. account r + dropped = account r0 + asked_by es + relayed \<and>
        image_mset (request_key env) dropped \<subseteq># cancelled_by env es \<and> relayed \<subseteq># strays es)"

lemma accounts_step:
  assumes "accounts env r0 es r" "balanced r r' (asked_by [e] + s) d"
    and "mset (map pc_id (rt_pool_calls r')) \<subseteq># mset (map pc_id (rt_pool_calls r)) + asked_by [e]"
    and "image_mset (request_key env) d \<subseteq># cancelled_by env [e]" "s \<subseteq># strays [e]"
  shows "accounts env r0 (es @ [e]) r'"
proof -
  obtain dropped relayed where a: "account r + dropped = account r0 + asked_by es + relayed"
      "image_mset (request_key env) dropped \<subseteq># cancelled_by env es" "relayed \<subseteq># strays es"
    using assms(1) by (auto simp: accounts_def)
  have "account r' + d = account r + (asked_by [e] + s)" using assms(2) by (simp add: balanced_def)
  then have "account r' + (dropped + d) = account r0 + asked_by (es @ [e]) + (relayed + s)"
    using a(1) by (metis (no_types, opaque_lifting) add.assoc add.commute by_append(1))
  moreover have "image_mset (request_key env) (dropped + d) \<subseteq># cancelled_by env (es @ [e])" "relayed + s \<subseteq># strays (es @ [e])"
    using a(2,3) assms(4,5) by (simp_all only: by_append image_mset_union subset_mset.add_mono)
  moreover have "mset (map pc_id (rt_pool_calls r')) \<subseteq># asked_by (es @ [e])"
    using assms(1,3) unfolding accounts_def by_append by (meson subset_mset.add_right_mono subset_mset.order_trans)
  moreover have "wf_router r'" "pool_ok r'" using assms(1,2) by (simp_all add: accounts_def balanced_def)
  ultimately show ?thesis unfolding accounts_def by blast
qed

lemma accounts_quiet: "accounts env r0 es r \<Longrightarrow> quiet r r' \<Longrightarrow> asked_by [e] = {#} \<Longrightarrow> accounts env r0 (es @ [e]) r'"
  using quiet_balanced by (intro accounts_step [of env r0 es r r' e "{#}" "{#}"]) (auto simp: quiet_def)

lemma calls_receive: "rt_pool_calls (receive_backend pending i m r) = rt_pool_calls r"
  by (auto simp: receive_backend_def read_backend_def emit_def Let_def split: option.splits if_splits)

lemma session_accounts:
  assumes "session env se r0 es r" "wf_router r0" "rt_pool_calls r0 = []" "rt_pool_tasks r0 = []"
  shows "accounts env r0 es r \<and> pool_law (own_handles env) r"
  using assms
proof (induction rule: session.induct)
  case init
  then show ?case by (simp add: accounts_def pool_ok_def running_calls_def pool_law_def own_handles_def)
next
  case (client es r m r')
  then have a: "accounts env r0 es r" "pool_law (own_handles env) r" "wf_router r" "pool_ok r" by (auto simp: accounts_def)
  obtain d where d: "balanced r r' (asked m) d" "image_mset (request_key env) d \<subseteq># cancelled_key env m"
    using client_balanced [OF a(3,2,4) client.hyps(2)] by blast
  have "accounts env r0 (es @ [FromClient m]) r'"
    using d by (intro accounts_step [OF a(1), of _ _ "{#}" d]) (auto simp: balanced_def)
  then show ?case using owned.kept_message [OF a(2-4) client.hyps(2)] owned_spawn [OF a(2,4)] by blast
next
  case (backend es r i m pending)
  obtain s where "balanced r (receive_backend pending i m r) s {#}" "s \<subseteq># stray m"
    using receive_balanced by blast
  then show ?case
    using backend accounts_step [of env r0 es r "receive_backend pending i m r" "FromBackend i m" s "{#}"] owned.kept_receive
    by (simp add: calls_receive)
next
  case (spawned es r r')
  then have b: "balanced r r' {#} {#}" "pool_law (own_handles env) r'"
    using spawned_balanced owned.kept_spawned by (auto simp: accounts_def)
  then show ?case
    using spawned accounts_step [of env r0 es r r' Spawned "{#}" "{#}"] by (auto simp: balanced_def)
next
  case (ping es r i res r')
  then show ?case using accounts_quiet [OF _ quiet_ping [OF ping.hyps(3,4)]] owned.kept_ping [OF _ ping.hyps(3,4)] by simp
next
  case (publish es r u)
  then show ?case using accounts_quiet [OF _ quiet_publish] owned.kept_publish by simp
qed

end
