(* ===== verification/RouterTheorems.thy ===== *)
theory RouterTheorems
  imports RouterRun
begin

text \<open>The properties of the forward router, and a small router on which their witnesses run.\<close>

section \<open>A router to run on\<close>

definition demo_env :: env where
  "demo_env =
     \<lparr>e_delivery = (\<lambda>ws bid m. Replied (jobj [(''id'', jindex m ''id''), (''result'', jobj [])])),
      e_clock = (\<lambda>_. Fin 0), e_now = (\<lambda>_. 0),
      e_enc = (\<lambda>v. case v of JStr s \<Rightarrow> bytes_of s | _ \<Rightarrow> []),
      e_dec = (\<lambda>bs. if bs = [1] then Some (jobj [(''id'', JStr ''a''), (''method'', JStr ''resources/list'')])
                    else if bs = [2] then Some (jobj [(''id'', JStr ''b''), (''method'', JStr ''no/such'')])
                    else None),
      e_parse_error = (\<lambda>_. ''expected value''), e_lower = id, e_validator = (\<lambda>_. None)\<rparr>"

definition demo_backend :: "str \<Rightarrow> breaker option \<Rightarrow> backend" where
  "demo_backend i br =
     \<lparr>b_id = i, b_next_id = 0, b_breaker = br, b_token = None, b_keywords = [],
      b_capabilities = jobj [], b_server_info = None\<rparr>"

definition two_backends :: router where
  "two_backends = configure [demo_backend ''files'' (Some (breaker_new 3 (Fin 30))), demo_backend ''git'' None]"

lemma two_backends_simps [simp]:
  "rt_backends two_backends = [demo_backend ''files'' (Some (breaker_new 3 (Fin 30))), demo_backend ''git'' None]"
  "rt_resilient two_backends" "\<not> rt_single two_backends" "\<not> rt_pool_enabled two_backends"
  "rt_filters two_backends = None" "\<not> rt_disclose two_backends" "rt_strategy two_backends = PREFIX"
  "rt_registry two_backends = []" "rt_wire two_backends = []" "rt_pool_calls two_backends = []"
  "rt_server_seq two_backends = 0" "rt_issuer two_backends = None" "rt_audience two_backends = None"
  by (simp_all add: two_backends_def configure_def demo_backend_def)

lemma demo_backend_simps [simp]: "b_id (demo_backend i br) = i" "b_token (demo_backend i br) = None"
  "b_breaker (demo_backend i br) = br"
  by (simp_all add: demo_backend_def)

lemma two_backends_wf [simp]: "wf_router two_backends"
  by (simp add: wf_router_def)

section \<open>Every request is answered\<close>

text \<open>C2: A resilient router without a worker pool ends its loop only at the end of the client's
  input or at a line that is no message, with the error of that line. Whatever the client sends
  until then, requests, replies and notifications, and whatever the backends do (failed writes,
  timeouts, closed connections, any reply), the replies it writes are one per request, in the
  order of the requests, under their ids.\<close>
theorem requests_answered_in_order:
  assumes "wf_router r" "rt_resilient r" "\<not> rt_pool_enabled r" "client_input env raws = (ms, stop)"
  shows "\<exists>r'. route_loop env se raws r = (stop, r') \<and>
    reply_ids (rt_wire r') = reply_ids (rt_wire r) @ map (\<lambda>m. unwrap_or (jget ''id'' m) JNull) (filter is_request ms)"
  using serial_loop [OF _ assms(4)] assms(1-3) by (simp add: serial_def)

text \<open>Two requests, and a line that is no message.\<close>

theorem requests_answered_in_order_witness:
  "\<exists>r' e. route_loop demo_env (\<lambda>_. []) [[1], [2], [7], [1]] two_backends = (Some e, r') \<and>
     reply_ids (rt_wire r') = [JStr ''a'', JStr ''b'']"
proof -
  let ?ms = "[jobj [(''id'', JStr ''a''), (''method'', JStr ''resources/list'')],
              jobj [(''id'', JStr ''b''), (''method'', JStr ''no/such'')]]"
  obtain e where input: "client_input demo_env [[1], [2], [7], [1]] = (?ms, Some e)"
    by (simp add: rpc_decode_def demo_env_def)
  have "filter is_request ?ms = ?ms"
    by (simp add: is_request_def method_of_def get_str_def json_simps)
  moreover have "wf_router two_backends" "rt_resilient two_backends" "\<not> rt_pool_enabled two_backends" by simp_all
  ultimately obtain r' where "route_loop demo_env (\<lambda>_. []) [[1], [2], [7], [1]] two_backends = (Some e, r')"
      "reply_ids (rt_wire r') = [JStr ''a'', JStr ''b'']"
    using requests_answered_in_order [OF _ _ _ input, of two_backends "\<lambda>_. []"]
    by (auto simp: json_simps simp del: route_loop.simps)
  then show ?thesis by blast
qed


definition echo_handler :: "wire list handler" where
  "echo_handler = \<lparr>h_id = ''local'', h_tools = [], h_call = (\<lambda>_ _ _. jobj [])\<rparr>"

definition pooled_router :: router where
  "pooled_router = set_worker_pool 1 0 (set_registry [echo_handler] (configure []))"

definition local_call :: json where
  "local_call = jobj [(''id'', JStr ''x''), (''method'', JStr ''tools/call''),
     (''params'', jobj [(''name'', JStr ''local__echo'')])]"

lemma local_call_runs_spawned: "runs_spawned local_call pooled_router"
proof -
  have "ns_split ''local__echo'' = Some (''local'', ''echo'')" by code_simp
  moreover have "method_of local_call = Some ''tools/call''" "param_str ''name'' local_call = Some ''local__echo''"
    by (simp_all add: local_call_def method_of_def param_str_def get_str_def json_simps)
  ultimately show ?thesis
    by (simp add: runs_spawned_def CAPABILITIES_def is_local_call_def handler_for_def pooled_router_def
        set_worker_pool_def set_registry_def echo_handler_def)
qed

lemma local_call_spawns:
  assumes "rt_registry r = rt_registry pooled_router" "rt_pool_enabled r = rt_pool_enabled pooled_router"
    and "rt_server_tasks r = rt_server_tasks pooled_router"
  shows "route_message demo_env se local_call r = (None, spawn_pooled_call demo_env local_call (JStr ''x'') r)"
proof -
  have "method_of local_call = Some ''tools/call''" "jget ''id'' local_call = Some (JStr ''x'')"
    by (simp_all add: local_call_def method_of_def get_str_def json_simps)
  moreover have "rt_pool_enabled r" "\<not> rt_server_tasks r"
    using assms by (simp_all add: pooled_router_def set_worker_pool_def set_registry_def configure_def)
  moreover have "runs_spawned local_call r"
    using local_call_runs_spawned assms by (simp add: runs_spawned_def is_local_call_def cong: option.case_cong)
  ultimately show ?thesis by (simp add: route_message_def route_request_def)
qed

lemmas local_call_spawned = local_call_spawns [of pooled_router, OF refl refl refl]


section \<open>Credentials\<close>

text \<open>C3: Whatever credential a request of the client carries, in any request the router serves:
  all it writes to backends are messages to configured backends whose credential is that
  backend's own token, or absent.\<close>
theorem requests_carry_own_credential:
  assumes "wf_router r" "jget ''id'' message = Some rid" "route_request env se message rid r = (err, r')"
  shows "\<exists>ws. rt_wire r' = rt_wire r @ ws \<and>
    list_all (\<lambda>w. case w of ToClient _ \<Rightarrow> True
      | ToBackend bid m \<Rightarrow> list_ex (\<lambda>b. b_id b = bid \<and> (credential m = None \<or> credential m = bearer (b_token b)))
                             (rt_backends r)) ws"
  using assms by (rule route_request_credentials)

definition spy_call :: json where
  "spy_call = jobj [(''id'', JStr ''x''), (''method'', JStr ''resources/list''),
     (''params'', jobj [(''_meta'', jobj [(AUTHORIZATION_META_KEY, JStr ''Bearer client'')])])]"

theorem requests_carry_own_credential_witness:
  "\<exists>ws err r'. route_request demo_env (\<lambda>_. []) spy_call (JStr ''x'') two_backends = (err, r') \<and> rt_wire r' = ws \<and>
     list_all (\<lambda>w. case w of ToClient _ \<Rightarrow> True | ToBackend bid m \<Rightarrow> credential m = None) ws"
proof -
  obtain err r' where r: "route_request demo_env (\<lambda>_. []) spy_call (JStr ''x'') two_backends = (err, r')" by force
  have "jget ''id'' spy_call = Some (JStr ''x'')" by (simp add: spy_call_def json_simps)
  from requests_carry_own_credential [OF two_backends_wf this r] show ?thesis
    using r by (auto simp: bearer_def list_all_iff split: wire.splits)
qed

text \<open>A notification of the client is not a request: the router writes it unchanged to every
  backend, in order, whatever its \<open>_meta\<close> holds, so a credential in it reaches them all.\<close>
theorem notifications_broadcast_verbatim:
  assumes "method_of m \<noteq> Some ''notifications/cancelled''" "jget ''id'' m = None"
    and "list_all (\<lambda>b. \<not> (\<exists>ws e. e_delivery env ws (b_id b) m = WriteFailed e)) (rt_backends r)"
  shows "rt_wire (snd (route_message env se m r)) = rt_wire r @ map (\<lambda>b. ToBackend (b_id b) m) (rt_backends r)"
proof -
  have keep: "rt_backends (touch_progress env m r) = rt_backends r" "rt_wire (touch_progress env m r) = rt_wire r" for r
    by (simp_all add: touch_progress_def now_ms_def Let_def split: option.splits)
  have send: "rt_wire (snd (send_message env i m r)) = rt_wire r @ [ToBackend (b_id (rt_backends r ! i)) m] \<and>
      rt_backends (snd (send_message env i m r)) = rt_backends r"
    if "i < length (rt_backends r)" "list_all (\<lambda>b. \<not> (\<exists>ws e. e_delivery env ws (b_id b) m = WriteFailed e)) (rt_backends r)"
    for i r
    using that by (auto simp: send_message_def Let_def emit_def list_all_length split: delivery.splits)
  have cast: "rt_wire (broadcast env m is r) = rt_wire r @ map (\<lambda>i. ToBackend (b_id (rt_backends r ! i)) m) is"
    if "list_all (\<lambda>b. \<not> (\<exists>ws e. e_delivery env ws (b_id b) m = WriteFailed e)) (rt_backends r)"
      "\<forall>i \<in> set is. i < length (rt_backends r)" for "is" r
    using that
  proof (induction "is" arbitrary: r)
    case (Cons i "is")
    then have "i < length (rt_backends r)" by simp
    from send [OF this Cons.prems(1)] Cons.IH [of "snd (send_message env i m r)"] Cons.prems show ?case by simp
  qed simp
  have nth: "map (\<lambda>i. ToBackend (b_id (rt_backends r ! i)) m) [0..<length (rt_backends r)] =
      map (\<lambda>b. ToBackend (b_id b) m) (rt_backends r)"
    by (metis (no_types, lifting) List.map.compositionality comp_apply map_eq_conv map_nth)
  show ?thesis
    using assms cast [of r "[0..<length (rt_backends r)]"]
      cast [of "touch_progress env m r" "[0..<length (rt_backends r)]"] nth keep
    by (auto simp: route_message_def forward_client_notification_def Let_def)
qed

theorem notifications_broadcast_verbatim_witness:
  "\<exists>m. credential m = Some (JStr ''Bearer client'') \<and>
     rt_wire (snd (route_message demo_env (\<lambda>_. []) m two_backends)) = [ToBackend ''files'' m, ToBackend ''git'' m]"
proof -
  let ?m = "jobj [(''method'', JStr ''notifications/progress''),
    (''params'', jobj [(''_meta'', jobj [(AUTHORIZATION_META_KEY, JStr ''Bearer client'')])])]"
  have "credential ?m = Some (JStr ''Bearer client'')" by (simp add: credential_def json_simps)
  moreover have "method_of ?m = Some ''notifications/progress''" "jget ''id'' ?m = None"
    by (simp_all add: method_of_def get_str_def json_simps)
  ultimately show ?thesis
    using notifications_broadcast_verbatim [of ?m demo_env two_backends "\<lambda>_. []"]
    by (intro exI [of _ ?m]) (simp add: demo_env_def)
qed

section \<open>Requests of the backends\<close>

text \<open>A message of a backend that has an id, no method and no pending request under that id
  (the late reply to a request that timed out) is written to the client as it is, under the
  proxy's internal id.\<close>
theorem late_reply_reaches_client:
  assumes "get_str ''id'' m = Some k" "k \<notin> set pending" "jget ''method'' m = None"
  shows "receive_backend pending bid m r = emit (ToClient m) r"
  using assms by (simp add: receive_backend_def read_backend_def relabel_inbound_def method_of_def get_str_def
      Let_def split: option.splits)

theorem late_reply_reaches_client_witness:
  "rt_wire (receive_backend [] ''files'' (jobj [(''id'', JStr ''files-0''), (''result'', jobj [])]) two_backends) =
     [ToClient (jobj [(''id'', JStr ''files-0''), (''result'', jobj [])])]"
proof -
  have "get_str ''id'' (jobj [(''id'', JStr ''files-0''), (''result'', jobj [])]) = Some ''files-0''"
    "jget ''method'' (jobj [(''id'', JStr ''files-0''), (''result'', jobj [])]) = None"
    by (simp_all add: get_str_def json_simps)
  from late_reply_reaches_client [OF this(1) _ this(2), of "[]" "''files''" two_backends]
  show ?thesis by (simp add: emit_def)
qed

section \<open>Where a call goes\<close>

lemma trace_request_field: "trace_request p r = (p', r') \<Longrightarrow> k \<noteq> ''_meta'' \<Longrightarrow> jget k p' = jget k p"
  by (auto simp: trace_request_def trace_ids_def Let_def json_simps split: if_splits prod.splits)

lemma guard_field: "k \<noteq> ''_meta'' \<Longrightarrow> jget k (guard_params token p) = jget k p"
  by (auto simp: guard_params_def Let_def json_simps split: option.splits)

lemma request_wire:
  assumes "request env i method params r = (res, r')"
  shows "rt_wire r' = rt_wire r \<or>
    rt_wire r' = rt_wire r @ [ToBackend (b_id (rt_backends r ! i)) (backend_request_value (rt_backends r ! i) method params)]"
proof -
  have "rt_wire (record_breaker env i ok s) = rt_wire s" for ok s
    by (auto simp: record_breaker_def clock_def Let_def split: option.splits)
  then show ?thesis
    using assms by (auto simp: request_def Let_def emit_def split: delivery.splits)
qed

lemma forward_call_wire:
  assumes "forward_call env cap message rid value i original r = (res, r')"
    and "is_object (params_or_empty message)" "cap \<in> set CAPABILITIES"
  shows "rt_wire r' = rt_wire r \<or>
    (\<exists>m. rt_wire r' = rt_wire r @ [ToBackend (b_id (rt_backends r ! i)) m] \<and> method_of m = Some (cap_call cap) \<and>
       Option.bind (jget ''params'' m) (jget (cap_field cap)) = Some (JStr original))"
proof -
  let ?p = "jput (cap_field cap) (JStr original) (params_or_empty message)"
  have fld: "cap_field cap \<noteq> ''_meta''" using assms(3) by (auto simp: CAPABILITIES_def)
  obtain params r1 where 1: "trace_request ?p r = (params, r1)" by force
  let ?r2 = "record_audit env (attestation_record (unwrap_or (rt_principal r1) ''anonymous'') (cap_call cap) (Some value)) r1"
  obtain out r3 where 3: "request env i (cap_call cap) params ?r2 = (out, r3)" by force
  have same: "rt_wire r1 = rt_wire r" "rt_backends r1 = rt_backends r"
    using 1 by (auto simp: trace_request_def trace_ids_def Let_def split: if_splits)
  have audit: "rt_wire (record_audit env x s) = rt_wire s" "rt_backends (record_audit env x s) = rt_backends s" for x s
    by (simp_all add: record_audit_def split: option.splits)
  have "rt_wire r' = rt_wire r3"
    using assms(1) by (auto simp: forward_call_def 1 3 Let_def audit split: sum.splits if_splits)
  moreover have "jget (cap_field cap) params = Some (JStr original)"
    using trace_request_field [OF 1 fld] assms(2) by (simp add: json_simps)
  ultimately show ?thesis
    using request_wire [OF 3] guard_field [OF fld]
    by (auto simp: same audit backend_request_value_def method_of_def get_str_def json_simps)
qed

lemma available_wire: "check_available env i r = (ok, r') \<Longrightarrow>
    rt_wire r' = rt_wire r \<and> map b_id (rt_backends r') = map b_id (rt_backends r)"
proof -
  have upd: "map b_id ((rt_backends r)[i := (rt_backends r ! i)\<lparr>b_breaker := x\<rparr>]) = map b_id (rt_backends r)" for x
    by (cases "i < length (rt_backends r)") (auto simp: map_update list_update_same_conv intro!: nth_equalityI)
  assume "check_available env i r = (ok, r')"
  then show ?thesis
    using upd by (auto simp: check_available_def available_def clock_def set_backend_def Let_def
        split: if_splits option.splits prod.splits)
qed

text \<open>C8: With prefixed names, a call the router does not serve itself goes to the one backend its
  name resolves to, once at most, with the backend's own name for the tool, prompt or resource; a
  name that resolves to no known backend is answered with an invalid-params error and writes
  nothing to anyone.\<close>
theorem call_reaches_only_its_backend:
  assumes "\<not> rt_single r" "rt_strategy r = PREFIX" "rt_filters r = None" "\<not> rt_disclose r"
    and "cap \<in> set CAPABILITIES" "local_target cap value r = None"
    and "param_str (cap_field cap) message = Some value" "route_call env message rid cap r = (out, r')"
  shows "case locate (cap_resolve (cap_kind cap) value) r of
      None \<Rightarrow> out = Inr (rpc_error rid INVALID_PARAMS (''unknown '' @ cap_field cap @ '': '' @ value)) \<and> r' = r
    | Some (i, original) \<Rightarrow>
        rt_wire r' = rt_wire r \<or>
        (\<exists>m. rt_wire r' = rt_wire r @ [ToBackend (b_id (rt_backends r ! i)) m] \<and> method_of m = Some (cap_call cap) \<and>
           Option.bind (jget ''params'' m) (jget (cap_field cap)) = Some (JStr original))"
proof -
  have t: "call_target env cap value r = (Inr (locate (cap_resolve (cap_kind cap) value) r), r)"
    using assms(1,2) by (simp add: call_target_def strategy_defs)
  have "route_call env message rid cap r = serve_target env cap message rid value r"
    using assms(3,4,6,7) by (simp add: route_call_def filter_request_def)
  then have st: "serve_target env cap message rid value r = (out, r')" using assms(8) by simp
  show ?thesis
  proof (cases "locate (cap_resolve (cap_kind cap) value) r")
    case None
    then show ?thesis using st by (simp add: serve_target_def t)
  next
    case (Some x)
    obtain i original where x: "x = (i, original)" by force
    obtain ok r1 where 1: "check_available env i r = (ok, r1)" by force
    note a = available_wire [OF 1]
    have "i < length (rt_backends r)" using locate_bound Some x by simp
    then have bid: "b_id (rt_backends r1 ! i) = b_id (rt_backends r ! i)"
      using a by (metis length_map nth_map)
    have "jget ''params'' message \<noteq> None" and "is_object (unwrap_or (jget ''params'' message) JNull)"
      using assms(7) jget_is_object by (auto simp: param_str_def get_str_def bind_eq_Some_conv)
    then have obj: "is_object (params_or_empty message)" by (auto simp: params_or_empty_def)
    show ?thesis
    proof (cases ok)
      case True
      then have "forward_call env cap message rid value i original r1 = (out, r')"
        using st Some x 1 by (simp add: serve_target_def t)
      from forward_call_wire [OF this obj assms(5)] show ?thesis using Some x a bid by auto
    next
      case False
      then show ?thesis using st Some x 1 a by (simp add: serve_target_def t)
    qed
  qed
qed

definition read_call :: json where
  "read_call = jobj [(''id'', JStr ''x''), (''method'', JStr ''tools/call''),
     (''params'', jobj [(''name'', JStr ''files__read'')])]"

theorem call_reaches_only_its_backend_witness:
  "\<exists>out r'. route_call demo_env read_call (JStr ''x'') (CAPABILITIES ! 0) two_backends = (out, r') \<and>
     (rt_wire r' = [] \<or> (\<exists>m. rt_wire r' = [ToBackend ''files'' m] \<and> method_of m = Some ''tools/call'' \<and>
        Option.bind (jget ''params'' m) (jget ''name'') = Some (JStr ''read'')))"
proof -
  have ns: "ns_split ''files__read'' = Some (''files'', ''read'')" by code_simp
  let ?cap = "CAPABILITIES ! 0"
  have cap: "cap_kind ?cap = Name" "cap_call ?cap = ''tools/call''" "cap_field ?cap = ''name''" "?cap \<in> set CAPABILITIES"
    by (simp_all add: CAPABILITIES_def)
  have loc: "locate (cap_resolve (cap_kind ?cap) ''files__read'') two_backends = Some (0, ''read'')"
    by (simp add: cap ns locate_def index_of_def)
  have v: "param_str (cap_field ?cap) read_call = Some ''files__read''"
    by (simp add: cap param_str_def read_call_def get_str_def json_simps)
  have l: "local_target ?cap ''files__read'' two_backends = None"
    by (simp add: local_target_def cap ns handler_for_def)
  obtain out r' where o: "route_call demo_env read_call (JStr ''x'') ?cap two_backends = (out, r')" by force
  from call_reaches_only_its_backend [OF _ _ _ _ cap(4) l v o]
  have "rt_wire r' = [] \<or> (\<exists>m. rt_wire r' = [ToBackend ''files'' m] \<and> method_of m = Some ''tools/call'' \<and>
        Option.bind (jget ''params'' m) (jget ''name'') = Some (JStr ''read''))"
    unfolding loc option.case prod.case cap(2,3) by simp
  then show ?thesis using o by blast
qed

section \<open>The worker pool\<close>

text \<open>A cancellation of a pooled call drops that call and writes nothing, so the call is never
  answered. What the call registered stays: its in-flight entry and its progress token are
  removed only by a call that ends by itself.\<close>
theorem cancelled_call_is_silent:
  assumes "method_of m = Some ''notifications/cancelled''" "jget ''id'' m = None"
    and "Option.bind (jget ''params'' m) (jget ''requestId'') = Some rid"
    and "smap_get (request_key env rid) (rt_pool_tasks r) = Some h"
  shows "let r' = snd (route_message env se m r)
    in rt_pool_calls r' = filter (\<lambda>j. pc_handle j \<noteq> h) (rt_pool_calls r) \<and> rt_wire r' = rt_wire r \<and>
       smap_get (request_key env rid) (rt_pool_tasks r') = None \<and>
       rt_inflight r' = rt_inflight r \<and> rt_pool_tokens r' = rt_pool_tokens r"
  using assms
  by (simp add: route_message_def forward_client_notification_def route_client_cancellation_def abort_call_def
      Let_def store_simps)

theorem cancelled_call_is_silent_witness:
  "let m = jobj [(''method'', JStr ''notifications/cancelled''), (''params'', jobj [(''requestId'', JStr ''x'')])];
       r1 = spawn_pooled_call demo_env local_call (JStr ''x'') pooled_router;
       r2 = start_call demo_env (hd (rt_pool_calls r1)) r1;
       r3 = snd (route_message demo_env (\<lambda>_. []) m r2)
   in rt_pool_calls r3 = [] \<and> if_contains (\<lambda>v. str_of_bytes (e_enc demo_env v)) (JStr ''x'') (rt_inflight r3)"
proof -
  let ?m = "jobj [(''method'', JStr ''notifications/cancelled''), (''params'', jobj [(''requestId'', JStr ''x'')])]"
  let ?r1 = "spawn_pooled_call demo_env local_call (JStr ''x'') pooled_router"
  let ?r2 = "start_call demo_env (hd (rt_pool_calls ?r1)) ?r1"
  have calls: "rt_pool_calls ?r1 = [\<lparr>pc_handle = 0, pc_message = local_call, pc_id = JStr ''x'', pc_running = False\<rparr>]"
    "rt_pool_tasks ?r1 = [(request_key demo_env (JStr ''x''), 0)]"
    by (auto simp: spawn_pooled_call_def Let_def pooled_router_def set_worker_pool_def set_registry_def
        configure_def split: option.splits)
  then have "smap_get (request_key demo_env (JStr ''x'')) (rt_pool_tasks ?r2) = Some 0"
    "rt_pool_calls ?r2 = [\<lparr>pc_handle = 0, pc_message = local_call, pc_id = JStr ''x'', pc_running = True\<rparr>]"
    by (simp_all add: start_call_def now_ms_def)
  moreover have "if_contains (\<lambda>v. str_of_bytes (e_enc demo_env v)) (JStr ''x'') (rt_inflight ?r2)"
    by (simp add: start_call_def now_ms_def calls if_contains_def if_register_def store_simps)
  moreover have "method_of ?m = Some ''notifications/cancelled''" "jget ''id'' ?m = None"
    "Option.bind (jget ''params'' ?m) (jget ''requestId'') = Some (JStr ''x'')"
    by (simp_all add: method_of_def get_str_def json_simps)
  ultimately show ?thesis
    using cancelled_call_is_silent [of ?m "JStr ''x''" demo_env ?r2 0 "\<lambda>_. []"] by (simp add: Let_def)
qed

section \<open>The handshake\<close>

fun to_backend :: "wire \<Rightarrow> bool" where
  "to_backend (ToBackend _ _) = True"
| "to_backend (ToClient _) = False"

definition contacts :: "router \<Rightarrow> router \<Rightarrow> bool" where
  "contacts r r' \<longleftrightarrow> rt_resilient r' = rt_resilient r \<and> (\<exists>ws. rt_wire r' = rt_wire r @ ws \<and> list_all to_backend ws)"

lemma contacts_trans: "contacts r s \<Longrightarrow> contacts s t \<Longrightarrow> contacts r t"
  unfolding contacts_def by auto

lemma contacts_same: "rt_resilient r' = rt_resilient r \<Longrightarrow> rt_wire r' = rt_wire r \<Longrightarrow> contacts r r'"
  by (simp add: contacts_def)

lemma record_breaker_contacts: "contacts r (record_breaker env i ok r)"
  by (auto simp: record_breaker_def clock_def set_backend_def Let_def split: option.splits intro!: contacts_same)

lemma request_contacts: "request env i method params r = (res, r') \<Longrightarrow> contacts r r'"
proof -
  assume 1: "request env i method params r = (res, r')"
  have "rt_resilient (record_breaker env i ok s) = rt_resilient s" for ok s
    using record_breaker_contacts [of s env i ok] by (simp add: contacts_def)
  then have "rt_resilient r' = rt_resilient r"
    using 1 by (auto simp: request_def Let_def emit_def set_backend_def split: delivery.splits)
  then show ?thesis using request_wire [OF 1] by (auto simp: contacts_def)
qed

lemma send_contacts: "contacts r (snd (send_message env i m r))"
  by (auto simp: send_message_def Let_def emit_def contacts_def split: delivery.splits)

lemma backend_handshake_contacts: "backend_handshake env i r = (out, r') \<Longrightarrow> contacts r r'"
proof -
  assume 1: "backend_handshake env i r = (out, r')"
  obtain res r1 where 2: "request env i ''initialize'' initialize_params r = (res, r1)" by force
  have s: "contacts r1 (set_backend i b r1)" for b by (simp add: set_backend_def contacts_def)
  show ?thesis
    using 1 2 contacts_trans [OF request_contacts [OF 2]] contacts_trans [OF s] send_contacts [of _ env i initialized_notification]
    by (auto simp: backend_handshake_def Let_def contacts_same split: sum.splits option.splits) (metis snd_conv)+
qed

lemma handshake_backends_contacts:
  "handshake_backends env is r = (out, r') \<Longrightarrow> contacts r r' \<and> (rt_resilient r \<longrightarrow> (\<exists>caps. out = Inr caps))"
proof (induction "is" arbitrary: r out r')
  case Nil
  then show ?case by (auto simp: contacts_same)
next
  case (Cons i "is")
  obtain e r1 where 1: "backend_handshake env i r = (e, r1)" by force
  note c = backend_handshake_contacts [OF 1]
  show ?case
  proof (cases e)
    case None
    obtain o2 r2 where 2: "handshake_backends env is r1 = (o2, r2)" by force
    then show ?thesis
      using Cons.prems 1 None Cons.IH [OF 2] c contacts_trans
      by (auto simp: contacts_def split: sum.splits)
  next
    case (Some err)
    obtain o2 r2 where 2: "handshake_backends env is (record_breaker env i False r1) = (o2, r2)" by force
    have "contacts r (record_breaker env i False r1)" using c record_breaker_contacts contacts_trans by blast
    then show ?thesis
      using Cons.prems 1 Some Cons.IH [OF 2] c 2 contacts_trans
      by (auto simp: contacts_def split: if_splits)
  qed
qed

text \<open>C11: The gate of a session: a first message that is not an initialize, or claims that do not
  match the configured issuer and audience, end the session with one error to the client and no
  message to any backend. Otherwise a resilient router always completes the handshake, whatever
  the backends do: after messages to backends only, the client gets one reply, under its id, with
  the proxy's identity.\<close>
theorem handshake_gate:
  "let (out, r') = handshake_init env init r
   in if method_of init \<noteq> Some ''initialize'' \<or>
         ((rt_issuer r \<noteq> None \<or> rt_audience r \<noteq> None) \<and>
          \<not> claims_valid (client_claims init) (rt_issuer r) (rt_audience r))
      then (\<exists>e code msg. out = Inl e \<and> rt_wire r' = rt_wire r @ [ToClient (rpc_error (id_or_null init) code msg)])
      else if rt_resilient r
      then out = Inr True \<and>
           (\<exists>ws caps. list_all to_backend ws \<and>
              rt_wire r' = rt_wire r @ ws @ [ToClient (initialize_reply (id_or_null init) caps)])
      else True"
proof (cases "method_of init \<noteq> Some ''initialize'' \<or>
         ((rt_issuer r \<noteq> None \<or> rt_audience r \<noteq> None) \<and>
          \<not> claims_valid (client_claims init) (rt_issuer r) (rt_audience r))")
  case True
  then show ?thesis by (auto simp: handshake_init_def emit_def Let_def)
next
  case False
  obtain out r1 where 1: "handshake_backends env [0..<length (rt_backends r)] r = (out, r1)" by force
  note h = handshake_backends_contacts [OF 1]
  obtain surface r2 where 2: "watch_available env [0..<length (rt_backends r1)] r1 = (surface, r2)" by force
  have w: "rt_wire r2 = rt_wire r1" using watch_available_served [OF 2] by simp
  show ?thesis
  proof (cases "rt_resilient r")
    case True
    then obtain caps ws where "out = Inr caps" "rt_wire r1 = rt_wire r @ ws" "list_all to_backend ws"
      using h by (auto simp: contacts_def)
    then show ?thesis using False True 1 2 w by (auto simp: handshake_init_def Let_def emit_def)
  next
    case not: False
    then show ?thesis using False by (auto simp: split_beta Let_def)
  qed
qed

theorem handshake_gate_witness:
  "\<exists>ws caps r'. handshake_init demo_env (jobj [(''id'', JStr ''i''), (''method'', JStr ''initialize'')]) two_backends =
       (Inr True, r') \<and>
     list_all to_backend ws \<and> rt_wire r' = ws @ [ToClient (initialize_reply (JStr ''i'') caps)]"
proof -
  let ?init = "jobj [(''id'', JStr ''i''), (''method'', JStr ''initialize'')]"
  have "method_of ?init = Some ''initialize''" "id_or_null ?init = JStr ''i''"
    by (simp_all add: method_of_def get_str_def id_or_null_def json_simps)
  then show ?thesis using handshake_gate [of demo_env ?init two_backends] by auto
qed

end
