(* ===== verification/Config.thy ===== *)
theory Config
  imports Namespace Collision Encoding Policy
begin

text \<open>
  \<open>src/src/config.rs\<close>: the configuration document, its diagnosis, its resolution into a
  \<open>ProxyConfig\<close>, the provenance of every key, the difference of two documents and the
  normalisation of shorthands. A document is a parsed JSON value; reading the file and parsing
  its text is the caller's. The text of a value (\<open>serde_json::to_string\<close>) is a parameter.
\<close>

section \<open>Data\<close>

record namespacing =
  ns_strategy :: str
  ns_overrides :: "(str, str) smap"
  ns_priority :: "str list"

definition namespacing_default :: namespacing where
  "namespacing_default = \<lparr>ns_strategy = PREFIX, ns_overrides = [], ns_priority = []\<rparr>"

record resilience_config =
  rs_failure_threshold :: u32
  rs_reset_timeout :: f64
  rs_health_interval :: "f64 option"
  rs_request_timeout :: "f64 option"
  rs_explicit_enabled :: "bool option"

definition resilience_default :: resilience_config where
  "resilience_default = \<lparr>rs_failure_threshold = 5, rs_reset_timeout = Fin 30,
     rs_health_interval = None, rs_request_timeout = None, rs_explicit_enabled = None\<rparr>"

definition resilience_enabled :: "resilience_config \<Rightarrow> bool" where
  "resilience_enabled c =
     (case rs_explicit_enabled c of
        Some explicit \<Rightarrow> explicit
      | None \<Rightarrow> rs_health_interval c \<noteq> None \<or> rs_request_timeout c \<noteq> None \<or>
                rs_failure_threshold c \<noteq> 5 \<or> \<not> f64_eq (rs_reset_timeout c) (Fin 30))"

record backend_config =
  bc_id :: str
  bc_addresses :: "str list"
  bc_token :: "str option"

record rest_handler_config =
  rh_id :: str
  rh_base_url :: str
  rh_operations :: "json list"

record handler_config =
  hc_meta_tools :: bool
  hc_rest :: "rest_handler_config list"

record proxy_config =
  pcf_listen :: str
  pcf_backends :: "backend_config list"
  pcf_resilience :: resilience_config
  pcf_client_tokens :: "str list"
  pcf_namespacing :: namespacing
  pcf_handlers :: handler_config
  pcf_audit_secret :: "str option"

definition invalid :: "str \<Rightarrow> io_error" where
  "invalid message = IoError InvalidData message"

definition parse_address :: "str \<Rightarrow> io_error + str \<times> nat" where
  "parse_address address =
     (case rsplit_once '':'' address of
        None \<Rightarrow> Inl (invalid (''address missing '' @ [CHR 0x27] @ '':'' @ [CHR 0x27] @ '' port: '' @ address))
      | Some (host, port) \<Rightarrow>
          (case parse_unsigned 65535 port of
             None \<Rightarrow> Inl (invalid (''invalid port in address: '' @ address))
           | Some p \<Rightarrow> Inr (host, p)))"

section \<open>The catalogue of configuration errors\<close>

definition quoted :: "str \<Rightarrow> str" where
  "quoted s = [CHR 0x27] @ s @ [CHR 0x27]"

definition CONFIG_ERRORS :: "(str \<times> str \<times> str) list" where
  "CONFIG_ERRORS =
    [(''not-object'', ''the config is not a JSON object'', ''wrap the settings in a top-level { ... } object''),
     (''backends-not-object'', quoted ''backends'' @ '' is not a JSON object'',
      ''make '' @ quoted ''backends'' @ '' a map of id to { address }''),
     (''invalid-backend-id'', ''a backend id is empty or contains the reserved '' @ quoted ''__'' @ '' delimiter'',
      ''rename the backend so its id has no '' @ quoted ''__''),
     (''backend-no-addresses'', ''a backend declares no address'',
      ''give the backend an '' @ quoted ''address'' @ '' or a non-empty '' @ quoted ''addresses''),
     (''missing-listen'', ''the config has no '' @ quoted ''listen'' @ '' address'',
      ''add \"listen\": \"127.0.0.1:PORT\"''),
     (''unknown-collision-strategy'', ''namespacing.strategy is not a supported strategy'',
      ''set it to prefix, priority, manual, or passthrough''),
     (''invalid-handler-id'', ''a rest handler id is missing or invalid'',
      ''give the handler a non-empty id without '' @ quoted ''__''),
     (''handler-backend-collision'', ''a handler id collides with a backend id'', ''rename the handler or the backend''),
     (''handler-missing-baseurl'', ''a rest handler has no '' @ quoted ''baseUrl'',
      ''add a '' @ quoted ''baseUrl'' @ '' to the handler''),
     (''invalid-json'', ''the config is not valid JSON'', ''fix the JSON syntax at the reported line and column'')]"

definition config_docs_url :: "str \<Rightarrow> str" where
  "config_docs_url slug =
     (if list_ex (\<lambda>(s, _, _). s = slug) CONFIG_ERRORS then ''CONFIG_ERRORS.md#'' @ slug else [])"

definition error_catalog :: "json list" where
  "error_catalog =
     map (\<lambda>(slug, desc, hint). jobj [(''slug'', JStr slug), (''description'', JStr desc),
            (''hint'', JStr hint), (''docsUrl'', JStr (config_docs_url slug))]) CONFIG_ERRORS"

section \<open>Diagnosis\<close>

text \<open>The checks of one backend and of one REST handler, the bodies of the two loops.\<close>

definition address_count :: "json \<Rightarrow> nat" where
  "address_count spec =
     unwrap_or (map_option length (as_array (jindex spec ''addresses''))) 0 +
     (if as_str (jindex spec ''address'') \<noteq> None then 1 else 0)"

definition backend_check :: "str \<times> json \<Rightarrow> (str \<times> str) option" where
  "backend_check e =
     (let (bid, spec) = e
      in if \<not> valid_backend_id bid then Some (''invalid-backend-id'', ''invalid backend id: '' @ bid)
         else if address_count spec = 0
         then Some (''backend-no-addresses'', ''backend '' @ bid @ '' has no addresses'')
         else None)"

definition handler_check :: "str list \<Rightarrow> json \<Rightarrow> (str \<times> str) option" where
  "handler_check backend_ids spec =
     (let hid = unwrap_or (as_str (jindex spec ''id'')) []
      in if hid = [] \<or> \<not> valid_backend_id hid
         then Some (''invalid-handler-id'', ''invalid rest handler id: '' @ hid)
         else if hid \<in> set backend_ids
         then Some (''handler-backend-collision'', ''handler id '' @ hid @ '' collides with a backend id'')
         else if as_str (jindex spec ''baseUrl'') = None
         then Some (''handler-missing-baseurl'', ''rest handler '' @ hid @ '' is missing '' @ quoted ''baseUrl'')
         else None)"

definition config_strategy :: "json \<Rightarrow> str" where
  "config_strategy data = unwrap_or (as_str (jindex (jindex data ''namespacing'') ''strategy'')) PREFIX"

definition backend_entries :: "json \<Rightarrow> (str \<times> json) list" where
  "backend_entries data = unwrap_or (as_object (jindex data ''backends'')) []"

definition rest_entries :: "json \<Rightarrow> json list" where
  "rest_entries data = unwrap_or (as_array (jindex (jindex data ''handlers'') ''rest'')) []"

definition first_error :: "json \<Rightarrow> (str \<times> str) option" where
  "first_error data =
     (if \<not> is_object data then Some (''not-object'', ''config must be a JSON object'')
      else if jindex data ''backends'' \<noteq> JNull \<and> \<not> is_object (jindex data ''backends'')
      then Some (''backends-not-object'', quoted ''backends'' @ '' must be a JSON object'')
      else case first_some (map backend_check (backend_entries data)) of
        Some e \<Rightarrow> Some e
      | None \<Rightarrow>
          if jget ''listen'' data = None then Some (''missing-listen'', ''config is missing '' @ quoted ''listen'')
          else if \<not> is_strategy (config_strategy data)
          then Some (''unknown-collision-strategy'', ''unknown collision strategy: '' @ config_strategy data)
          else first_some (map (handler_check (map fst (backend_entries data))) (rest_entries data)))"

definition error_hint_of :: "str \<Rightarrow> str" where
  "error_hint_of slug = unwrap_or (map_option (\<lambda>(_, _, h). h) (List.find (\<lambda>(s, _, _). s = slug) CONFIG_ERRORS)) []"

definition diagnose :: "json \<Rightarrow> json option" where
  "diagnose data =
     map_option (\<lambda>(slug, message). jobj [(''slug'', JStr slug), (''message'', JStr message),
        (''hint'', JStr (error_hint_of slug)), (''docsUrl'', JStr (config_docs_url slug))]) (first_error data)"

definition parse_error_finding :: "str \<Rightarrow> nat \<Rightarrow> nat \<Rightarrow> json" where
  "parse_error_finding message line column =
     jobj [(''slug'', JStr ''invalid-json''), (''message'', JStr message), (''line'', jnat line),
           (''column'', jnat column), (''hint'', JStr (error_hint_of ''invalid-json'')),
           (''docsUrl'', JStr (config_docs_url ''invalid-json''))]"

section \<open>Resolution\<close>

definition resolve_resilience :: "json \<Rightarrow> resilience_config" where
  "resolve_resilience sec =
     \<lparr>rs_failure_threshold = of_nat (unwrap_or (as_u64 (jindex sec ''failureThreshold'')) 5),
      rs_reset_timeout = unwrap_or (as_f64 (jindex sec ''resetTimeout'')) (Fin 30),
      rs_health_interval = as_f64 (jindex sec ''healthInterval''),
      rs_request_timeout = as_f64 (jindex sec ''requestTimeout''),
      rs_explicit_enabled = as_bool (jindex sec ''enabled'')\<rparr>"

definition strings_of :: "json \<Rightarrow> str list" where
  "strings_of v = List.map_filter as_str (unwrap_or (as_array v) [])"

definition resolve_backend :: "str \<times> json \<Rightarrow> backend_config" where
  "resolve_backend e =
     (let (bid, spec) = e
      in \<lparr>bc_id = bid,
          bc_addresses = strings_of (jindex spec ''addresses'') @
            (case as_str (jindex spec ''address'') of Some a \<Rightarrow> [a] | None \<Rightarrow> []),
          bc_token = as_str (jindex spec ''token'')\<rparr>)"

definition resolve_namespacing :: "json \<Rightarrow> namespacing" where
  "resolve_namespacing ns =
     \<lparr>ns_strategy = unwrap_or (as_str (jindex ns ''strategy'')) PREFIX,
      ns_overrides = smap_puts [] (List.map_filter (\<lambda>(k, v). map_option (Pair k) (as_str v))
        (unwrap_or (as_object (jindex ns ''overrides'')) [])),
      ns_priority = strings_of (jindex ns ''priority'')\<rparr>"

definition resolve_rest :: "json \<Rightarrow> rest_handler_config" where
  "resolve_rest spec =
     \<lparr>rh_id = unwrap_or (as_str (jindex spec ''id'')) [],
      rh_base_url = unwrap_or (as_str (jindex spec ''baseUrl'')) [],
      rh_operations = unwrap_or (as_array (jindex spec ''operations'')) []\<rparr>"

definition from_value :: "json \<Rightarrow> io_error + proxy_config" where
  "from_value data =
     (case first_error data of
        Some (_, message) \<Rightarrow> Inl (invalid message)
      | None \<Rightarrow> Inr
          \<lparr>pcf_listen = unwrap_or (as_str (jindex data ''listen'')) [],
           pcf_backends = map resolve_backend (backend_entries data),
           pcf_resilience = resolve_resilience (jindex data ''resilience''),
           pcf_client_tokens = strings_of (jindex (jindex data ''auth'') ''clientTokens''),
           pcf_namespacing = resolve_namespacing (jindex data ''namespacing''),
           pcf_handlers =
             \<lparr>hc_meta_tools = unwrap_or (as_bool (jindex (jindex data ''handlers'') ''metaTools'')) False,
              hc_rest = map resolve_rest (rest_entries data)\<rparr>,
           pcf_audit_secret =
             (case as_str (jindex (jindex data ''audit'') ''secret'') of
                Some s \<Rightarrow> if s = [] then None else Some s
              | None \<Rightarrow> None)\<rparr>)"

text \<open>\<open>load_config\<close>: the file's text or the error of reading it, and the parser's verdict.\<close>

definition load_config :: "(str \<Rightarrow> str + json) \<Rightarrow> io_error + str \<Rightarrow> io_error + proxy_config" where
  "load_config parse file =
     (case file of
        Inl e \<Rightarrow> Inl e
      | Inr contents \<Rightarrow> (case parse contents of Inl e \<Rightarrow> Inl (invalid e) | Inr data \<Rightarrow> from_value data))"

section \<open>Provenance\<close>

definition SOURCE_CONFIG :: str where "SOURCE_CONFIG = ''config''"
definition SOURCE_DEFAULT :: str where "SOURCE_DEFAULT = ''default''"
definition SOURCE_UNKNOWN :: str where "SOURCE_UNKNOWN = ''unknown''"

definition explain_keys :: "(str \<times> json) list" where
  "explain_keys =
    [(''listen'', JNull),
     (''resilience.failureThreshold'', jint 5),
     (''resilience.resetTimeout'', JNum (Float (Fin 30))),
     (''resilience.healthInterval'', JNull),
     (''resilience.requestTimeout'', JNull),
     (''resilience.enabled'', JNull),
     (''namespacing.strategy'', JStr PREFIX),
     (''auth.clientTokens'', JArr []),
     (''handlers.metaTools'', JBool False),
     (''audit.secret'', JNull)]"

fun lookup_path :: "json \<Rightarrow> str list \<Rightarrow> json option" where
  "lookup_path node [] = Some node"
| "lookup_path node (part # parts) =
     (case jget part node of Some v \<Rightarrow> lookup_path v parts | None \<Rightarrow> None)"

definition lookup_key :: "json \<Rightarrow> str \<Rightarrow> json option" where
  "lookup_key raw key = lookup_path raw (split_on (CHR ''.'') key)"

definition explained :: "str \<Rightarrow> json \<Rightarrow> str \<Rightarrow> json" where
  "explained key value source =
     jobj [(''key'', JStr key), (''value'', value), (''source'', JStr source)]"

definition explain :: "json \<Rightarrow> str \<Rightarrow> json" where
  "explain raw key =
     (case lookup_key raw key of
        Some value \<Rightarrow> explained key value SOURCE_CONFIG
      | None \<Rightarrow>
          (case map_of explain_keys key of
             Some builtin \<Rightarrow> explained key builtin SOURCE_DEFAULT
           | None \<Rightarrow> explained key JNull SOURCE_UNKNOWN))"

definition effective :: "json \<Rightarrow> json list" where
  "effective raw = map (\<lambda>(key, _). explain raw key) explain_keys"

definition str_at :: "json \<Rightarrow> str \<Rightarrow> str" where
  "str_at v k = unwrap_or (as_str (jindex v k)) []"

definition explain_line :: "(json \<Rightarrow> str) \<Rightarrow> json \<Rightarrow> str" where
  "explain_line render entry =
     str_at entry ''key'' @ '' = '' @ render (jindex entry ''value'') @ '' ('' @ str_at entry ''source'' @ '')''"

definition side :: "json \<Rightarrow> json" where
  "side e = jobj [(''value'', jindex e ''value''), (''source'', jindex e ''source'')]"

definition config_diff :: "json \<Rightarrow> json \<Rightarrow> json list" where
  "config_diff left right =
     concat (map (\<lambda>(key, _).
       (let a = explain left key; b = explain right key
        in if jindex a ''value'' \<noteq> jindex b ''value''
           then [jobj [(''key'', JStr key), (''left'', side a), (''right'', side b)]] else [])) explain_keys)"

definition diff_line :: "(json \<Rightarrow> str) \<Rightarrow> json \<Rightarrow> str" where
  "diff_line render entry =
     str_at entry ''key'' @ '': '' @ render (jindex (jindex entry ''left'') ''value'') @
     '' ('' @ str_at (jindex entry ''left'') ''source'' @ '') -> '' @
     render (jindex (jindex entry ''right'') ''value'') @
     '' ('' @ str_at (jindex entry ''right'') ''source'' @ '')''"

section \<open>Shorthands\<close>

definition show_int :: "int \<Rightarrow> str" where
  "show_int i = (if i < 0 then ''-'' @ show_nat (nat (- i)) else show_nat (nat i))"

definition adapt_addresses :: "str \<Rightarrow> str list" where
  "adapt_addresses spec = map trim_str (split_on (CHR '','') spec)"

definition address_entry :: "str \<Rightarrow> json" where
  "address_entry spec = jobj [(''addresses'', JArr (map JStr (adapt_addresses spec)))]"

definition adapt_listen :: "json \<Rightarrow> json" where
  "adapt_listen listen =
     (case as_i64 listen of
        Some port \<Rightarrow> JStr (DEFAULT_BIND_HOST @ '':'' @ show_int port)
      | None \<Rightarrow>
          (case Option.bind (as_str listen) (strip_prefix '':'') of
             Some rest \<Rightarrow> JStr (DEFAULT_BIND_HOST @ '':'' @ rest)
           | None \<Rightarrow> listen))"

definition adapt_item :: "json \<Rightarrow> (str \<times> json) option" where
  "adapt_item item =
     map_option (\<lambda>(bid, spec). (bid, address_entry spec)) (Option.bind (as_str item) (split_once ''=''))"

definition adapt_entry :: "str \<times> json \<Rightarrow> str \<times> json" where
  "adapt_entry e =
     (fst e, (case as_str (snd e) of Some spec \<Rightarrow> address_entry spec | None \<Rightarrow> snd e))"

definition adapt_backends :: "json \<Rightarrow> json" where
  "adapt_backends backends =
     (case as_array backends of
        Some arr \<Rightarrow> jobj (List.map_filter adapt_item arr)
      | None \<Rightarrow>
          (case as_object backends of
             Some ob \<Rightarrow> jobj (map adapt_entry ob)
           | None \<Rightarrow> backends))"

definition adapt :: "json \<Rightarrow> json" where
  "adapt raw = jmodify ''backends'' adapt_backends (jmodify ''listen'' adapt_listen raw)"

section \<open>Lemmas\<close>

lemma first_some_None: "first_some (map f xs) = None \<longleftrightarrow> (\<forall>x \<in> set xs. f x = None)"
  by (induction xs) (auto split: option.splits)

lemma first_some_Some: "first_some xs = Some v \<Longrightarrow> Some v \<in> set xs"
  by (induction xs) (auto split: option.splits)

lemma backend_check_None: "backend_check (i, spec) = None \<longleftrightarrow> valid_backend_id i \<and> 0 < address_count spec"
  by (simp add: backend_check_def)

lemma handler_check_None:
  "handler_check ids spec = None \<longleftrightarrow>
     (let r = resolve_rest spec
      in rh_id r \<noteq> [] \<and> valid_backend_id (rh_id r) \<and> rh_id r \<notin> set ids \<and>
         as_str (jindex spec ''baseUrl'') \<noteq> None)"
  by (auto simp: handler_check_def resolve_rest_def Let_def)

text \<open>What a document must satisfy, read declaratively: the specification of the diagnosis.\<close>

definition document_ok :: "json \<Rightarrow> bool" where
  "document_ok data \<longleftrightarrow>
     is_object data \<and> jget ''listen'' data \<noteq> None \<and> is_strategy (config_strategy data) \<and>
     (jindex data ''backends'' = JNull \<or> is_object (jindex data ''backends'')) \<and>
     list_all (\<lambda>(i, spec). valid_backend_id i \<and> 0 < address_count spec) (backend_entries data) \<and>
     list_all (\<lambda>spec. valid_backend_id (rh_id (resolve_rest spec)) \<and> rh_id (resolve_rest spec) \<noteq> [] \<and>
         rh_id (resolve_rest spec) \<notin> set (map fst (backend_entries data)) \<and>
         as_str (jindex spec ''baseUrl'') \<noteq> None) (rest_entries data)"

text \<open>What a resolved configuration promises to the servers that run it.\<close>

definition proxy_config_ok :: "proxy_config \<Rightarrow> bool" where
  "proxy_config_ok c \<longleftrightarrow>
     (let ids = map bc_id (pcf_backends c); rest_ids = map rh_id (hc_rest (pcf_handlers c))
      in list_all valid_backend_id ids \<and> distinct ids \<and>
         list_all valid_backend_id rest_ids \<and> set ids \<inter> set rest_ids = {} \<and>
         is_strategy (ns_strategy (pcf_namespacing c)) \<and> smap_wf (ns_overrides (pcf_namespacing c)) \<and>
         pcf_audit_secret c \<noteq> Some [])"

lemma backends_checked:
  "first_some (map backend_check es) = None \<longleftrightarrow>
     list_all (\<lambda>(i, spec). valid_backend_id i \<and> 0 < address_count spec) es"
  by (auto simp: first_some_None list_all_iff backend_check_None)

lemma handlers_checked:
  "first_some (map (handler_check ids) specs) = None \<longleftrightarrow>
     list_all (\<lambda>spec. valid_backend_id (rh_id (resolve_rest spec)) \<and> rh_id (resolve_rest spec) \<noteq> [] \<and>
         rh_id (resolve_rest spec) \<notin> set ids \<and> as_str (jindex spec ''baseUrl'') \<noteq> None) specs"
  by (auto simp: first_some_None list_all_iff handler_check_None Let_def)

lemma first_error_None: "first_error data = None \<longleftrightarrow> document_ok data"
  unfolding document_ok_def backends_checked [symmetric] handlers_checked [symmetric]
  by (cases "first_some (map backend_check (backend_entries data))") (auto simp: first_error_def)

lemma config_slugs:
  "map fst CONFIG_ERRORS = [''not-object'', ''backends-not-object'', ''invalid-backend-id'',
     ''backend-no-addresses'', ''missing-listen'', ''unknown-collision-strategy'', ''invalid-handler-id'',
     ''handler-backend-collision'', ''handler-missing-baseurl'', ''invalid-json'']"
  by (simp add: CONFIG_ERRORS_def)

lemma check_slugs:
  "backend_check e = Some (slug, msg) \<Longrightarrow> slug \<in> {''invalid-backend-id'', ''backend-no-addresses''}"
  "handler_check ids spec = Some (slug, msg) \<Longrightarrow>
     slug \<in> {''invalid-handler-id'', ''handler-backend-collision'', ''handler-missing-baseurl''}"
  by (simp_all add: backend_check_def handler_check_def Let_def split_beta split: if_splits; force)+

lemma first_error_slug:
  assumes "first_error data = Some (slug, message)"
  shows "slug \<in> set (map fst CONFIG_ERRORS)"
proof -
  consider e where "backend_check e = Some (slug, message)"
    | spec where "handler_check (map fst (backend_entries data)) spec = Some (slug, message)"
    | "slug \<in> {''not-object'', ''backends-not-object'', ''missing-listen'', ''unknown-collision-strategy''}"
    using assms unfolding first_error_def
    by (simp split: if_splits option.splits) (metis first_some_Some imageE list.set_map)+
  then show ?thesis unfolding config_slugs by cases (use check_slugs in \<open>fastforce+\<close>)
qed

lemma slugs_documented:
  "list_all (\<lambda>slug. config_docs_url slug \<noteq> [] \<and> error_hint_of slug \<noteq> []) (map fst CONFIG_ERRORS)"
  by code_simp

lemma slug_documented:
  "slug \<in> set (map fst CONFIG_ERRORS) \<Longrightarrow> config_docs_url slug \<noteq> [] \<and> error_hint_of slug \<noteq> []"
  using slugs_documented by (simp only: list_all_iff) blast

lemma resolved_backend_ids: "map bc_id (map resolve_backend es) = map fst es"
  by (simp add: resolve_backend_def split_beta)

lemma backend_entries_wf: "wf_json data \<Longrightarrow> smap_wf (backend_entries data)"
proof -
  assume wf: "wf_json data"
  show ?thesis
  proof (cases "jget ''backends'' data")
    case (Some v)
    then have "wf_json v" using wf by (rule wf_json_get [rotated])
    then show ?thesis using Some by (cases v) (auto simp: backend_entries_def jindex_def)
  qed (simp add: backend_entries_def jindex_def)
qed

lemma resolved_rest_ids: "map rh_id (map resolve_rest specs) = map (\<lambda>spec. rh_id (resolve_rest spec)) specs"
  by simp

lemma from_value_Inr:
  "from_value data = Inr c \<Longrightarrow>
     document_ok data \<and> pcf_backends c = map resolve_backend (backend_entries data) \<and>
     hc_rest (pcf_handlers c) = map resolve_rest (rest_entries data) \<and>
     ns_strategy (pcf_namespacing c) = config_strategy data \<and>
     smap_wf (ns_overrides (pcf_namespacing c)) \<and> pcf_audit_secret c \<noteq> Some []"
  unfolding first_error_None [symmetric]
  by (auto simp: from_value_def resolve_namespacing_def config_strategy_def smap_wf_puts
      split: option.splits if_splits)

lemma disjoint_maps: "(\<And>x. x \<in> set xs \<Longrightarrow> f (g x) \<notin> A) \<Longrightarrow> A \<inter> set (map f (map g xs)) = {}"
  by auto

lemma from_value_ok:
  assumes "wf_json data" "from_value data = Inr c"
  shows "proxy_config_ok c"
proof -
  note c = from_value_Inr [OF assms(2)]
  have "distinct (map fst (backend_entries data))"
    using backend_entries_wf [OF assms(1)] by (rule smap_wf_distinct)
  moreover have "list_all valid_backend_id (map fst (backend_entries data))"
    using c by (auto simp: document_ok_def list_all_iff)
  moreover have "list_all valid_backend_id (map rh_id (map resolve_rest (rest_entries data)))"
    using c by (auto simp: document_ok_def list_all_iff)
  moreover have "set (map fst (backend_entries data)) \<inter> set (map rh_id (map resolve_rest (rest_entries data))) = {}"
  proof -
    have "rh_id (resolve_rest spec) \<notin> set (map fst (backend_entries data))" if "spec \<in> set (rest_entries data)" for spec
      using c that unfolding document_ok_def list_all_iff by blast
    then show ?thesis by (rule disjoint_maps)
  qed
  ultimately show ?thesis
    using c unfolding proxy_config_ok_def Let_def document_ok_def by (simp only: resolved_backend_ids simp_thms)
qed

text \<open>Shorthands are expanded once: what \<open>adapt\<close> produces it leaves alone.\<close>

lemma adapt_listen_fixed: "adapt_listen (adapt_listen v) = adapt_listen v"
  by (cases v) (auto simp: adapt_listen_def DEFAULT_BIND_HOST_def split: option.splits)

lemma adapt_entry_object: "is_object (address_entry spec)"
  by (simp add: address_entry_def)

lemma adapt_fixed_objects:
  assumes "smap_wf ob" "\<forall>(k, v) \<in> set ob. as_str v = None"
  shows "adapt_backends (JObj ob) = JObj ob"
proof -
  have "map adapt_entry ob = ob"
    using assms(2) by (intro map_idI) (auto simp: adapt_entry_def)
  moreover have "smap_puts [] ob = ob"
    by (rule smap_ext) (auto simp: assms(1) smap_wf_puts smap_get_puts_wf split: option.splits)
  ultimately show ?thesis by (simp add: adapt_backends_def jobj_def)
qed

lemma smap_puts_in: "e \<in> set (smap_puts m kvs) \<Longrightarrow> e \<in> set m \<or> e \<in> set kvs"
proof (induction kvs arbitrary: m)
  case (Cons a kvs)
  have "set (smap_put (fst a) (snd a) m) \<subseteq> insert a (set m)"
    by (induction "fst a" "snd a" m rule: smap_put.induct) auto
  then show ?case using Cons by (fastforce simp: smap_puts_def split_beta)
qed (simp add: smap_puts_def)

lemma adapt_backends_fixed: "adapt_backends (adapt_backends v) = adapt_backends v"
proof -
  have fixed: "adapt_backends (jobj es) = jobj es" if "\<forall>(k, w) \<in> set es. as_str w = None" for es
    using that unfolding jobj_def
    by (intro adapt_fixed_objects) (auto simp: smap_wf_puts dest: smap_puts_in)
  have "as_str (address_entry spec) = None" for spec by (simp add: address_entry_def jobj_def)
  then have "\<forall>(k, w) \<in> set (List.map_filter adapt_item arr). as_str w = None"
      "\<forall>(k, w) \<in> set (map adapt_entry ob). as_str w = None" for arr ob
    by (auto simp: map_filter_def adapt_item_def adapt_entry_def split: option.splits)
  then show ?thesis using fixed by (cases v) (auto simp: adapt_backends_def)
qed

text \<open>Objects with the same fields are equal; a change of one field keeps an object.\<close>

lemma object_ext:
  assumes "is_object v" "is_object w" "smap_wf (obj_or_empty v)" "smap_wf (obj_or_empty w)"
    and "\<And>k. jget k v = jget k w"
  shows "v = w"
  using assms by (cases v; cases w) (auto simp: is_object_def obj_or_empty_def intro: smap_ext)

lemma is_object_jmodify: "is_object (jmodify k f v) = is_object v"
  by (simp add: jmodify_def split: option.splits)

lemma jmodify_wf: "smap_wf (obj_or_empty v) \<Longrightarrow> smap_wf (obj_or_empty (jmodify k f v))"
  by (cases v) (auto simp: jmodify_def obj_or_empty_def smap_wf_put split: option.splits)

section \<open>Properties\<close>

text \<open>C16: A document is resolved exactly when it satisfies the declarative specification
  \<open>document_ok\<close>, and then the configuration is well-formed: valid, pairwise different backend
  ids, REST handler ids valid and apart from them, a known collision strategy, no empty audit
  secret. Otherwise the refusal carries the message of the diagnosis, whose slug is in the
  catalogue with a hint and a documentation link.\<close>
theorem config_well_formed:
  assumes "wf_json data"
  shows "case from_value data of
      Inr c \<Rightarrow> document_ok data \<and> proxy_config_ok c
    | Inl e \<Rightarrow> \<not> document_ok data \<and>
        (\<exists>f. diagnose data = Some f \<and> e = invalid (str_at f ''message'') \<and>
             str_at f ''slug'' \<in> set (map fst CONFIG_ERRORS) \<and>
             str_at f ''hint'' \<noteq> [] \<and> str_at f ''docsUrl'' \<noteq> [])"
proof (cases "first_error data")
  case None
  then obtain c where "from_value data = Inr c" by (simp add: from_value_def)
  then show ?thesis using from_value_ok [OF assms] from_value_Inr by auto
next
  case (Some e)
  obtain slug message where e: "e = (slug, message)" by force
  note known = first_error_slug [OF Some [unfolded e]]
  have "\<not> document_ok data" using Some by (simp add: first_error_None [symmetric])
  moreover have "from_value data = Inl (invalid message)" using Some e by (simp add: from_value_def)
  ultimately show ?thesis
    using Some e known slug_documented [OF known] by (simp add: diagnose_def str_at_def json_simps)
qed

definition demo_config :: json where
  "demo_config =
     jobj [(''listen'', JStr ''127.0.0.1:9100''),
           (''backends'', jobj [(''files'', jobj [(''address'', JStr ''127.0.0.1:9101'')])]),
           (''handlers'', jobj [(''rest'', JArr [jobj [(''id'', JStr ''gh''), (''baseUrl'', JStr ''http://x'')]])])]"

theorem config_well_formed_witness:
  "\<exists>c. from_value demo_config = Inr c \<and> proxy_config_ok c"
proof -
  have wf: "wf_json demo_config" by code_simp
  have "first_error demo_config = None" by code_simp
  then obtain c where c: "from_value demo_config = Inr c" by (simp add: from_value_def)
  show ?thesis using config_well_formed [OF wf] by (simp add: c)
qed

text \<open>Normalising a document is done once: a second \<open>adapt\<close> changes nothing, keys other than
  \<open>listen\<close> and \<open>backends\<close> are untouched, and a document with neither shorthand is returned
  as it is.\<close>
theorem adapt_idempotent:
  assumes "wf_json raw"
  shows "adapt (adapt raw) = adapt raw \<and>
    (if k = ''listen'' \<or> k = ''backends'' then True else jget k (adapt raw) = jget k raw) \<and>
    (if map_option adapt_listen (jget ''listen'' raw) = jget ''listen'' raw \<and>
        map_option adapt_backends (jget ''backends'' raw) = jget ''backends'' raw
     then adapt raw = raw else True)"
proof -
  have wf: "smap_wf (obj_or_empty raw)" using assms by (cases raw) (auto simp: obj_or_empty_def)
  have get: "jget j (adapt v) =
      (if j = ''backends'' then map_option adapt_backends (jget j v)
       else if j = ''listen'' then map_option adapt_listen (jget j v) else jget j v)" for j v
    by (simp add: adapt_def json_simps)
  have obj: "is_object (adapt v) = is_object v" "smap_wf (obj_or_empty v) \<Longrightarrow> smap_wf (obj_or_empty (adapt v))" for v
    by (simp_all add: adapt_def is_object_jmodify jmodify_wf)
  have nonobj: "\<not> is_object v \<Longrightarrow> adapt v = v" for v
    by (cases v) (simp_all add: adapt_def jmodify_def)
  have "adapt (adapt raw) = adapt raw"
  proof (cases "is_object raw")
    case True
    show ?thesis
      by (rule object_ext) (simp_all add: True obj wf get option.map_comp o_def
          adapt_listen_fixed adapt_backends_fixed)
  qed (simp add: nonobj)
  moreover have "adapt raw = raw" if "map_option adapt_listen (jget ''listen'' raw) = jget ''listen'' raw"
      "map_option adapt_backends (jget ''backends'' raw) = jget ''backends'' raw"
  proof (cases "is_object raw")
    case True
    show ?thesis by (rule object_ext) (simp_all add: True obj wf get that)
  qed (simp add: nonobj)
  ultimately show ?thesis by (simp add: get)
qed

theorem adapt_idempotent_witness:
  "adapt (adapt (jobj [(''listen'', JStr '':9100'')])) = jobj [(''listen'', JStr ''127.0.0.1:9100'')]"
proof -
  have wf: "wf_json (jobj [(''listen'', JStr '':9100'')])" by code_simp
  have "adapt (jobj [(''listen'', JStr '':9100'')]) = jobj [(''listen'', JStr ''127.0.0.1:9100'')]" by code_simp
  then show ?thesis using adapt_idempotent [OF wf, of k] by simp
qed

end
