(* ===== verification/Peers.thy ===== *)
theory Peers
  imports Json
begin

text \<open>
  What the message-level servers share. A connection is a \<open>MessageRead\<close> half, the list of
  results that successive calls of \<open>receive\<close> return (then end of stream for ever), and a
  \<open>MessageWrite\<close> half, what has been written so far with the outcomes of the writes to
  come (\<open>None\<close> a success; a failed write delivers nothing). Definitions run for every
  such script of the peer, so the theorems hold for all of them. \<open>and_then\<close> is Rust's
  \<open>?\<close> in a function that threads its state. The text of a JSON value and its parser are
  the \<open>serde_json\<close> crate, a \<open>codec\<close>. Last, \<open>String::from_utf8_lossy\<close>.
\<close>

section \<open>Fallible steps on a state\<close>

type_synonym ('s, 'a) action = "'s \<Rightarrow> (io_error + 'a) \<times> 's"

definition and_then :: "('s, 'a) action \<Rightarrow> ('a \<Rightarrow> ('s, 'b) action) \<Rightarrow> ('s, 'b) action" where
  "and_then m f s = (case m s of (Inl e, s') \<Rightarrow> (Inl e, s') | (Inr a, s') \<Rightarrow> f a s')"

definition ok :: "'a \<Rightarrow> ('s, 'a) action" where
  "ok a s = (Inr a, s)"

definition fail :: "io_error \<Rightarrow> ('s, 'a) action" where
  "fail e s = (Inl e, s)"

lemma and_then_ok [simp]: "and_then (ok a) f s = f a s"
  by (simp add: and_then_def ok_def)

lemma and_then_fail [simp]: "and_then (fail e) f s = (Inl e, s)"
  by (simp add: and_then_def fail_def)

lemma and_then_Inr:
  "and_then m f s = (Inr b, t) \<longleftrightarrow> (\<exists>a s'. m s = (Inr a, s') \<and> f a s' = (Inr b, t))"
  by (auto simp: and_then_def split: prod.splits sum.splits)

section \<open>Connections\<close>

datatype packet = Payload str | Eof

record chan =
  ch_in :: "(io_error + str) list"
  ch_out :: "packet list"
  ch_faults :: "io_error option list"

definition recv :: "(chan, str option) action" where
  "recv c =
     (case ch_in c of
        [] \<Rightarrow> (Inr None, c)
      | Inl e # rest \<Rightarrow> (Inl e, c\<lparr>ch_in := rest\<rparr>)
      | Inr m # rest \<Rightarrow> (Inr (Some m), c\<lparr>ch_in := rest\<rparr>))"

definition put_packet :: "packet \<Rightarrow> (chan, unit) action" where
  "put_packet p c =
     (case ch_faults c of
        Some e # rest \<Rightarrow> (Inl e, c\<lparr>ch_faults := rest\<rparr>)
      | None # rest \<Rightarrow> (Inr (), c\<lparr>ch_faults := rest, ch_out := ch_out c @ [p]\<rparr>)
      | [] \<Rightarrow> (Inr (), c\<lparr>ch_out := ch_out c @ [p]\<rparr>))"

abbreviation send_message_to :: "str \<Rightarrow> (chan, unit) action" where
  "send_message_to m \<equiv> put_packet (Payload m)"

abbreviation send_eof_to :: "(chan, unit) action" where
  "send_eof_to \<equiv> put_packet Eof"

text \<open>The payloads written, and the messages a reader gets before an error or the end.\<close>

definition payloads :: "packet list \<Rightarrow> str list" where
  "payloads ps = List.map_filter (\<lambda>p. case p of Payload m \<Rightarrow> Some m | Eof \<Rightarrow> None) ps"

fun readable :: "(io_error + str) list \<Rightarrow> str list" where
  "readable (Inr m # rest) = m # readable rest"
| "readable _ = []"

lemma payloads_simps [simp]:
  "payloads [] = []" "payloads (Payload m # ps) = m # payloads ps" "payloads (Eof # ps) = payloads ps"
  "payloads (ps @ qs) = payloads ps @ payloads qs"
  by (simp_all add: payloads_def map_filter_simps map_filter_def)

lemma recv_cases:
  "recv c = (Inr (Some m), c') \<Longrightarrow> ch_in c = Inr m # ch_in c' \<and> ch_out c' = ch_out c \<and> ch_faults c' = ch_faults c"
  "recv c = (Inr None, c') \<Longrightarrow> ch_in c = [] \<and> c' = c"
  "recv c = (Inl e, c') \<Longrightarrow> ch_in c = Inl e # ch_in c' \<and> ch_out c' = ch_out c \<and> ch_faults c' = ch_faults c"
  by (auto simp: recv_def split: list.splits sum.splits)

lemma put_packet_cases:
  "put_packet p c = (Inr (), c') \<Longrightarrow> ch_out c' = ch_out c @ [p] \<and> ch_in c' = ch_in c"
  "put_packet p c = (Inl e, c') \<Longrightarrow> ch_out c' = ch_out c \<and> ch_in c' = ch_in c"
  by (auto simp: put_packet_def split: list.splits option.splits)

section \<open>JSON text\<close>

record codec =
  c_enc :: "json \<Rightarrow> str"
  c_dec :: "str \<Rightarrow> str + json"

definition decode_message :: "codec \<Rightarrow> str \<Rightarrow> io_error + json" where
  "decode_message k raw = (case c_dec k raw of Inl e \<Rightarrow> Inl (IoError InvalidData e) | Inr v \<Rightarrow> Inr v)"

text \<open>A step that only computes, on any state.\<close>

definition lift :: "io_error + 'a \<Rightarrow> ('s, 'a) action" where
  "lift x s = (x, s)"

lemma and_then_lift [simp]:
  "and_then (lift x) f s = (case x of Inl e \<Rightarrow> (Inl e, s) | Inr a \<Rightarrow> f a s)"
  by (simp add: and_then_def lift_def split: sum.splits)

section \<open>\<open>String::from_utf8_lossy\<close>\<close>

text \<open>
  The first chunk of a byte string: the length of a well-formed character, or of the longest
  ill-formed prefix that is replaced as a whole.
\<close>

definition cont_at :: "nat list \<Rightarrow> nat \<Rightarrow> bool" where
  "cont_at bs i \<longleftrightarrow> (if i < length bs then 128 \<le> bs ! i \<and> bs ! i < 192 else False)"

definition second_ok :: "nat \<Rightarrow> nat list \<Rightarrow> bool" where
  "second_ok b bs =
     (if bs = [] then False
      else let c = hd bs
      in if b = 0xE0 then 0xA0 \<le> c \<and> c \<le> 0xBF
         else if b = 0xED then 0x80 \<le> c \<and> c \<le> 0x9F
         else if b = 0xF0 then 0x90 \<le> c \<and> c \<le> 0xBF
         else if b = 0xF4 then 0x80 \<le> c \<and> c \<le> 0x8F
         else 0x80 \<le> c \<and> c \<le> 0xBF)"

definition utf8_width :: "nat \<Rightarrow> nat" where
  "utf8_width b =
     (if b < 0x80 then 1
      else if 0xC2 \<le> b \<and> b \<le> 0xDF then 2
      else if 0xE0 \<le> b \<and> b \<le> 0xEF then 3
      else if 0xF0 \<le> b \<and> b \<le> 0xF4 then 4 else 0)"

definition utf8_chunk :: "nat \<Rightarrow> nat list \<Rightarrow> bool \<times> nat" where
  "utf8_chunk b bs =
     (let w = utf8_width b
      in if w = 1 then (True, 1)
         else if w = 0 \<or> \<not> second_ok b bs then (False, 1)
         else if w = 2 then (True, 2)
         else if \<not> cont_at bs 1 then (False, 2)
         else if w = 3 then (True, 3)
         else if \<not> cont_at bs 2 then (False, 3) else (True, 4))"

definition REPLACEMENT :: str where
  "REPLACEMENT = map char_of [0xEF, 0xBF, 0xBD :: nat]"

lemma utf8_chunk_pos: "0 < snd (utf8_chunk b bs)"
  by (simp add: utf8_chunk_def Let_def)

function utf8_lossy :: "str \<Rightarrow> str" where
  "utf8_lossy [] = []"
| "utf8_lossy (c # cs) =
     (let (valid, n) = utf8_chunk (of_char c) (map of_char cs)
      in (if valid then take n (c # cs) else REPLACEMENT) @ utf8_lossy (drop n (c # cs)))"
  by pat_completeness auto
termination
proof (relation "measure length", simp)
  fix c cs x valid n
  assume "x = utf8_chunk (of_char c) (map of_char cs)" "(valid, n) = x"
  then have "0 < n" using utf8_chunk_pos [of "of_char c" "map of_char cs"] by (metis snd_conv)
  then show "(drop n (c # cs), c # cs) \<in> measure length" by (cases n) auto
qed

text \<open>\<open>str::from_utf8\<close>: every chunk is well-formed.\<close>

function utf8_valid :: "str \<Rightarrow> bool" where
  "utf8_valid [] = True"
| "utf8_valid (c # cs) =
     (let (valid, n) = utf8_chunk (of_char c) (map of_char cs) in valid \<and> utf8_valid (drop n (c # cs)))"
  by pat_completeness auto
termination
proof (relation "measure length", simp)
  fix c cs x valid n
  assume "x = utf8_chunk (of_char c) (map of_char cs)" "(valid, n) = x"
  then have "0 < n" using utf8_chunk_pos [of "of_char c" "map of_char cs"] by (metis snd_conv)
  then show "(drop n (c # cs), c # cs) \<in> measure length" by (cases n) auto
qed

lemma utf8_lossy_valid: "utf8_valid s \<Longrightarrow> utf8_lossy s = s"
  by (induction s rule: utf8_lossy.induct) (auto simp: Let_def split: prod.splits)

end
