(* ===== verification/Rest.thy ===== *)
theory Rest
  imports Registry Peers Routing Encoding
begin

text \<open>
  \<open>src/src/rest.rs\<close>: the REST adapter. A tool call becomes one HTTP request, whose client is a
  function of the world so far (\<open>'w\<close>), the verb, the URL and the body; the default client is in
  \<open>HttpClient\<close>. The adapter is a handler of the proxy, or a backend of its own on a connection.
\<close>

section \<open>Percent-encoding\<close>

definition unreserved :: "char \<Rightarrow> bool" where
  "unreserved c \<longleftrightarrow> is_ascii_alphanumeric c \<or> c \<in> {CHR ''-'', CHR ''.'', CHR ''_'', CHR ''~''}"

definition upper_hex :: "nat \<Rightarrow> char" where
  "upper_hex n = (if n < 10 then char_of (48 + n) else char_of (55 + n))"

definition percent_byte :: "char \<Rightarrow> str" where
  "percent_byte c =
     (if unreserved c then [c]
      else let n = of_char c :: nat in [CHR ''%'', upper_hex (n div 16), upper_hex (n mod 16)])"

definition percent_encode :: "str \<Rightarrow> str" where
  "percent_encode value = concat (map percent_byte value)"

section \<open>The adapter\<close>

record 'w rest_adapter =
  ra_id :: str
  ra_base :: str
  ra_ops :: "json list"
  ra_http :: "'w \<Rightarrow> str \<Rightarrow> str \<Rightarrow> str option \<Rightarrow> io_error + nat \<times> str"

definition rest_server_info :: json where
  "rest_server_info = jobj [(''name'', JStr (PROXY_NAME @ ''-rest'')), (''version'', JStr PROXY_VERSION)]"

fun value_to_string :: "(json \<Rightarrow> str) \<Rightarrow> json \<Rightarrow> str" where
  "value_to_string render (JStr s) = s"
| "value_to_string render other = render other"

definition trim_end_slash :: "str \<Rightarrow> str" where
  "trim_end_slash s = rev (dropWhile (\<lambda>c. c = CHR ''/'') (rev s))"

definition str_or :: "json \<Rightarrow> str \<Rightarrow> str \<Rightarrow> str" where
  "str_or v k d = unwrap_or (as_str (jindex v k)) d"

definition list_or :: "json \<Rightarrow> str \<Rightarrow> json list" where
  "list_or v k = unwrap_or (as_array (jindex v k)) []"

definition rest_new :: "json \<Rightarrow> ('w \<Rightarrow> str \<Rightarrow> str \<Rightarrow> str option \<Rightarrow> io_error + nat \<times> str) \<Rightarrow> 'w rest_adapter" where
  "rest_new spec http =
     \<lparr>ra_id = ''rest'', ra_base = trim_end_slash (str_or spec ''baseUrl'' []),
      ra_ops = list_or spec ''operations'', ra_http = http\<rparr>"

text \<open>\<open>with_id\<close> panics on an id that is not valid.\<close>

definition rest_with_id :: "str \<Rightarrow> 'w rest_adapter \<Rightarrow> 'w rest_adapter option" where
  "rest_with_id i r = (if valid_backend_id i then Some (r\<lparr>ra_id := i\<rparr>) else None)"

definition find_op :: "'w rest_adapter \<Rightarrow> str \<Rightarrow> json option" where
  "find_op r name = List.find (\<lambda>operation. as_str (jindex operation ''name'') = Some name) (ra_ops r)"

definition string_schema :: json where
  "string_schema = jobj [(''type'', JStr ''string'')]"

definition op_properties :: "json \<Rightarrow> (str, json) smap" where
  "op_properties operation =
     smap_puts []
       (map (\<lambda>name. (name, string_schema))
         (List.map_filter (\<lambda>p. as_str (jindex p ''name'')) (list_or operation ''parameters'') @
          List.map_filter as_str (list_or operation ''body'')))"

definition op_tool :: "json \<Rightarrow> json" where
  "op_tool operation =
     jobj [(''name'', jindex operation ''name''), (''description'', JStr (str_or operation ''description'' [])),
           (''inputSchema'', jobj [(''type'', JStr ''object''), (''properties'', JObj (op_properties operation))])]"

definition rest_tools :: "'w rest_adapter \<Rightarrow> json list" where
  "rest_tools r = map op_tool (ra_ops r)"

text \<open>\<open>str::replace\<close> for a pattern that is not empty (the placeholder has its braces).\<close>

function replace_all :: "str \<Rightarrow> str \<Rightarrow> str \<Rightarrow> str" where
  "replace_all pat repl s =
     (case (if pat = [] then None else split_once pat s) of
        None \<Rightarrow> s
      | Some (before, rest) \<Rightarrow> before @ repl @ replace_all pat repl rest)"
  by pat_completeness auto
termination
proof (relation "measure (\<lambda>(pat, repl, s). length s)", simp)
  fix pat repl s :: str and x before rest
  assume "(if pat = [] then None else split_once pat s) = Some x" "(before, rest) = x"
  then have "pat \<noteq> []" "split_once pat s = Some (before, rest)" by (auto split: if_splits)
  then show "((pat, repl, rest), pat, repl, s) \<in> measure (\<lambda>(pat, repl, s). length s)"
    using split_once_Some by fastforce
qed

declare replace_all.simps [simp del]

definition placeholder :: "str \<Rightarrow> str" where
  "placeholder name = ''{'' @ name @ ''}''"

text \<open>One turn of the loop over the parameters: the path and the query pairs so far.\<close>

definition bind_parameter :: "(json \<Rightarrow> str) \<Rightarrow> json \<Rightarrow> json \<Rightarrow> str \<times> str list \<Rightarrow> str \<times> str list" where
  "bind_parameter render args parameter acc =
     (let (path, query) = acc; pname = str_or parameter ''name'' []; value = jindex args pname
      in if value = JNull then (path, query)
         else let t = percent_encode (value_to_string render value)
         in case as_str (jindex parameter ''in'') of
              Some place \<Rightarrow>
                if place = ''path'' then (replace_all (placeholder pname) t path, query)
                else if place = ''query'' then (path, query @ [percent_encode pname @ ''='' @ t])
                else (path, query)
            | None \<Rightarrow> (path, query))"

definition request_url :: "(json \<Rightarrow> str) \<Rightarrow> str \<Rightarrow> json \<Rightarrow> json \<Rightarrow> str" where
  "request_url render base operation args =
     (let (path, query) = fold (bind_parameter render args) (list_or operation ''parameters'')
                            (str_or operation ''path'' [], [])
      in base @ path @ (if query = [] then [] else ''?'' @ join_with ''&'' query))"

definition request_body :: "(json \<Rightarrow> str) \<Rightarrow> json \<Rightarrow> json \<Rightarrow> str option" where
  "request_body render operation args =
     (case as_array (jindex operation ''body'') of
        None \<Rightarrow> None
      | Some wanted \<Rightarrow>
          Some (render (JObj (smap_puts [] (List.map_filter (\<lambda>f. case as_str f of
                   Some name \<Rightarrow> if jindex args name = JNull then None else Some (name, jindex args name)
                 | None \<Rightarrow> None) wanted)))))"

definition text_result :: "str \<Rightarrow> bool \<Rightarrow> json" where
  "text_result t is_error =
     jobj [(''content'', JArr [jobj [(''type'', JStr ''text''), (''text'', JStr t)]]), (''isError'', JBool is_error)]"

fun io_message :: "io_error \<Rightarrow> str" where
  "io_message (IoError kind message) = message"

definition rest_call :: "(json \<Rightarrow> str) \<Rightarrow> 'w rest_adapter \<Rightarrow> 'w \<Rightarrow> json \<Rightarrow> json" where
  "rest_call render r w params =
     (case find_op r (str_or params ''name'' []) of
        None \<Rightarrow> text_result ''unknown operation'' True
      | Some operation \<Rightarrow>
          (let args = jindex params ''arguments''
           in case ra_http r w (str_or operation ''method'' ''GET'')
                     (request_url render (ra_base r) operation args) (request_body render operation args) of
                Inr (status, response) \<Rightarrow> text_result (utf8_lossy response) (400 \<le> status)
              | Inl e \<Rightarrow> text_result (io_message e) True))"

text \<open>The adapter as a handler of the proxy.\<close>

definition rest_handler :: "(json \<Rightarrow> str) \<Rightarrow> 'w rest_adapter \<Rightarrow> 'w handler" where
  "rest_handler render r =
     \<lparr>h_id = ra_id r, h_tools = rest_tools r,
      h_call = (\<lambda>w name arguments. rest_call render r w (jobj [(''name'', JStr name), (''arguments'', arguments)]))\<rparr>"

text \<open>The adapter as a backend. The world a call sees is its connection.\<close>

definition rest_answer :: "codec \<Rightarrow> chan rest_adapter \<Rightarrow> json \<Rightarrow> chan \<Rightarrow> json option" where
  "rest_answer k r message c =
     (case method_of message of
        Some m \<Rightarrow>
          if m = ''tools/list''
          then Some (rpc_result (jindex message ''id'') (jobj [(''tools'', JArr (rest_tools r))]))
          else if m = ''tools/call''
          then Some (rpc_result (jindex message ''id'') (rest_call (c_enc k) r c (jindex message ''params'')))
          else if jindex message ''id'' \<noteq> JNull
          then Some (rpc_error (jindex message ''id'') METHOD_NOT_FOUND (''unknown method: '' @ m))
          else None
      | None \<Rightarrow>
          if jindex message ''id'' \<noteq> JNull
          then Some (rpc_error (jindex message ''id'') METHOD_NOT_FOUND ''unknown method: '')
          else None)"

function rest_loop :: "codec \<Rightarrow> chan rest_adapter \<Rightarrow> (chan, unit) action" where
  "rest_loop k r c =
     (case recv c of
        (Inl e, c) \<Rightarrow> (Inl e, c)
      | (Inr None, c) \<Rightarrow> send_eof_to c
      | (Inr (Some raw), c) \<Rightarrow>
          (case decode_message k raw of
             Inl e \<Rightarrow> (Inl e, c)
           | Inr message \<Rightarrow>
               (case rest_answer k r message c of
                  None \<Rightarrow> rest_loop k r c
                | Some reply \<Rightarrow>
                    (case send_message_to (c_enc k reply) c of
                       (Inl e, c) \<Rightarrow> (Inl e, c)
                     | (Inr _, c) \<Rightarrow> rest_loop k r c))))"
  by pat_completeness auto
termination
  by (relation "measure (\<lambda>(k, r, c). length (ch_in c))")
    (auto dest!: recv_cases(1) [OF sym] put_packet_cases(1) [OF sym])

declare rest_loop.simps [simp del]

definition rest_greeting :: "json \<Rightarrow> json" where
  "rest_greeting init =
     rpc_result (jindex init ''id'')
       (jobj [(''protocolVersion'', JStr PROXY_PROTOCOL_VERSION),
              (''capabilities'', jobj [(''tools'', jobj [])]), (''serverInfo'', rest_server_info)])"

definition rest_serve :: "codec \<Rightarrow> chan rest_adapter \<Rightarrow> (chan, unit) action" where
  "rest_serve k r =
     and_then recv (\<lambda>raw.
     and_then (lift (decode_message k (unwrap_or raw []))) (\<lambda>init.
     and_then (send_message_to (c_enc k (rest_greeting init))) (\<lambda>_.
     and_then recv (\<lambda>_. rest_loop k r))))"

section \<open>Properties\<close>

text \<open>The messages the backend answers, and those it answers with an error.\<close>

definition is_rest_method :: "json \<Rightarrow> bool" where
  "is_rest_method m \<longleftrightarrow> method_of m = Some ''tools/list'' \<or> method_of m = Some ''tools/call''"

definition expects_reply :: "json \<Rightarrow> bool" where
  "expects_reply m \<longleftrightarrow> is_rest_method m \<or> jindex m ''id'' \<noteq> JNull"

lemma rest_answer_cases:
  "case rest_answer k r m c of
     None \<Rightarrow> \<not> expects_reply m
   | Some v \<Rightarrow> expects_reply m \<and> jindex v ''id'' = jindex m ''id'' \<and> (jget ''error'' v = None \<longleftrightarrow> is_rest_method m)"
  by (auto simp: rest_answer_def expects_reply_def is_rest_method_def rpc_result_def rpc_error_def rpc_error_value_def
      jindex_def json_simps split: option.splits)

lemma rest_loop_answers:
  assumes "\<forall>m \<in> set ms. c_dec k (c_enc k m) = Inr m"
  shows "\<exists>replies. rest_loop k r \<lparr>ch_in = map (\<lambda>m. Inr (c_enc k m)) ms, ch_out = sent, ch_faults = []\<rparr> =
      (Inr (), \<lparr>ch_in = [], ch_out = sent @ map (\<lambda>v. Payload (c_enc k v)) replies @ [Eof], ch_faults = []\<rparr>) \<and>
    list_all2 (\<lambda>m v. jindex v ''id'' = jindex m ''id'' \<and> (jget ''error'' v = None \<longleftrightarrow> is_rest_method m))
      (filter expects_reply ms) replies"
  using assms
proof (induction ms arbitrary: sent)
  case Nil
  then show ?case by (simp add: rest_loop.simps recv_def put_packet_def)
next
  case (Cons m ms)
  let ?c = "\<lparr>ch_in = map (\<lambda>m. Inr (c_enc k m)) ms, ch_out = sent, ch_faults = []\<rparr>"
  have step: "rest_loop k r \<lparr>ch_in = map (\<lambda>m. Inr (c_enc k m)) (m # ms), ch_out = sent, ch_faults = []\<rparr> =
      (case rest_answer k r m ?c of None \<Rightarrow> rest_loop k r ?c
       | Some v \<Rightarrow> rest_loop k r (?c\<lparr>ch_out := sent @ [Payload (c_enc k v)]\<rparr>))"
    using Cons.prems by (subst rest_loop.simps) (simp add: recv_def put_packet_def decode_message_def split: option.splits)
  show ?case
  proof (cases "rest_answer k r m ?c")
    case None
    then show ?thesis
      using Cons.IH [of sent] Cons.prems rest_answer_cases [where k = k and r = r and m = m and c = ?c] unfolding step by simp
  next
    case (Some v)
    obtain replies where "rest_loop k r (?c\<lparr>ch_out := sent @ [Payload (c_enc k v)]\<rparr>) =
        (Inr (), \<lparr>ch_in = [], ch_out = (sent @ [Payload (c_enc k v)]) @ map (\<lambda>v. Payload (c_enc k v)) replies @ [Eof],
          ch_faults = []\<rparr>)"
      "list_all2 (\<lambda>m v. jindex v ''id'' = jindex m ''id'' \<and> (jget ''error'' v = None \<longleftrightarrow> is_rest_method m))
         (filter expects_reply ms) replies"
      using Cons.IH [of "sent @ [Payload (c_enc k v)]"] Cons.prems by auto
    then show ?thesis
      using rest_answer_cases [where k = k and r = r and m = m and c = ?c] Some unfolding step by (intro exI [of _ "v # replies"]) simp
  qed
qed

text \<open>C29: As a backend, the adapter answers every message that expects a reply, once, in order and under
  its own id, whatever its HTTP client returns; the reply is an error exactly for a method it does
  not know, so a failed HTTP call is a result. It ends, with the end of its stream, when the
  client's messages do.\<close>
theorem rest_backend_answers:
  assumes "\<forall>m \<in> set (init # ms). c_dec k (c_enc k m) = Inr m"
  shows "\<exists>replies. rest_serve k r
      \<lparr>ch_in = Inr (c_enc k init) # Inr initialized # map (\<lambda>m. Inr (c_enc k m)) ms, ch_out = [], ch_faults = []\<rparr> =
      (Inr (), \<lparr>ch_in = [], ch_out = map (\<lambda>v. Payload (c_enc k v)) (rest_greeting init # replies) @ [Eof], ch_faults = []\<rparr>) \<and>
    list_all2 (\<lambda>m v. jindex v ''id'' = jindex m ''id'' \<and> (jget ''error'' v = None \<longleftrightarrow> is_rest_method m))
      (filter expects_reply ms) replies"
proof -
  have "rest_serve k r
      \<lparr>ch_in = Inr (c_enc k init) # Inr initialized # map (\<lambda>m. Inr (c_enc k m)) ms, ch_out = [], ch_faults = []\<rparr> =
    rest_loop k r \<lparr>ch_in = map (\<lambda>m. Inr (c_enc k m)) ms, ch_out = [Payload (c_enc k (rest_greeting init))], ch_faults = []\<rparr>"
    using assms by (simp add: rest_serve_def recv_def put_packet_def decode_message_def and_then_def lift_def unwrap_or_def)
  then show ?thesis using rest_loop_answers [of ms k r "[Payload (c_enc k (rest_greeting init))]"] assms by simp
qed

theorem rest_backend_answers_witness:
  "\<exists>k reply. rest_serve k (rest_new (jobj []) (\<lambda>_ _ _ _. Inr (500, ''down'')))
      \<lparr>ch_in = map (\<lambda>m. Inr (c_enc k m)) [jobj [], jobj [], jobj [(''id'', JStr ''7''), (''method'', JStr ''tools/call'')]],
        ch_out = [], ch_faults = []\<rparr> =
      (Inr (), \<lparr>ch_in = [], ch_out = [Payload (c_enc k (rest_greeting (jobj []))), Payload (c_enc k reply), Eof], ch_faults = []\<rparr>) \<and>
    jindex reply ''id'' = JStr ''7'' \<and> jget ''error'' reply = None"
proof -
  let ?m = "jobj [(''id'', JStr ''7''), (''method'', JStr ''tools/call'')]"
  let ?r = "rest_new (jobj []) (\<lambda>_ _ _ _. Inr (500, ''down''))"
  let ?k = "\<lparr>c_enc = \<lambda>m. if m = ?m then ''m'' else [], c_dec = \<lambda>s. Inr (if s = ''m'' then ?m else jobj [])\<rparr>"
  have "?m \<noteq> jobj []" by (simp add: jobj_def smap_puts_def)
  then have "\<forall>m \<in> set (jobj [] # [?m]). c_dec ?k (c_enc ?k m) = Inr m" by simp
  from rest_backend_answers [OF this, of ?r "c_enc ?k (jobj [])"] obtain replies where
    run: "rest_serve ?k ?r \<lparr>ch_in = map (\<lambda>m. Inr (c_enc ?k m)) [jobj [], jobj [], ?m], ch_out = [], ch_faults = []\<rparr> =
      (Inr (), \<lparr>ch_in = [], ch_out = map (\<lambda>v. Payload (c_enc ?k v)) (rest_greeting (jobj []) # replies) @ [Eof], ch_faults = []\<rparr>)"
    and replies: "list_all2 (\<lambda>m v. jindex v ''id'' = jindex m ''id'' \<and> (jget ''error'' v = None \<longleftrightarrow> is_rest_method m))
      (filter expects_reply [?m]) replies"
    unfolding list.map by blast
  have m: "is_rest_method ?m" "jindex ?m ''id'' = JStr ''7''"
    by (simp_all add: is_rest_method_def method_of_def get_str_def json_simps unwrap_or_def)
  then obtain reply where reply: "replies = [reply]" "jindex reply ''id'' = JStr ''7''" "jget ''error'' reply = None"
    using replies by (auto simp: expects_reply_def list_all2_Cons1)
  show ?thesis
    by (rule exI [of _ ?k], rule exI [of _ reply]) (use run reply in \<open>simp del: fun_upd_apply\<close>)
qed

end
