(* ===== verification/HttpClient.thy ===== *)
theory HttpClient
  imports Rest "HOL-Library.Sublist"
begin

text \<open>
  \<open>HttpTransport\<close> of \<open>src/src/rest.rs\<close>, the default HTTP client of the REST adapter. The
  network is a parameter: for a host and the bytes of a request, an error or the bytes that
  the server sends until it closes the connection. Buffers of any announced size are taken to
  be allocated (the code aborts beyond the address space).
\<close>

section \<open>Reading lines and words\<close>

definition stream_not_utf8 :: io_error where
  "stream_not_utf8 = IoError InvalidData ''stream did not contain valid UTF-8''"

definition early_eof :: io_error where
  "early_eof = IoError UnexpectedEof ''early eof''"

text \<open>\<open>read_line\<close>: the line with its delimiter (nothing at end of stream).\<close>

definition read_line :: "str \<Rightarrow> (io_error + str) \<times> str" where
  "read_line s =
     (let (line, rest) = read_until NL s
      in (if utf8_valid line then Inr line else Inl stream_not_utf8, rest))"

definition read_exact :: "nat \<Rightarrow> str \<Rightarrow> (io_error + str) \<times> str" where
  "read_exact n s = (if n \<le> length s then (Inr (take n s), drop n s) else (Inl early_eof, []))"

text \<open>\<open>str::split_whitespace\<close>.\<close>

fun ws_word :: "str \<Rightarrow> str \<times> str" where
  "ws_word [] = ([], [])"
| "ws_word (c # cs) =
     (if list_ex (\<lambda>w. starts_with w (c # cs)) white_space then ([], c # cs)
      else (let (w, rest) = ws_word cs in (c # w, rest)))"

lemma ws_word_length: "ws_word s = (w, rest) \<Longrightarrow> length rest \<le> length s \<and> (w \<noteq> [] \<longrightarrow> length rest < length s)"
  by (induction s arbitrary: w rest rule: ws_word.induct) (auto split: if_splits prod.splits)

function split_whitespace :: "str \<Rightarrow> str list" where
  "split_whitespace s =
     (let (w, rest) = ws_word (trim_seqs white_space s)
      in if w = [] then [] else w # split_whitespace rest)"
  by pat_completeness auto
termination
proof (relation "measure length", simp)
  fix s x w rest
  assume "x = ws_word (trim_seqs white_space s)" "(w, rest) = x" "w \<noteq> []"
  then have "length rest < length (trim_seqs white_space s)" using ws_word_length by metis
  moreover obtain p where "s = p @ trim_seqs white_space s" using trim_seqs_suffix by blast
  then have "length (trim_seqs white_space s) \<le> length s" by (metis le_add2 length_append)
  ultimately show "(rest, s) \<in> measure length" by simp
qed

declare split_whitespace.simps [simp del]

section \<open>The chunked body\<close>

definition chunk_size :: "str \<Rightarrow> nat" where
  "chunk_size line = unwrap_or (parse_hex (trim_str (hd (split_on (CHR '';'') (trim_str line))))) 0"

lemma read_line_shorter: "read_line s = (Inr line, rest) \<Longrightarrow> line \<noteq> [] \<Longrightarrow> length rest < length s"
  by (auto simp: read_line_def split: prod.splits if_splits dest: read_until_shorter)

lemma read_line_le: "read_line s = (r, rest) \<Longrightarrow> length rest \<le> length s"
  by (auto simp: read_line_def split: prod.splits if_splits dest: read_until_append)

lemma read_exact_le: "read_exact n s = (r, rest) \<Longrightarrow> length rest \<le> length s"
  by (auto simp: read_exact_def split: if_splits)

function read_chunked :: "str \<Rightarrow> str \<Rightarrow> io_error + str" where
  "read_chunked s body =
     (case read_line s of
        (Inl e, _) \<Rightarrow> Inl e
      | (Inr line, rest) \<Rightarrow>
          if line = [] \<or> chunk_size line = 0 then Inr body
          else (case read_exact (chunk_size line) rest of
                  (Inl e, _) \<Rightarrow> Inl e
                | (Inr chunk, rest') \<Rightarrow>
                    (case read_line rest' of
                       (Inl e, _) \<Rightarrow> Inl e
                     | (Inr _, rest'') \<Rightarrow> read_chunked rest'' (body @ chunk))))"
  by pat_completeness auto
termination
proof (relation "measure (\<lambda>(s, body). length s)", simp)
  fix s body y b ya ba yb bb :: str and x xa xb
  assume "(x, y) = read_line s" "x = Inr b" "\<not> (b = [] \<or> chunk_size b = 0)"
    "(xa, ya) = read_exact (chunk_size b) y" "(xb, yb) = read_line ya"
  then have "length y < length s" "length ya \<le> length y" "length yb \<le> length ya"
    by (metis read_line_shorter, metis read_exact_le, metis read_line_le)
  then show "((yb, body @ ba), s, body) \<in> measure (\<lambda>(s, body). length s)" by simp
qed

declare read_chunked.simps [simp del]

section \<open>The response\<close>

record framing_headers =
  fh_length :: "nat option"
  fh_chunked :: bool

definition header_line :: "str \<Rightarrow> framing_headers \<Rightarrow> framing_headers" where
  "header_line line h =
     (case split_once '':'' line of
        None \<Rightarrow> h
      | Some (name, value) \<Rightarrow>
          if ascii_lower (trim_str name) = ''content-length''
          then h\<lparr>fh_length := parse_unsigned (2 ^ 64 - 1) (trim_str value)\<rparr>
          else if ascii_lower (trim_str name) = ''transfer-encoding'' \<and> ascii_lower (trim_str value) = ''chunked''
          then h\<lparr>fh_chunked := True\<rparr>
          else h)"

function read_headers :: "str \<Rightarrow> framing_headers \<Rightarrow> (io_error + framing_headers) \<times> str" where
  "read_headers s h =
     (case read_line s of
        (Inl e, rest) \<Rightarrow> (Inl e, rest)
      | (Inr line, rest) \<Rightarrow>
          if line = [] then (Inr h, rest)
          else if line = [CR, NL] \<or> line = [NL] then (Inr h, rest)
          else read_headers rest (header_line line h))"
  by pat_completeness auto
termination
  by (relation "measure (\<lambda>(s, h). length s)") (auto dest: read_line_shorter [OF sym])

declare read_headers.simps [simp del]

definition status_of :: "str \<Rightarrow> nat" where
  "status_of line =
     (let ws = split_whitespace line
      in if 1 < length ws then unwrap_or (parse_unsigned 65535 (ws ! 1)) 0 else 0)"

definition read_response :: "str \<Rightarrow> io_error + nat \<times> str" where
  "read_response s =
     (case read_line s of
        (Inl e, _) \<Rightarrow> Inl e
      | (Inr line, rest) \<Rightarrow>
          (case read_headers rest \<lparr>fh_length = None, fh_chunked = False\<rparr> of
             (Inl e, _) \<Rightarrow> Inl e
           | (Inr h, rest) \<Rightarrow>
               (let body = (if fh_chunked h then read_chunked rest []
                            else case fh_length h of
                                   Some n \<Rightarrow> fst (read_exact n rest)
                                 | None \<Rightarrow> Inr rest)
                in case body of Inl e \<Rightarrow> Inl e | Inr b \<Rightarrow> Inr (status_of line, b))))"

section \<open>The request\<close>

definition CRLF :: str where "CRLF = [CR, NL]"

definition request_head :: "str \<Rightarrow> str \<Rightarrow> str \<Rightarrow> nat \<Rightarrow> str" where
  "request_head verb path host body_length =
     verb @ '' '' @ path @ '' HTTP/1.1'' @ CRLF @ ''Host: '' @ host @ CRLF @
     ''Content-Type: application/json'' @ CRLF @ ''Content-Length: '' @ show_nat body_length @ CRLF @
     ''Connection: close'' @ CRLF @ CRLF"

definition http_transport ::
  "('w \<Rightarrow> str \<Rightarrow> str \<Rightarrow> io_error + str) \<Rightarrow> 'w \<Rightarrow> str \<Rightarrow> str \<Rightarrow> str option \<Rightarrow> io_error + nat \<times> str" where
  "http_transport net w verb url body =
     (case strip_prefix ''http://'' url of
        None \<Rightarrow> Inl (IoError InvalidInput ''only http:// is supported'')
      | Some rest \<Rightarrow>
          (let (host, path) = (case split_once ''/'' rest of
                                 Some (a, p) \<Rightarrow> (a, ''/'' @ p)
                               | None \<Rightarrow> (rest, ''/''));
               body = unwrap_or body []
           in case net w host (request_head verb path host (length body) @ body) of
                Inl e \<Rightarrow> Inl e
              | Inr response \<Rightarrow> read_response response))"

section \<open>Lemmas: what an argument adds to a URL\<close>

text \<open>
  The characters that RFC 3986 leaves without a meaning of their own, with the sign of an
  encoded byte: no space, no control character, no brace, no delimiter, no byte above 127.
\<close>

definition plain_in_url :: "char \<Rightarrow> bool" where
  "plain_in_url c \<longleftrightarrow>
     (let n = of_char c :: nat
      in n \<in> {48..57} \<or> n \<in> {65..90} \<or> n \<in> {97..122} \<or> n = 45 \<or> n = 46 \<or> n = 95 \<or> n = 126)"

definition url_safe :: "char \<Rightarrow> bool" where
  "url_safe c \<longleftrightarrow> plain_in_url c \<or> c = CHR ''%''"

lemma unreserved_plain: "unreserved c = plain_in_url c"
proof -
  have "c = CHR ''-'' \<longleftrightarrow> (of_char c :: nat) = 45" "c = CHR ''.'' \<longleftrightarrow> (of_char c :: nat) = 46"
    "c = CHR ''_'' \<longleftrightarrow> (of_char c :: nat) = 95" "c = CHR ''~'' \<longleftrightarrow> (of_char c :: nat) = 126"
    by (simp_all add: of_char_eq_iff [of c, symmetric, where 'a = nat] del: of_char_eq_iff)
  then show ?thesis by (auto simp: unreserved_def plain_in_url_def is_ascii_alphanumeric_def Let_def)
qed

lemma upper_hex_unreserved: "n < 16 \<Longrightarrow> unreserved (upper_hex n)"
  by (auto simp: upper_hex_def unreserved_def is_ascii_alphanumeric_def of_char_of take_bit_nat_eq_self Let_def)

lemma percent_byte_safe: "list_all url_safe (percent_byte c)"
proof -
  have "(of_char c :: nat) < 16 * 16" by (cases c) (simp add: of_char_def)
  then have "(of_char c :: nat) div 16 < 16" "(of_char c :: nat) mod 16 < 16"
    by (rule less_mult_imp_div_less, simp)
  then show ?thesis
    using upper_hex_unreserved by (auto simp: percent_byte_def Let_def url_safe_def unreserved_plain)
qed

lemma percent_encode_safe: "list_all url_safe (percent_encode t)"
  using percent_byte_safe by (auto simp: percent_encode_def list_all_iff)

lemma percent_encode_length: "length t \<le> length (percent_encode t)"
  by (induction t) (auto simp: percent_encode_def percent_byte_def Let_def)

lemma percent_encode_id: "percent_encode t = t \<longleftrightarrow> list_all plain_in_url t"
proof (induction t)
  case (Cons c t)
  show ?case
  proof (cases "unreserved c")
    case True
    then show ?thesis using Cons by (simp add: percent_encode_def percent_byte_def unreserved_plain [symmetric])
  next
    case False
    then have "length (percent_encode (c # t)) = 3 + length (percent_encode t)"
      by (simp add: percent_encode_def percent_byte_def Let_def)
    then have "percent_encode (c # t) \<noteq> c # t" using percent_encode_length [of t] by (intro notI) simp
    then show ?thesis using False by (simp add: unreserved_plain)
  qed
qed (simp add: percent_encode_def)

text \<open>The characters of a text that do have a meaning.\<close>

abbreviation marks :: "str \<Rightarrow> str" where
  "marks s \<equiv> filter (\<lambda>c. \<not> url_safe c) s"

lemma marks_safe: "list_all url_safe s \<Longrightarrow> marks s = []"
  by (auto simp: list_all_iff filter_empty_conv)

lemma marks_replace_all:
  "list_all url_safe repl \<Longrightarrow> subseq (marks (replace_all pat repl s)) (marks s)"
proof (induction pat repl s rule: replace_all.induct)
  case (1 pat repl s)
  show ?case
  proof (cases "if pat = [] then None else split_once pat s")
    case None
    then show ?thesis by (simp add: replace_all.simps [of pat repl s])
  next
    case (Some r)
    obtain a b where r: "r = (a, b)" by force
    then have "s = a @ pat @ b" using Some split_once_Some by (auto split: if_splits)
    moreover have "replace_all pat repl s = a @ repl @ replace_all pat repl b"
      using Some r by (simp add: replace_all.simps [of pat repl s])
    moreover have "subseq (marks (replace_all pat repl b)) (marks b)"
      using "1.IH" [OF Some r [symmetric]] "1.prems" .
    ultimately show ?thesis
      using marks_safe [OF "1.prems"] by (simp add: list_emb_append_mono subseq_drop_many)
  qed
qed

text \<open>The query pairs of a call: one for each declared query parameter that has an argument.\<close>

definition query_pairs :: "(json \<Rightarrow> str) \<Rightarrow> json \<Rightarrow> json list \<Rightarrow> str list" where
  "query_pairs render args parameters =
     concat (map (\<lambda>p. let name = str_or p ''name'' []; value = jindex args name
       in if as_str (jindex p ''in'') = Some ''query'' \<and> value \<noteq> JNull
          then [percent_encode name @ ''='' @ percent_encode (value_to_string render value)] else []) parameters)"

lemma fold_bind:
  assumes "fold (bind_parameter render args) ps (path, query) = (path', query')"
  shows "query' = query @ query_pairs render args ps \<and> subseq (marks path') (marks path)"
  using assms
proof (induction ps arbitrary: path query)
  case (Cons p ps)
  obtain path1 query1 where 1: "bind_parameter render args p (path, query) = (path1, query1)" by force
  then have "query1 = query @ query_pairs render args [p] \<and> subseq (marks path1) (marks path)"
    using marks_replace_all [OF percent_encode_safe]
    by (auto simp: bind_parameter_def query_pairs_def Let_def split: if_splits option.splits)
  moreover have "query' = query1 @ query_pairs render args ps \<and> subseq (marks path') (marks path1)"
    using Cons.IH [of path1 query1] Cons.prems 1 by simp
  ultimately show ?case by (auto simp: query_pairs_def intro: subseq_order.order_trans)
qed (simp add: query_pairs_def)

lemma query_pairs_shape: "list_all (\<lambda>q. marks q = ''='') (query_pairs render args ps)"
proof -
  have "\<not> url_safe (CHR ''='')" by (simp add: url_safe_def plain_in_url_def)
  then show ?thesis
    by (auto simp: query_pairs_def list_all_iff Let_def marks_safe [OF percent_encode_safe] simp del: filter_empty_conv)
qed

text \<open>What a server reads back: the inverse of the encoding.\<close>

fun percent_decode :: "str \<Rightarrow> str" where
  "percent_decode [] = []"
| "percent_decode (c # cs) =
     (if c = CHR ''%''
      then (case cs of
              a # b # rest \<Rightarrow>
                (case (to_digit16 a, to_digit16 b) of
                   (Some h, Some l) \<Rightarrow> char_of (16 * h + l) # percent_decode rest
                 | _ \<Rightarrow> c # percent_decode cs)
            | _ \<Rightarrow> c # percent_decode cs)
      else c # percent_decode cs)"

lemma upper_hex_digit: "n < 16 \<Longrightarrow> to_digit16 (upper_hex n) = Some n"
  by (auto simp: to_digit16_def upper_hex_def Let_def of_char_of take_bit_nat_eq_self)

lemma percent_decode_byte: "percent_decode (percent_byte c @ s) = c # percent_decode s"
proof -
  have "(of_char c :: nat) div 16 < 16" by (rule less_mult_imp_div_less) simp
  moreover have "16 * (of_char c div 16) + of_char c mod 16 = (of_char c :: nat)" by (rule mult_div_mod_eq)
  moreover have "c \<noteq> CHR ''%''" if "unreserved c"
    using that by (auto simp: unreserved_def is_ascii_alphanumeric_def)
  ultimately show ?thesis by (auto simp: percent_byte_def Let_def upper_hex_digit)
qed

lemma percent_decode_encode: "percent_decode (percent_encode s) = s"
  by (induction s) (simp_all add: percent_encode_def percent_decode_byte)

section \<open>Lemmas: chunks\<close>

definition chunk_frame :: "str \<Rightarrow> str" where
  "chunk_frame c = show_hex (length c) @ CRLF @ c @ CRLF"

lemma show_hex_digits: "c \<in> set (show_hex n) \<Longrightarrow> \<exists>d < 16. c = hex_digit d"
proof (induction n rule: show_hex.induct)
  case (1 n)
  show ?case
  proof (cases "n < 16")
    case True
    then show ?thesis using "1.prems" by (auto simp: show_hex.simps [of n])
  next
    case False
    then show ?thesis using 1 by (auto simp: show_hex.simps [of n] intro: exI [of _ "n mod 16"])
  qed
qed

lemma show_hex_not_Nil: "show_hex n \<noteq> []"
  by (simp add: show_hex.simps [of n])

text \<open>No hexadecimal digit is a byte that the reader of a size line treats specially.\<close>

definition plain_char :: "char \<Rightarrow> bool" where
  "plain_char c \<longleftrightarrow> (let n = of_char c :: nat in 48 \<le> n \<and> n < 128 \<and> n \<noteq> 59)"

lemma hex_digit_plain: "d < 16 \<Longrightarrow> plain_char (hex_digit d)"
  by (auto simp: plain_char_def hex_digit_def Let_def of_char_of take_bit_nat_eq_self)

lemma no_start:
  "list_all (\<lambda>w. w \<noteq> [] \<and> hd w \<noteq> c) ws \<Longrightarrow> \<not> list_ex (\<lambda>w. starts_with w (c # s)) ws"
proof (induction ws)
  case (Cons w ws)
  then show ?case by (cases w) (auto simp: starts_with_def)
qed simp

lemma white_ends:
  "list_all (\<lambda>w. w \<noteq> [] \<and> of_char (hd w) \<in> set ([9, 10, 11, 12, 13, 32, 194, 225, 226, 227] :: nat list)) white_space"
  "list_all (\<lambda>w. w \<noteq> [] \<and> of_char (hd w) \<in> {n :: nat. n \<le> 32 \<or> 128 \<le> n}) (map rev white_space)"
  by (simp_all add: white_space_def of_char_of)

lemma plain_no_white:
  assumes "plain_char c"
  shows "\<not> list_ex (\<lambda>w. starts_with w (c # s)) white_space"
    "\<not> list_ex (\<lambda>w. starts_with w (c # s)) (map rev white_space)"
proof -
  have c: "48 \<le> (of_char c :: nat)" "(of_char c :: nat) < 128" using assms by (auto simp: plain_char_def Let_def)
  have "list_all (\<lambda>w. w \<noteq> [] \<and> hd w \<noteq> c) white_space"
    using white_ends(1) c by (auto simp: list_all_iff)
  moreover have "list_all (\<lambda>w. w \<noteq> [] \<and> hd w \<noteq> c) (map rev white_space)"
    using white_ends(2) c by (fastforce simp: list_all_iff)
  ultimately show "\<not> list_ex (\<lambda>w. starts_with w (c # s)) white_space"
    "\<not> list_ex (\<lambda>w. starts_with w (c # s)) (map rev white_space)"
    by (simp_all add: no_start)
qed

lemma show_hex_plain: "c \<in> set (show_hex n) \<Longrightarrow> plain_char c"
  using show_hex_digits hex_digit_plain by blast

text \<open>Trimming the end of a line: the line end goes, a plain last byte stays.\<close>

lemma plain_trimmed:
  assumes "s \<noteq> []" "\<forall>c \<in> set s. plain_char c"
  shows "trimmed s"
proof -
  obtain c t where s: "s = c # t" using assms(1) by (cases s) auto
  obtain d u where r: "rev s = d # u" using assms(1) by (cases "rev s") auto
  then have "d \<in> set s" by (metis list.set_intros(1) set_rev)
  then show ?thesis
    using assms(2) plain_no_white by (simp add: trimmed_def r) (simp add: s)
qed

lemma trim_seqs_first:
  "List.find (\<lambda>w. w \<noteq> [] \<and> starts_with w (c # s)) ws = Some [c] \<Longrightarrow> trim_seqs ws (c # s) = trim_seqs ws s"
  by (simp add: trim_seqs.simps [of ws "c # s"])

lemma trim_line_end:
  assumes "s \<noteq> []" "\<forall>c \<in> set s. plain_char c"
  shows "trim_str (s @ CRLF) = s"
proof -
  obtain c t where s: "s = c # t" using assms(1) by (cases s) auto
  then have "\<not> list_ex (\<lambda>w. starts_with w (c # t @ CRLF)) white_space"
    using assms(2) by (intro plain_no_white) simp
  then have 1: "trim_seqs white_space (s @ CRLF) = s @ CRLF" by (simp add: s trim_seqs_id)
  have "trim_seqs (map rev white_space) (NL # CR # rev s) = trim_seqs (map rev white_space) (CR # rev s)"
    by (rule trim_seqs_first) (simp add: white_space_def starts_with_def char_of_eq_iff take_bit_nat_def)
  also have "\<dots> = trim_seqs (map rev white_space) (rev s)"
    by (rule trim_seqs_first) (simp add: white_space_def starts_with_def char_of_eq_iff take_bit_nat_def)
  also have "\<dots> = rev s"
    using plain_trimmed [OF assms] by (simp add: trimmed_def trim_seqs_id)
  finally show ?thesis unfolding trim_str_def 1 by (simp add: CRLF_def)
qed

lemma ascii_valid: "\<forall>c \<in> set s. (of_char c :: nat) < 128 \<Longrightarrow> utf8_valid s"
proof (induction s)
  case (Cons c s)
  then have "utf8_chunk (of_char c) (map of_char s) = (True, 1)"
    by (simp add: utf8_chunk_def utf8_width_def Let_def)
  then show ?case using Cons by simp
qed simp

lemma read_plain_line:
  assumes "\<forall>c \<in> set s. plain_char c"
  shows "read_line (s @ CRLF @ rest) = (Inr (s @ CRLF), rest)"
proof -
  have "NL \<notin> set (s @ [CR])" using assms by (auto simp: plain_char_def Let_def)
  then have "read_until NL ((s @ [CR]) @ NL # rest) = ((s @ [CR]) @ [NL], rest)" by (rule read_until_line)
  moreover have "utf8_valid (s @ CRLF)"
    using assms by (intro ascii_valid) (auto simp: CRLF_def plain_char_def Let_def)
  ultimately show ?thesis by (simp add: read_line_def CRLF_def)
qed

lemma chunk_size_hex: "n < 2 ^ 64 \<Longrightarrow> chunk_size (show_hex n @ CRLF) = n"
proof -
  assume n: "n < 2 ^ 64"
  have p: "\<forall>c \<in> set (show_hex n). plain_char c" using show_hex_plain by blast
  have "CHR '';'' \<notin> set (show_hex n)" using p by (auto simp: plain_char_def Let_def)
  then have split: "split_on (CHR '';'') (show_hex n) = [show_hex n]" by (rule split_on_single)
  obtain c t where s: "show_hex n = c # t" using show_hex_not_Nil by (cases "show_hex n") auto
  then have "c \<noteq> CHR ''+''" using p by (auto simp: plain_char_def Let_def)
  then have "(case show_hex n of CHR ''+'' # r \<Rightarrow> r | _ \<Rightarrow> show_hex n) = show_hex n"
    unfolding s by (auto split: list.splits char.splits bool.splits)
  then have "parse_hex (show_hex n) = Some n"
    using n show_hex_not_Nil by (simp add: parse_hex_def read_show_hex)
  then show ?thesis
    using p show_hex_not_Nil plain_trimmed trim_str_trimmed
    by (simp add: chunk_size_def trim_line_end split)
qed

lemma read_one_chunk:
  assumes "c \<noteq> []" "length c < 2 ^ 64"
  shows "read_chunked (chunk_frame c @ rest) body = read_chunked rest (body @ c)"
proof -
  have "read_line (chunk_frame c @ rest) = (Inr (show_hex (length c) @ CRLF), c @ CRLF @ rest)"
    using read_plain_line [of "show_hex (length c)"] show_hex_plain by (simp add: chunk_frame_def)
  moreover have "read_line (CRLF @ rest) = (Inr CRLF, rest)" using read_plain_line [of "[]"] by simp
  ultimately show ?thesis
    using assms by (simp add: read_chunked.simps [of "chunk_frame c @ rest"] chunk_size_hex read_exact_def show_hex_not_Nil)
qed

lemma read_last_chunk: "read_chunked (''0'' @ CRLF @ rest) body = Inr body"
proof -
  have z: "show_hex 0 = ''0''" by (simp add: show_hex.simps [of 0] hex_digit_def char_of_eq_iff take_bit_nat_def)
  have "read_line (''0'' @ CRLF @ rest) = (Inr (''0'' @ CRLF), rest)"
    using read_plain_line [of "show_hex 0"] show_hex_plain [of _ 0] by (simp add: z)
  moreover have "chunk_size (''0'' @ CRLF) = 0" using chunk_size_hex [of 0] by (simp add: z)
  ultimately show ?thesis by (simp add: read_chunked.simps [of "CHR ''0'' # CRLF @ rest"])
qed

section \<open>Properties\<close>

text \<open>C28: The arguments of a call cannot change the structure of the URL it requests. The URL is
  the base, a path and the query; of the characters with a meaning of their own (delimiters,
  space, CR, LF and other control characters, braces, bytes above 127) the path has only ones
  that the operation's template has, in the same order; the query is one pair for each declared
  query parameter that has an argument, in the declared order, each with a single \<open>=\<close> and no
  other such character. What stands for an argument is made of unreserved characters and
  percent signs only and the server decodes it to the argument's text. An argument of unreserved
  characters stands as it is: \<open>..\<close> as the whole of a segment is a dot segment, and
  a template that does not begin with a slash lets an argument extend the host of the base.\<close>
theorem rest_url_confined:
  "(\<exists>path. let pairs = query_pairs render args (list_or operation ''parameters'')
     in request_url render base operation args =
          base @ path @ (if pairs = [] then [] else ''?'' @ join_with ''&'' pairs) \<and>
        subseq (filter (\<lambda>c. \<not> url_safe c) path)
          (filter (\<lambda>c. \<not> url_safe c) (str_or operation ''path'' [])) \<and>
        list_all (\<lambda>q. filter (\<lambda>c. \<not> url_safe c) q = ''='') pairs) \<and>
   list_all url_safe (percent_encode t) \<and> percent_decode (percent_encode t) = t \<and>
   (percent_encode t = t \<longleftrightarrow> list_all plain_in_url t)"
proof -
  let ?ps = "list_or operation ''parameters''"
  obtain path query where f: "fold (bind_parameter render args) ?ps (str_or operation ''path'' [], []) = (path, query)"
    by force
  have b: "query = query_pairs render args ?ps" "subseq (marks path) (marks (str_or operation ''path'' []))"
    using fold_bind [OF f] by simp_all
  have "request_url render base operation args = base @ path @ (if query = [] then [] else ''?'' @ join_with ''&'' query)"
    by (simp add: request_url_def f)
  then show ?thesis
    using b query_pairs_shape
    by (simp add: Let_def percent_encode_safe percent_decode_encode percent_encode_id)
qed

text \<open>A chunked body is read back whole: for every list of non-empty chunks whose lengths fit
  the size type, framed as HTTP prescribes and ended by the last chunk, the reader returns
  their concatenation, whatever bytes they hold and whatever follows.\<close>
theorem chunked_roundtrip:
  assumes "list_all (\<lambda>c. c \<noteq> [] \<and> length c < 2 ^ 64) chunks"
  shows "read_chunked (concat (map chunk_frame chunks) @ ''0'' @ CRLF @ rest) body = Inr (body @ concat chunks)"
  using assms
proof (induction chunks arbitrary: body)
  case Nil
  then show ?case using read_last_chunk by simp
next
  case (Cons c cs)
  then show ?case by (simp add: read_one_chunk)
qed

theorem chunked_roundtrip_witness:
  "read_chunked (chunk_frame ''ab'' @ chunk_frame ''0'' @ ''0'' @ CRLF) [] = Inr ''ab0''"
  using chunked_roundtrip [of "[''ab'', ''0'']" "[]" "[]"] by simp

end
