(* ===== verification/Doctor.thy ===== *)
theory Doctor
  imports Config HttpClient
begin

text \<open>
  \<open>src/src/doctor.rs\<close>, the construction of the handler registry from a configuration
  (\<open>build_registry\<close> of \<open>handler.rs\<close>), and the command-line tools \<open>yamp-config\<close> and
  \<open>yamp-doctor\<close>. A tool is a function of its arguments, of the file system (a path to the
  file's text or the error of reading it) and of the JSON parser; its result is what it prints
  and its exit code, \<open>None\<close> when it panics.
\<close>

section \<open>The preflight check\<close>

definition LEVEL_OK :: str where "LEVEL_OK = ''ok''"
definition LEVEL_WARNING :: str where "LEVEL_WARNING = ''warning''"

definition finding :: "str \<Rightarrow> str \<Rightarrow> str \<Rightarrow> json" where
  "finding level code message =
     jobj [(''level'', JStr level), (''code'', JStr code), (''message'', JStr message)]"

definition supported_repr :: str where
  "supported_repr = ''['' @ join_with '', '' (map quoted SUPPORTED_PROTOCOL_VERSIONS) @ '']''"

text \<open>The name of a tool, when it has one that is not empty; the findings of one tool.\<close>

definition tool_label :: "json \<Rightarrow> str option" where
  "tool_label tool =
     (case get_str ''name'' tool of Some n \<Rightarrow> if n = [] then None else Some n | None \<Rightarrow> None)"

definition has_schema :: "json \<Rightarrow> bool" where
  "has_schema tool = unwrap_or (map_option is_object (jget ''inputSchema'' tool)) False"

definition tool_findings :: "json \<Rightarrow> json list" where
  "tool_findings tool =
     (case tool_label tool of
        Some name \<Rightarrow>
          if has_schema tool then []
          else [finding LEVEL_WARNING ''missing-input-schema''
                  (''tool '' @ quoted name @ '' has no object inputSchema'')]
      | None \<Rightarrow> [finding LEVEL_ERROR ''unnamed-tool'' ''a tool has no name''])"

definition duplicate_names :: "str list \<Rightarrow> str list" where
  "duplicate_names names =
     remdups_adj (sort (filter (\<lambda>n. 1 < length (filter (\<lambda>m. m = n) names)) names))"

definition check_server :: "json list \<Rightarrow> str \<Rightarrow> json list" where
  "check_server tools protocol_version =
     (if is_supported protocol_version then []
      else [finding LEVEL_ERROR ''unsupported-protocol-version''
              (''advertised protocol version '' @ quoted protocol_version @
               '' is not in the supported set '' @ supported_repr)]) @
     (if tools = [] then [finding LEVEL_WARNING ''no-tools'' ''server exposes no tools''] else []) @
     concat (map tool_findings tools) @
     map (\<lambda>name. finding LEVEL_ERROR ''duplicate-tool''
            (''tool name '' @ quoted name @ '' is exposed more than once''))
       (duplicate_names (List.map_filter tool_label tools))"

definition findings_ok :: "json list \<Rightarrow> bool" where
  "findings_ok findings \<longleftrightarrow> \<not> list_ex (\<lambda>f. get_str ''level'' f = Some LEVEL_ERROR) findings"

definition check_registry :: "'w registry \<Rightarrow> str \<Rightarrow> json list" where
  "check_registry registry protocol_version = check_server (registry_tools registry) protocol_version"

definition MODE_DEFAULT :: str where "MODE_DEFAULT = ''default''"
definition MODE_STRICT :: str where "MODE_STRICT = ''strict''"
definition MODE_LENIENT :: str where "MODE_LENIENT = ''lenient''"

definition servable :: "json list \<Rightarrow> str \<Rightarrow> bool" where
  "servable findings mode =
     (if mode = MODE_LENIENT then True
      else if mode = MODE_STRICT then findings = []
      else findings_ok findings)"

definition finding_line :: "json \<Rightarrow> str" where
  "finding_line f =
     unwrap_or (get_str ''level'' f) [] @ '': ['' @ unwrap_or (get_str ''code'' f) [] @ ''] '' @
     unwrap_or (get_str ''message'' f) []"

definition render_text :: "json list \<Rightarrow> str \<Rightarrow> str" where
  "render_text findings mode =
     join_with [NL] (map finding_line findings @
       [if servable findings mode then ''config ok'' else ''config invalid''])"

definition doctor_report :: "json list \<Rightarrow> str \<Rightarrow> json" where
  "doctor_report findings mode =
     jobj [(''ok'', JBool (servable findings mode)), (''findings'', JArr findings)]"

definition exit_code :: "json list \<Rightarrow> str \<Rightarrow> int" where
  "exit_code findings mode = (if servable findings mode then 0 else 1)"

section \<open>The registry of a configuration\<close>

definition configured_handler ::
  "(json \<Rightarrow> str) \<Rightarrow> ('w \<Rightarrow> str \<Rightarrow> str \<Rightarrow> io_error + str) \<Rightarrow> rest_handler_config \<Rightarrow> 'w handler option" where
  "configured_handler render net spec =
     map_option (rest_handler render)
       (rest_with_id (rh_id spec)
         (rest_new (jobj [(''baseUrl'', JStr (rh_base_url spec)), (''operations'', JArr (rh_operations spec))])
            (http_transport net)))"

text \<open>\<open>None\<close> is the panic of \<open>with_id\<close>.\<close>

definition build_registry ::
  "(json \<Rightarrow> str) \<Rightarrow> ('w \<Rightarrow> str \<Rightarrow> str \<Rightarrow> io_error + str) \<Rightarrow> handler_config \<Rightarrow> ('w \<Rightarrow> json) \<Rightarrow>
     (io_error + 'w registry) option" where
  "build_registry render net config provider =
     (case those (map (configured_handler render net) (hc_rest config)) of
        None \<Rightarrow> None
      | Some handlers \<Rightarrow>
          Some (registry_new (handlers @ (if hc_meta_tools config then [backends_handler render provider] else []))))"

text \<open>The provider that the servers pass: the ids of the configured backends.\<close>

definition backend_ids_json :: "str list \<Rightarrow> json" where
  "backend_ids_json ids = JArr (map (\<lambda>i. jobj [(''id'', JStr i)]) ids)"

section \<open>The command-line tools\<close>

record cli =
  cl_out :: "str list"
  cl_err :: "str list"
  cl_exit :: int

definition cli_result :: "str list \<Rightarrow> str list \<Rightarrow> int \<Rightarrow> cli" where
  "cli_result out err code = \<lparr>cl_out = out, cl_err = err, cl_exit = code\<rparr>"

text \<open>A parse error with its position.\<close>

record parse_failure =
  pf_message :: str
  pf_line :: nat
  pf_column :: nat

record tool_env =
  te_files :: "str \<Rightarrow> io_error + str"
  te_parse :: "str \<Rightarrow> parse_failure + json"
  te_render :: "json \<Rightarrow> str"

record tool_args =
  ta_config :: "str option"
  ta_to :: "str option"
  ta_key :: "str option"
  ta_json :: bool
  ta_mode :: str

definition no_args :: tool_args where
  "no_args = \<lparr>ta_config = None, ta_to = None, ta_key = None, ta_json = False, ta_mode = MODE_DEFAULT\<rparr>"

definition config_flag :: "str \<Rightarrow> tool_args \<Rightarrow> tool_args" where
  "config_flag x a =
     (if x = ''--json'' then a\<lparr>ta_json := True\<rparr>
      else if \<not> starts_with ''--'' x then a\<lparr>ta_key := Some x\<rparr> else a)"

fun config_args :: "str list \<Rightarrow> tool_args \<Rightarrow> tool_args" where
  "config_args [] a = a"
| "config_args [x] a = config_flag x a"
| "config_args (x # v # rest) a =
     (if x = ''--config'' then config_args rest (a\<lparr>ta_config := Some v\<rparr>)
      else if x = ''--to'' then config_args rest (a\<lparr>ta_to := Some v\<rparr>)
      else config_args (v # rest) (config_flag x a))"

definition load_raw :: "tool_env \<Rightarrow> str \<Rightarrow> cli + json" where
  "load_raw env path =
     (case te_files env path of
        Inl e \<Rightarrow> Inl (cli_result [] [''error: '' @ io_message e] 2)
      | Inr contents \<Rightarrow>
          (case te_parse env contents of
             Inl f \<Rightarrow> Inl (cli_result [] [''error: '' @ pf_message f] 2)
           | Inr raw \<Rightarrow> Inr raw))"

definition run_explain :: "tool_env \<Rightarrow> str \<Rightarrow> str \<Rightarrow> bool \<Rightarrow> cli" where
  "run_explain env path key as_json =
     (case load_raw env path of
        Inl c \<Rightarrow> c
      | Inr raw \<Rightarrow>
          (let entry = explain raw key
           in cli_result [if as_json then te_render env entry else explain_line (te_render env) entry] []
                (if jindex entry ''source'' = JStr SOURCE_UNKNOWN then 2 else 0)))"

definition run_effective :: "tool_env \<Rightarrow> str \<Rightarrow> bool \<Rightarrow> cli" where
  "run_effective env path as_json =
     (case load_raw env path of
        Inl c \<Rightarrow> c
      | Inr raw \<Rightarrow>
          cli_result (if as_json then [te_render env (JArr (effective raw))]
                      else map (explain_line (te_render env)) (effective raw)) [] 0)"

definition run_diff :: "tool_env \<Rightarrow> str \<Rightarrow> str \<Rightarrow> bool \<Rightarrow> cli" where
  "run_diff env path dest as_json =
     (case load_raw env path of
        Inl c \<Rightarrow> c
      | Inr left \<Rightarrow>
          (case load_raw env dest of
             Inl c \<Rightarrow> c
           | Inr right \<Rightarrow>
               (let changes = config_diff left right
                in cli_result
                     (if as_json then [te_render env (JArr changes)]
                      else if changes = [] then [''no differences'']
                      else map (diff_line (te_render env)) changes) []
                     (if changes = [] then 0 else 1))))"

definition location :: "tool_env \<Rightarrow> json \<Rightarrow> str" where
  "location env f =
     (case jget ''line'' f of
        Some line \<Rightarrow> '' (line '' @ te_render env line @ '', column '' @ te_render env (jindex f ''column'') @ '')''
      | None \<Rightarrow> [])"

definition invalid_report :: "tool_env \<Rightarrow> json \<Rightarrow> bool \<Rightarrow> cli" where
  "invalid_report env f as_json =
     cli_result
       (if as_json then [te_render env (jobj [(''valid'', JBool False), (''error'', f)])]
        else [''config invalid: '' @ str_at f ''message'' @ location env f,
              ''  fix: '' @ str_at f ''hint'', ''  docs: '' @ str_at f ''docsUrl'']) [] 1"

definition run_validate :: "tool_env \<Rightarrow> str \<Rightarrow> bool \<Rightarrow> cli" where
  "run_validate env path as_json =
     (case te_files env path of
        Inl e \<Rightarrow> cli_result [] [''error: '' @ io_message e] 2
      | Inr contents \<Rightarrow>
          (case te_parse env contents of
             Inl f \<Rightarrow> invalid_report env (parse_error_finding (pf_message f) (pf_line f) (pf_column f)) as_json
           | Inr raw \<Rightarrow>
               (case diagnose raw of
                  Some f \<Rightarrow> invalid_report env f as_json
                | None \<Rightarrow> cli_result [if as_json then ''{\"valid\":true}'' else ''config valid''] [] 0)))"

definition run_adapt :: "tool_env \<Rightarrow> str \<Rightarrow> cli" where
  "run_adapt env path =
     (case load_raw env path of Inl c \<Rightarrow> c | Inr raw \<Rightarrow> cli_result [te_render env (adapt raw)] [] 0)"

definition CONFIG_USAGE :: str where
  "CONFIG_USAGE = ''usage: yamp-config (validate --config file.json | explain --config file.json <key> | effective --config file.json | diff --config a.json --to b.json | adapt --config file.json) [--json]''"

definition usage_exit :: "str \<Rightarrow> cli" where
  "usage_exit u = cli_result [] [u] 2"

definition config_main :: "tool_env \<Rightarrow> str list \<Rightarrow> cli" where
  "config_main env args =
     (let command = (if 1 < length args then Some (args ! 1) else None);
          a = config_args (drop 2 args) no_args
      in case ta_config a of
           None \<Rightarrow> usage_exit CONFIG_USAGE
         | Some path \<Rightarrow>
             if command = Some ''validate'' then run_validate env path (ta_json a)
             else if command = Some ''explain''
             then (case ta_key a of Some key \<Rightarrow> run_explain env path key (ta_json a) | None \<Rightarrow> usage_exit CONFIG_USAGE)
             else if command = Some ''effective'' then run_effective env path (ta_json a)
             else if command = Some ''diff''
             then (case ta_to a of Some dest \<Rightarrow> run_diff env path dest (ta_json a) | None \<Rightarrow> usage_exit CONFIG_USAGE)
             else if command = Some ''adapt'' then run_adapt env path
             else usage_exit CONFIG_USAGE)"

text \<open>\<open>yamp-doctor\<close>.\<close>

definition doctor_flag :: "str \<Rightarrow> tool_args \<Rightarrow> tool_args" where
  "doctor_flag x a =
     (if x = ''--json'' then a\<lparr>ta_json := True\<rparr>
      else if x = ''--strict'' then a\<lparr>ta_mode := MODE_STRICT\<rparr>
      else if x = ''--lenient'' then a\<lparr>ta_mode := MODE_LENIENT\<rparr> else a)"

fun doctor_args :: "str list \<Rightarrow> tool_args \<Rightarrow> tool_args" where
  "doctor_args [] a = a"
| "doctor_args [x] a = doctor_flag x a"
| "doctor_args (x # v # rest) a =
     (if x = ''--config'' then doctor_args rest (a\<lparr>ta_config := Some v\<rparr>)
      else doctor_args (v # rest) (doctor_flag x a))"

definition emit_findings :: "tool_env \<Rightarrow> json list \<Rightarrow> bool \<Rightarrow> str \<Rightarrow> int \<Rightarrow> cli" where
  "emit_findings env findings as_json mode code =
     cli_result [if as_json then te_render env (doctor_report findings mode) else render_text findings mode] [] code"

definition config_finding :: "tool_env \<Rightarrow> json \<Rightarrow> json" where
  "config_finding env f =
     finding LEVEL_ERROR (str_at f ''slug'')
       (str_at f ''message'' @ location env f @ ''; '' @ str_at f ''hint'')"

definition run_doctor ::
  "tool_env \<Rightarrow> ('w \<Rightarrow> str \<Rightarrow> str \<Rightarrow> io_error + str) \<Rightarrow> str \<Rightarrow> bool \<Rightarrow> str \<Rightarrow> cli option" where
  "run_doctor env net path as_json mode =
     (case te_files env path of
        Inl e \<Rightarrow> Some (emit_findings env [finding LEVEL_ERROR ''config-load'' (io_message e)] as_json MODE_DEFAULT 2)
      | Inr contents \<Rightarrow>
          (case te_parse env contents of
             Inl f \<Rightarrow> Some (emit_findings env
               [config_finding env (parse_error_finding (pf_message f) (pf_line f) (pf_column f))] as_json MODE_DEFAULT 2)
           | Inr raw \<Rightarrow>
               (case diagnose raw of
                  Some f \<Rightarrow> Some (emit_findings env [config_finding env f] as_json MODE_DEFAULT 2)
                | None \<Rightarrow>
                    (case from_value raw of
                       Inl e \<Rightarrow> None
                     | Inr c \<Rightarrow>
                         (case build_registry (te_render env) net (pcf_handlers c)
                                 (\<lambda>_. backend_ids_json (map bc_id (pcf_backends c))) of
                            Some (Inr registry) \<Rightarrow>
                              (let findings = check_registry registry STATEFUL_PROTOCOL_VERSION
                               in Some (emit_findings env findings as_json mode (exit_code findings mode)))
                          | _ \<Rightarrow> None)))))"

definition DOCTOR_USAGE :: str where
  "DOCTOR_USAGE = ''usage: yamp-doctor --config file.json [--json] [--strict | --lenient]''"

definition doctor_main ::
  "tool_env \<Rightarrow> ('w \<Rightarrow> str \<Rightarrow> str \<Rightarrow> io_error + str) \<Rightarrow> str list \<Rightarrow> cli option" where
  "doctor_main env net args =
     (let a = doctor_args (drop 1 args) no_args
      in case ta_config a of
           None \<Rightarrow> Some (usage_exit DOCTOR_USAGE)
         | Some path \<Rightarrow> run_doctor env net path (ta_json a) (ta_mode a))"

section \<open>The start of \<open>yamp-serve\<close>\<close>

record serve_args =
  sa_listen :: str
  sa_backends :: "(str \<times> str) list"
  sa_config :: "str option"
  sa_insecure :: bool

text \<open>A \<open>--backend\<close> without \<open>=\<close> panics.\<close>

fun parse_serve_args :: "str list \<Rightarrow> serve_args \<Rightarrow> serve_args option" where
  "parse_serve_args [] a = Some a"
| "parse_serve_args [x] a = Some (if x = ''--insecure'' then a\<lparr>sa_insecure := True\<rparr> else a)"
| "parse_serve_args (x # v # rest) a =
     (if x = ''--listen'' then parse_serve_args rest (a\<lparr>sa_listen := v\<rparr>)
      else if x = ''--backend''
      then (case split_once ''='' v of
              Some (i, addr) \<Rightarrow> parse_serve_args rest (a\<lparr>sa_backends := sa_backends a @ [(i, addr)]\<rparr>)
            | None \<Rightarrow> None)
      else if x = ''--config'' then parse_serve_args rest (a\<lparr>sa_config := Some v\<rparr>)
      else parse_serve_args (v # rest) (if x = ''--insecure'' then a\<lparr>sa_insecure := True\<rparr> else a))"

text \<open>\<open>b.addresses[0]\<close> panics on a backend without addresses.\<close>

definition backend_spec :: "backend_config \<Rightarrow> (str \<times> str) option" where
  "backend_spec b = (case bc_addresses b of [] \<Rightarrow> None | a # _ \<Rightarrow> Some (bc_id b, a))"

datatype startup =
    Refused str
  | Unloadable io_error
  | Serving str "(str \<times> str) list" "proxy_config option"

definition bind_or_refuse :: "str \<Rightarrow> (str \<times> str) list \<Rightarrow> proxy_config option \<Rightarrow> bool \<Rightarrow> startup" where
  "bind_or_refuse listen specs config insecure =
     (let has_client_auth = (case config of Some c \<Rightarrow> pcf_client_tokens c \<noteq> [] | None \<Rightarrow> False)
      in case guard_bind listen has_client_auth insecure of
           Some refusal \<Rightarrow> Refused (''error: '' @ refusal)
         | None \<Rightarrow> Serving listen specs config)"

definition serve_startup :: "(str \<Rightarrow> str + json) \<Rightarrow> (str \<Rightarrow> io_error + str) \<Rightarrow> str list \<Rightarrow> startup option" where
  "serve_startup parse files args =
     (case parse_serve_args (drop 1 args)
             \<lparr>sa_listen = [], sa_backends = [], sa_config = None, sa_insecure = False\<rparr> of
        None \<Rightarrow> None
      | Some a \<Rightarrow>
          (case sa_config a of
             None \<Rightarrow> Some (bind_or_refuse (sa_listen a) (sa_backends a) None (sa_insecure a))
           | Some path \<Rightarrow>
               (case load_config parse (files path) of
                  Inl e \<Rightarrow> Some (Unloadable e)
                | Inr c \<Rightarrow>
                    (case those (map backend_spec (pcf_backends c)) of
                       None \<Rightarrow> None
                     | Some specs \<Rightarrow>
                         Some (bind_or_refuse (if sa_listen a = [] then pcf_listen c else sa_listen a)
                                 specs (Some c) (sa_insecure a))))))"

section \<open>Lemmas\<close>

lemma finding_level: "get_str ''level'' (finding level code message) = Some level"
  by (simp add: finding_def get_str_def json_simps)

lemma duplicates_none: "duplicate_names names = [] \<longleftrightarrow> distinct names"
proof
  assume none: "duplicate_names names = []"
  show "distinct names"
  proof (rule ccontr)
    assume "\<not> distinct names"
    then obtain xs a ys zs where n: "names = xs @ [a] @ ys @ [a] @ zs" using not_distinct_decomp by blast
    then have "a \<in> set (filter (\<lambda>n. 1 < length (filter (\<lambda>m. m = n) names)) names)" by simp
    moreover have "set (duplicate_names names) = set (filter (\<lambda>n. 1 < length (filter (\<lambda>m. m = n) names)) names)"
      unfolding duplicate_names_def by (simp only: remdups_adj_set set_sort)
    ultimately show False using none by auto
  qed
next
  assume d: "distinct names"
  have "length (filter (\<lambda>m. m = n) names) \<le> 1" for n
    using distinct_length_filter [OF d, of "\<lambda>m. m = n"] card_mono [of "{n}" "{x. x = n} \<inter> set names"] by auto
  then have "filter (\<lambda>n. 1 < length (filter (\<lambda>m. m = n) names)) names = []"
    by (simp add: filter_empty_conv not_less)
  then show "duplicate_names names = []" unfolding duplicate_names_def by simp
qed

lemma tool_findings_level:
  "list_ex (\<lambda>f. get_str ''level'' f = Some LEVEL_ERROR) (tool_findings tool) \<longleftrightarrow> tool_label tool = None"
  "tool_findings tool = [] \<longleftrightarrow> tool_label tool \<noteq> None \<and> has_schema tool"
  by (simp_all add: tool_findings_def finding_level LEVEL_WARNING_def LEVEL_ERROR_def split: option.splits)

lemma ex_concat_map: "list_ex P (concat (map f xs)) \<longleftrightarrow> list_ex (\<lambda>x. list_ex P (f x)) xs"
  by (induction xs) auto

lemma ex_map_all: "(\<And>x. P (f x)) \<Longrightarrow> list_ex P (map f xs) \<longleftrightarrow> xs \<noteq> []"
  by (cases xs) auto

lemma configured_handlers:
  assumes "list_all valid_backend_id (map rh_id specs)"
  shows "\<exists>hs. those (map (configured_handler render net) specs) = Some hs \<and> map h_id hs = map rh_id specs"
  using assms
proof (induction specs)
  case (Cons spec specs)
  then obtain hs where "those (map (configured_handler render net) specs) = Some hs" "map h_id hs = map rh_id specs"
    by auto
  moreover have "\<exists>h. configured_handler render net spec = Some h \<and> h_id h = rh_id spec"
    using Cons.prems by (simp add: configured_handler_def rest_with_id_def rest_handler_def)
  ultimately show ?case by auto
qed simp

lemma registry_new_Inr: "(\<exists>r. registry_new hs = Inr r) \<longleftrightarrow>
    list_all valid_backend_id (map h_id hs) \<and> distinct (map h_id hs)"
  using check_ids_None [of "{}" hs] by (auto simp: registry_new_def split: option.splits)

section \<open>Properties\<close>

text \<open>The preflight accepts a surface exactly when the protocol version is supported, every
  tool has a non-empty name and no two have the same; in strict mode the surface must also have
  a tool, and every tool an object as its input schema. The exit code is 0 exactly then.\<close>
theorem doctor_decides:
  "let sound = is_supported v \<and> list_all (\<lambda>t. tool_label t \<noteq> None) tools \<and>
               distinct (List.map_filter tool_label tools);
       findings = check_server tools v
   in (exit_code findings MODE_DEFAULT = 0) = sound \<and>
      (exit_code findings MODE_STRICT = 0) = (sound \<and> tools \<noteq> [] \<and> list_all has_schema tools) \<and>
      exit_code findings MODE_LENIENT = 0"
proof -
  have "findings_ok (check_server tools v) =
      (is_supported v \<and> list_all (\<lambda>t. tool_label t \<noteq> None) tools \<and> distinct (List.map_filter tool_label tools))"
    unfolding duplicates_none [symmetric] findings_ok_def check_server_def list_ex_append ex_concat_map
      tool_findings_level(1)
    by (subst ex_map_all) (auto simp: finding_level LEVEL_WARNING_def LEVEL_ERROR_def list_ex_iff list_all_iff)
  moreover have "(check_server tools v = []) =
      (is_supported v \<and> list_all (\<lambda>t. tool_label t \<noteq> None) tools \<and> distinct (List.map_filter tool_label tools) \<and>
       tools \<noteq> [] \<and> list_all has_schema tools)"
    unfolding duplicates_none [symmetric]
    by (auto simp: check_server_def tool_findings_level(2) list_all_iff)
  moreover have "MODE_DEFAULT \<noteq> MODE_LENIENT" "MODE_STRICT \<noteq> MODE_LENIENT" "MODE_DEFAULT \<noteq> MODE_STRICT"
    by (simp_all add: MODE_DEFAULT_def MODE_STRICT_def MODE_LENIENT_def)
  ultimately show ?thesis by (simp add: exit_code_def servable_def Let_def)
qed

definition handler_ids :: "handler_config \<Rightarrow> str list" where
  "handler_ids config = map rh_id (hc_rest config) @ (if hc_meta_tools config then [''yamp''] else [])"

lemma build_registry_cases:
  assumes "proxy_config_ok c"
  shows "\<exists>out. build_registry render net (pcf_handlers c) provider = Some out \<and>
    ((\<exists>r. out = Inr r) \<longleftrightarrow> distinct (handler_ids (pcf_handlers c)))"
proof -
  have valid: "list_all valid_backend_id (map rh_id (hc_rest (pcf_handlers c)))"
    using assms by (auto simp: proxy_config_ok_def Let_def)
  then obtain hs where hs: "those (map (configured_handler render net) (hc_rest (pcf_handlers c))) = Some hs"
      "map h_id hs = map rh_id (hc_rest (pcf_handlers c))"
    using configured_handlers by blast
  let ?all = "hs @ (if hc_meta_tools (pcf_handlers c) then [backends_handler render provider] else [])"
  have ids: "map h_id ?all = handler_ids (pcf_handlers c)"
    by (simp add: hs(2) handler_ids_def backends_handler_def)
  have "valid_backend_id ''yamp''" by code_simp
  then have "list_all valid_backend_id (map h_id ?all)" using valid unfolding ids by (simp add: handler_ids_def)
  then show ?thesis using registry_new_Inr [of ?all] unfolding ids by (simp add: build_registry_def hs(1))
qed

lemma backend_spec_None: "those (map backend_spec bs) = None \<longleftrightarrow> list_ex (\<lambda>b. bc_addresses b = []) bs"
  by (induction bs) (auto simp: backend_spec_def split: list.splits option.splits)

text \<open>C31: What can still fail after a document has been accepted: the doctor panics exactly when
  two handlers have one id (the built-in handler's \<open>yamp\<close> included), and \<open>yamp-serve\<close> exactly
  when a backend has no address that is a string; otherwise both come to a result.\<close>
theorem accepted_config_startup:
  assumes "wf_json data" "from_value data = Inr c"
    and "te_files env path = Inr contents" "te_parse env contents = Inr data"
    and "parse contents = Inr data"
  shows "(run_doctor env net path as_json mode = None \<longleftrightarrow> \<not> distinct (handler_ids (pcf_handlers c))) \<and>
    (serve_startup parse (te_files env) [''yamp-serve'', ''--config'', path] = None \<longleftrightarrow>
       list_ex (\<lambda>b. bc_addresses b = []) (pcf_backends c))"
proof -
  have "diagnose data = None"
    using assms(2) by (auto simp: from_value_def diagnose_def split: option.splits)
  then have "run_doctor env net path as_json mode = None \<longleftrightarrow> \<not> distinct (handler_ids (pcf_handlers c))"
    using build_registry_cases [OF from_value_ok [OF assms(1,2)], of "te_render env" net
        "\<lambda>_. backend_ids_json (map bc_id (pcf_backends c))"] assms(2,3,4)
    by (auto simp: run_doctor_def Let_def split: sum.splits)
  moreover have "serve_startup parse (te_files env) [''yamp-serve'', ''--config'', path] = None \<longleftrightarrow>
      those (map backend_spec (pcf_backends c)) = None"
    using assms(2,3,5) by (simp add: serve_startup_def load_config_def split: option.splits)
  ultimately show ?thesis by (simp only: backend_spec_None)
qed

definition clashing_config :: json where
  "clashing_config =
     jobj [(''listen'', JStr ''127.0.0.1:9100''),
           (''backends'', jobj [(''files'', jobj [(''addresses'', JArr [JNull])])]),
           (''handlers'', jobj [(''metaTools'', JBool True),
              (''rest'', JArr [jobj [(''id'', JStr ''yamp''), (''baseUrl'', JStr ''http://x'')]])])]"

theorem accepted_config_startup_witness:
  "run_doctor \<lparr>te_files = (\<lambda>_. Inr []), te_parse = (\<lambda>_. Inr clashing_config), te_render = (\<lambda>_. [])\<rparr>
     (\<lambda>w :: unit. \<lambda>_ _. Inr []) ''f'' False MODE_DEFAULT = None \<and>
   serve_startup (\<lambda>_. Inr clashing_config) (\<lambda>_. Inr []) [''yamp-serve'', ''--config'', ''f''] = None"
proof -
  let ?env = "\<lparr>te_files = (\<lambda>_. Inr []), te_parse = (\<lambda>_. Inr clashing_config), te_render = (\<lambda>_. [])\<rparr>"
  have wf: "wf_json clashing_config" by code_simp
  have none: "first_error clashing_config = None" by code_simp
  have rest: "rest_entries clashing_config = [jobj [(''id'', JStr ''yamp''), (''baseUrl'', JStr ''http://x'')]]"
    and meta: "as_bool (jindex (jindex clashing_config ''handlers'') ''metaTools'') = Some True"
    and backs: "backend_entries clashing_config = [(''files'', jobj [(''addresses'', JArr [JNull])])]" by code_simp+
  obtain c where c: "from_value clashing_config = Inr c" using none by (simp add: from_value_def)
  then have "\<not> distinct (handler_ids (pcf_handlers c))" "list_ex (\<lambda>b. bc_addresses b = []) (pcf_backends c)"
    using none by (auto simp: from_value_def handler_ids_def rest meta backs resolve_rest_def resolve_backend_def
        strings_of_def map_filter_def json_simps)
  then show ?thesis
    using accepted_config_startup [OF wf c, of ?env "''f''" "[]" "\<lambda>_. Inr clashing_config"
        "\<lambda>w :: unit. \<lambda>_ _. Inr []" False MODE_DEFAULT] by simp
qed

end
