(* ===== verification/Interception.thy ===== *)
theory Interception
  imports Peers Routing "HOL-Library.Sublist"
begin

text \<open>
  The two-way links between one client and one backend: the relay (\<open>Relay::run\<close> of
  \<open>src/src/relay.rs\<close>, message by message), transparent mode level 1 (\<open>src/src/transparent.rs\<close>)
  and the single-backend forward proxy (\<open>src/src/forward.rs\<close>). The two directions of a link
  are tasks joined by \<open>try_join!\<close>; a step of the relation \<open>link_step\<close> is one turn of one
  direction's loop, so every interleaving is a run, and an error of one direction ends both.
\<close>

section \<open>A link and its two directions\<close>

record link =
  lk_client :: chan
  lk_backend :: chan
  lk_blocked :: u64
  lk_up :: "(io_error + unit) option"
  lk_down :: "(io_error + unit) option"

text \<open>What a direction does with a message of the client: an error, let it through, block it.\<close>

type_synonym gate = "str \<Rightarrow> io_error + bool"

definition up_turn :: "gate \<Rightarrow> str \<Rightarrow> link \<Rightarrow> link" where
  "up_turn gate reply l =
     (case recv (lk_client l) of
        (Inl e, c) \<Rightarrow> l\<lparr>lk_client := c, lk_up := Some (Inl e)\<rparr>
      | (Inr None, c) \<Rightarrow>
          (let (r, b) = send_eof_to (lk_backend l) in l\<lparr>lk_client := c, lk_backend := b, lk_up := Some r\<rparr>)
      | (Inr (Some raw), c) \<Rightarrow>
          (case gate raw of
             Inl e \<Rightarrow> l\<lparr>lk_client := c, lk_up := Some (Inl e)\<rparr>
           | Inr allowed \<Rightarrow>
               if allowed
               then (case send_message_to raw (lk_backend l) of
                       (Inl e, b) \<Rightarrow> l\<lparr>lk_client := c, lk_backend := b, lk_up := Some (Inl e)\<rparr>
                     | (Inr _, b) \<Rightarrow> l\<lparr>lk_client := c, lk_backend := b\<rparr>)
               else (case send_message_to reply c of
                       (Inl e, c) \<Rightarrow> l\<lparr>lk_client := c, lk_blocked := lk_blocked l + 1, lk_up := Some (Inl e)\<rparr>
                     | (Inr _, c) \<Rightarrow> l\<lparr>lk_client := c, lk_blocked := lk_blocked l + 1\<rparr>)))"

definition down_turn :: "link \<Rightarrow> link" where
  "down_turn l =
     (case recv (lk_backend l) of
        (Inl e, b) \<Rightarrow> l\<lparr>lk_backend := b, lk_down := Some (Inl e)\<rparr>
      | (Inr None, b) \<Rightarrow>
          (let (r, c) = send_eof_to (lk_client l) in l\<lparr>lk_backend := b, lk_client := c, lk_down := Some r\<rparr>)
      | (Inr (Some raw), b) \<Rightarrow>
          (case send_message_to raw (lk_client l) of
             (Inl e, c) \<Rightarrow> l\<lparr>lk_backend := b, lk_client := c, lk_down := Some (Inl e)\<rparr>
           | (Inr _, c) \<Rightarrow> l\<lparr>lk_backend := b, lk_client := c\<rparr>))"

text \<open>\<open>try_join!\<close>: the first error, or the end of both.\<close>

fun try_join :: "(io_error + unit) option \<Rightarrow> (io_error + unit) option \<Rightarrow> (io_error + unit) option" where
  "try_join (Some (Inl e)) d = Some (Inl e)"
| "try_join u (Some (Inl e)) = Some (Inl e)"
| "try_join (Some (Inr _)) (Some (Inr _)) = Some (Inr ())"
| "try_join u d = None"

definition joined :: "link \<Rightarrow> (io_error + unit) option" where
  "joined l = try_join (lk_up l) (lk_down l)"

inductive link_step :: "gate \<Rightarrow> str \<Rightarrow> link \<Rightarrow> link \<Rightarrow> bool" for gate reply where
  up: "joined l = None \<Longrightarrow> lk_up l = None \<Longrightarrow> link_step gate reply l (up_turn gate reply l)"
| down: "joined l = None \<Longrightarrow> lk_down l = None \<Longrightarrow> link_step gate reply l (down_turn l)"

inductive_cases link_stepE: "link_step gate reply l l'"

definition link_start :: "chan \<Rightarrow> chan \<Rightarrow> link" where
  "link_start c b = \<lparr>lk_client = c, lk_backend = b, lk_blocked = 0, lk_up = None, lk_down = None\<rparr>"

text \<open>The relay lets everything through.\<close>

definition relay_gate :: gate where
  "relay_gate raw = Inr True"

section \<open>Transparent mode, level 1\<close>

definition encode_envelope :: "codec \<Rightarrow> json \<Rightarrow> str \<Rightarrow> str" where
  "encode_envelope k headers body = c_enc k (jobj [(''headers'', headers), (''body'', JStr body)])"

definition peek_headers :: "codec \<Rightarrow> str \<Rightarrow> io_error + json" where
  "peek_headers k raw =
     (case decode_message k raw of
        Inl e \<Rightarrow> Inl e
      | Inr v \<Rightarrow> Inr (unwrap_or (jget ''headers'' v) (jobj [])))"

definition recover_original_destination :: "io_error + str \<times> nat" where
  "recover_original_destination = Inl (IoError Unsupported ''SO_ORIGINAL_DST recovery is integration-only'')"

text \<open>\<open>debug\<close> is the text that \<open>{destination:?}\<close> gives.\<close>

definition select_backend :: "(str \<times> nat \<Rightarrow> str) \<Rightarrow> str \<times> nat \<Rightarrow> (str \<times> nat, 't) smap \<Rightarrow> io_error + 't" where
  "select_backend debug destination table =
     (case smap_get destination table of
        Some t \<Rightarrow> Inr t
      | None \<Rightarrow> Inl (IoError NotFound (''no backend for destination '' @ debug destination)))"

record header_policy =
  hp_methods :: "str set"
  hp_names :: "str set"

definition allow_all :: "json \<Rightarrow> bool" where
  "allow_all headers = True"

definition header_allow :: "header_policy \<Rightarrow> json \<Rightarrow> bool" where
  "header_allow p headers =
     (if (case get_str ''Mcp-Method'' headers of Some m \<Rightarrow> m \<in> hp_methods p | None \<Rightarrow> False) then False
      else if (case get_str ''Mcp-Name'' headers of Some n \<Rightarrow> n \<in> hp_names p | None \<Rightarrow> False) then False
      else True)"

definition blocked_response :: "codec \<Rightarrow> str" where
  "blocked_response k =
     encode_envelope k (jobj [(''Mcp-Status'', JStr ''blocked'')])
       (c_enc k (jobj [(''error'', jobj [(''code'', jint POLICY_DENIED), (''message'', JStr ''blocked by policy'')])]))"

definition l1_gate :: "codec \<Rightarrow> (json \<Rightarrow> bool) \<Rightarrow> gate" where
  "l1_gate k allow raw = (case peek_headers k raw of Inl e \<Rightarrow> Inl e | Inr headers \<Rightarrow> Inr (allow headers))"

abbreviation l1_step :: "codec \<Rightarrow> (json \<Rightarrow> bool) \<Rightarrow> link \<Rightarrow> link \<Rightarrow> bool" where
  "l1_step k allow \<equiv> link_step (l1_gate k allow) (blocked_response k)"

definition l1_result :: "link \<Rightarrow> (io_error + u64) option" where
  "l1_result l = (case joined l of
     None \<Rightarrow> None | Some (Inl e) \<Rightarrow> Some (Inl e) | Some (Inr _) \<Rightarrow> Some (Inr (lk_blocked l)))"

section \<open>The forward proxy of one backend\<close>

type_synonym pair = "chan \<times> chan"

text \<open>An operation on the client's or on the backend's connection.\<close>

definition on_client :: "(chan, 'a) action \<Rightarrow> (pair, 'a) action" where
  "on_client m s = (let (r, c) = m (fst s) in (r, (c, snd s)))"

definition on_backend :: "(chan, 'a) action \<Rightarrow> (pair, 'a) action" where
  "on_backend m s = (let (r, b) = m (snd s) in (r, (fst s, b)))"

definition forward_initialize :: json where
  "forward_initialize =
     jobj [(''jsonrpc'', JStr ''2.0''), (''id'', jint 1), (''method'', JStr ''initialize''),
           (''params'', jobj [(''protocolVersion'', JStr PROXY_PROTOCOL_VERSION),
              (''capabilities'', jobj []), (''clientInfo'', proxy_server_info)])]"

definition forward_initialized :: json where
  "forward_initialized = jobj [(''jsonrpc'', JStr ''2.0''), (''method'', JStr ''notifications/initialized'')]"

definition forward_backend_handshake :: "codec \<Rightarrow> (pair, json \<times> json option) action" where
  "forward_backend_handshake k =
     and_then (on_backend (send_message_to (c_enc k forward_initialize))) (\<lambda>_.
     and_then (on_backend recv) (\<lambda>received.
       case received of
         None \<Rightarrow> fail (IoError UnexpectedEof ''backend closed during initialize'')
       | Some raw \<Rightarrow>
           and_then (lift (decode_message k raw)) (\<lambda>init.
           and_then (on_backend (send_message_to (c_enc k forward_initialized))) (\<lambda>_.
             let result = jget ''result'' init
             in ok (unwrap_or (Option.bind result (jget ''capabilities'')) (jobj []),
                    Option.bind result (jget ''serverInfo''))))))"

definition id_of :: "json \<Rightarrow> json" where
  "id_of message = unwrap_or (jget ''id'' message) JNull"

definition forward_refusal :: "json \<Rightarrow> json" where
  "forward_refusal init = rpc_error (id_of init) INVALID_REQUEST ''expected initialize''"

definition forward_response :: "json \<Rightarrow> json \<Rightarrow> json" where
  "forward_response init caps =
     rpc_result (id_of init)
       (jobj [(''protocolVersion'', JStr PROXY_PROTOCOL_VERSION), (''capabilities'', caps),
              (''serverInfo'', proxy_server_info)])"

text \<open>
  \<open>serve\<close> up to the relay: \<open>None\<close> when the client closed first, otherwise the backend's
  own identity, which \<open>serve\<close> returns at the end of the relay.
\<close>

definition forward_open :: "codec \<Rightarrow> (pair, json option option) action" where
  "forward_open k =
     and_then (on_client recv) (\<lambda>received.
       case received of
         None \<Rightarrow> ok None
       | Some raw \<Rightarrow>
           and_then (lift (decode_message k raw)) (\<lambda>init.
             if method_of init \<noteq> Some ''initialize''
             then and_then (on_client (send_message_to (c_enc k (forward_refusal init)))) (\<lambda>_.
                    fail (IoError InvalidData ''first client message was not initialize''))
             else and_then (forward_backend_handshake k) (\<lambda>(caps, info).
                    and_then (on_client (send_message_to (c_enc k (forward_response init caps)))) (\<lambda>_.
                    and_then (on_client recv) (\<lambda>_. ok (Some info))))))"

text \<open>\<open>serve\<close>: a finished session and its result, \<open>None\<close> while the relay goes on.\<close>

definition forward_result :: "io_error + json option option \<Rightarrow> link \<Rightarrow> (io_error + json option) option" where
  "forward_result opened l =
     (case opened of
        Inl e \<Rightarrow> Some (Inl e)
      | Inr None \<Rightarrow> Some (Inr None)
      | Inr (Some info) \<Rightarrow>
          (case joined l of None \<Rightarrow> None | Some (Inl e) \<Rightarrow> Some (Inl e) | Some (Inr _) \<Rightarrow> Some (Inr info)))"

text \<open>
  \<open>TransparentL2Stateful::serve\<close> of \<open>src/src/transparent_l2.rs\<close>: the choice per connection
  between the dual handshake and the level 1 passthrough. \<open>stateful_runs\<close> relates what
  the connection starts from to the links its run goes through.
\<close>

definition stateful_runs :: "codec \<Rightarrow> bool \<Rightarrow> chan \<Rightarrow> chan \<Rightarrow> link \<Rightarrow> bool" where
  "stateful_runs k dual_handshake c b l =
     (if dual_handshake
      then (case forward_open k (c, b) of
              (Inr (Some _), (c', b')) \<Rightarrow> rtranclp (link_step relay_gate []) (link_start c' b') l
            | (_, (c', b')) \<Rightarrow> l = link_start c' b')
      else rtranclp (l1_step k allow_all) (link_start c b) l)"

section \<open>Lemmas: what has crossed a link\<close>

definition lets_through :: "gate \<Rightarrow> str \<Rightarrow> bool" where
  "lets_through gate m \<longleftrightarrow> gate m = Inr True"

definition withholds :: "gate \<Rightarrow> str \<Rightarrow> bool" where
  "withholds gate m \<longleftrightarrow> gate m = Inr False"

text \<open>
  \<open>us\<close> and \<open>ds\<close> are the messages handled so far: the backend has got those of \<open>us\<close> that
  the gate lets through, in order, and the client those of \<open>ds\<close>, in order, with one answer in
  between for each blocked message.
\<close>

definition crossed :: "gate \<Rightarrow> str \<Rightarrow> link \<Rightarrow> str list \<Rightarrow> str list \<Rightarrow> link \<Rightarrow> bool" where
  "crossed gate reply l0 us ds l \<longleftrightarrow>
     payloads (ch_out (lk_backend l)) = payloads (ch_out (lk_backend l0)) @ filter (lets_through gate) us \<and>
     (\<exists>sent. payloads (ch_out (lk_client l)) = payloads (ch_out (lk_client l0)) @ sent \<and>
             sent \<in> shuffles ds (replicate (length (filter (withholds gate) us)) reply))"

text \<open>Nothing has failed: what was read is \<open>us\<close> and \<open>ds\<close>, and all of it at the end.\<close>

definition in_order :: "gate \<Rightarrow> link \<Rightarrow> str list \<Rightarrow> str list \<Rightarrow> link \<Rightarrow> bool" where
  "in_order gate l0 us ds l \<longleftrightarrow>
     ch_in (lk_client l0) = map Inr us @ ch_in (lk_client l) \<and>
     ch_in (lk_backend l0) = map Inr ds @ ch_in (lk_backend l) \<and>
     (lk_up l = None \<or> lk_up l = Some (Inr ()) \<and> ch_in (lk_client l) = []) \<and>
     (lk_down l = None \<or> lk_down l = Some (Inr ()) \<and> ch_in (lk_backend l) = []) \<and>
     lk_blocked l = lk_blocked l0 + of_nat (length (filter (withholds gate) us))"

definition failed :: "link \<Rightarrow> bool" where
  "failed l \<longleftrightarrow> (\<exists>e. joined l = Some (Inl e))"

definition so_far :: "gate \<Rightarrow> str \<Rightarrow> link \<Rightarrow> link \<Rightarrow> bool" where
  "so_far gate reply l0 l \<longleftrightarrow>
     (\<exists>us ds. crossed gate reply l0 us ds l \<and>
        prefix (map Inr us) (ch_in (lk_client l0)) \<and> prefix (map Inr ds) (ch_in (lk_backend l0)) \<and>
        (failed l \<or> in_order gate l0 us ds l))"

lemma shuffles_snoc_left: "zs \<in> shuffles xs ys \<Longrightarrow> zs @ [x] \<in> shuffles (xs @ [x]) ys"
proof (induction zs arbitrary: xs ys)
  case (Cons z zs)
  then show ?case by (auto simp: Cons_in_shuffles_iff)
qed simp

lemma shuffles_snoc_right: "zs \<in> shuffles xs ys \<Longrightarrow> zs @ [y] \<in> shuffles xs (ys @ [y])"
  using shuffles_snoc_left [of zs ys xs y] by (simp add: shuffles_commutes)

lemma lets_or_blocks:
  "gate m = Inr b \<Longrightarrow> lets_through gate m = b \<and> withholds gate m = (\<not> b)"
  by (cases b) (simp_all add: lets_through_def withholds_def)

lemma failed_up: "lk_up l = Some (Inl e) \<Longrightarrow> failed l"
  by (simp add: failed_def joined_def)

lemma failed_down: "lk_down l = Some (Inl e) \<Longrightarrow> failed l"
  by (cases "(lk_up l, lk_down l)" rule: try_join.cases) (auto simp: failed_def joined_def)

text \<open>A turn that fails leaves what has crossed as it was.\<close>

lemma so_far_failed:
  assumes "so_far gate reply l0 l" "failed l'"
    and "ch_out (lk_client l') = ch_out (lk_client l)" "ch_out (lk_backend l') = ch_out (lk_backend l)"
  shows "so_far gate reply l0 l'"
  using assms unfolding so_far_def crossed_def by auto

text \<open>What one turn of the client's direction does: it fails, ends, passes a message or blocks it.\<close>

lemma up_turn_cases:
  obtains (failed) "failed (up_turn gate reply l)"
      "ch_out (lk_client (up_turn gate reply l)) = ch_out (lk_client l)"
      "ch_out (lk_backend (up_turn gate reply l)) = ch_out (lk_backend l)"
  | (ended) b where "up_turn gate reply l = l\<lparr>lk_backend := b, lk_up := Some (Inr ())\<rparr>"
      "ch_in (lk_client l) = []" "ch_out b = ch_out (lk_backend l) @ [Eof]" "ch_in b = ch_in (lk_backend l)"
  | (passed) m c b where "up_turn gate reply l = l\<lparr>lk_client := c, lk_backend := b\<rparr>"
      "ch_in (lk_client l) = Inr m # ch_in c" "ch_out c = ch_out (lk_client l)" "gate m = Inr True"
      "ch_out b = ch_out (lk_backend l) @ [Payload m]" "ch_in b = ch_in (lk_backend l)"
  | (blocked) m c where "up_turn gate reply l = l\<lparr>lk_client := c, lk_blocked := lk_blocked l + 1\<rparr>"
      "ch_in (lk_client l) = Inr m # ch_in c" "ch_out c = ch_out (lk_client l) @ [Payload reply]" "gate m = Inr False"
proof -
  obtain r c where r: "recv (lk_client l) = (r, c)" by force
  consider (err) e where "r = Inl e" | (eof) "r = Inr None" | (message) m where "r = Inr (Some m)"
    by (cases r; cases "projr r") auto
  then show thesis
  proof cases
    case err
    note r = r [unfolded err]
    show thesis
      by (rule failed) (use recv_cases(3) [OF r] in \<open>simp_all add: up_turn_def r failed_up [of _ e]\<close>)
  next
    case eof
    note r = r [unfolded eof]
    note c = recv_cases(2) [OF r]
    obtain r2 b where p: "send_eof_to (lk_backend l) = (r2, b)" by force
    show thesis
    proof (cases r2)
      case (Inl e)
      note p = p [unfolded Inl]
      show thesis
        by (rule failed) (use put_packet_cases(2) [OF p] c in \<open>simp_all add: up_turn_def r p failed_up [of _ e]\<close>)
    next
      case (Inr u)
      have p: "send_eof_to (lk_backend l) = (Inr (), b)" using p Inr by simp
      show thesis
        by (rule ended [of b]) (use put_packet_cases(1) [OF p] c in \<open>simp_all add: up_turn_def r p\<close>)
    qed
  next
    case message
    note r = r [unfolded message]
    note c = recv_cases(1) [OF r]
    show thesis
    proof (cases "gate m")
      case (Inl e)
      show thesis
        by (rule failed) (use c in \<open>simp_all add: up_turn_def r Inl failed_up [of _ e]\<close>)
    next
      case g: (Inr allowed)
      obtain r2 d where p: "(if allowed then send_message_to m (lk_backend l) else send_message_to reply c) = (r2, d)"
        by force
      show thesis
      proof (cases r2; cases allowed)
        fix e
        assume "r2 = Inl e" allowed
        then have p: "send_message_to m (lk_backend l) = (Inl e, d)" using p by simp
        show thesis
          by (rule failed) (use put_packet_cases(2) [OF p] c \<open>allowed\<close> in \<open>simp_all add: up_turn_def r g p failed_up [of _ e]\<close>)
      next
        fix e
        assume "r2 = Inl e" "\<not> allowed"
        then have p: "send_message_to reply c = (Inl e, d)" using p by simp
        show thesis
          by (rule failed) (use put_packet_cases(2) [OF p] c \<open>\<not> allowed\<close> in \<open>simp_all add: up_turn_def r g p failed_up [of _ e]\<close>)
      next
        fix u
        assume "r2 = Inr u" allowed
        then have p: "send_message_to m (lk_backend l) = (Inr (), d)" using p by simp
        show thesis
          by (rule passed [of d c m]) (use put_packet_cases(1) [OF p] c \<open>allowed\<close> g in \<open>simp_all add: up_turn_def r p\<close>)
      next
        fix u
        assume "r2 = Inr u" "\<not> allowed"
        then have p: "send_message_to reply c = (Inr (), d)" using p by simp
        show thesis
          by (rule blocked [of d m]) (use put_packet_cases(1) [OF p] c \<open>\<not> allowed\<close> g in \<open>simp_all add: up_turn_def r p\<close>)
      qed
    qed
  qed
qed

lemma down_turn_cases:
  obtains (failed) "failed (down_turn l)"
      "ch_out (lk_client (down_turn l)) = ch_out (lk_client l)"
      "ch_out (lk_backend (down_turn l)) = ch_out (lk_backend l)"
  | (ended) c where "down_turn l = l\<lparr>lk_client := c, lk_down := Some (Inr ())\<rparr>"
      "ch_in (lk_backend l) = []" "ch_out c = ch_out (lk_client l) @ [Eof]" "ch_in c = ch_in (lk_client l)"
  | (passed) m c b where "down_turn l = l\<lparr>lk_backend := b, lk_client := c\<rparr>"
      "ch_in (lk_backend l) = Inr m # ch_in b" "ch_out b = ch_out (lk_backend l)"
      "ch_out c = ch_out (lk_client l) @ [Payload m]" "ch_in c = ch_in (lk_client l)"
proof -
  obtain r b where r: "recv (lk_backend l) = (r, b)" by force
  consider (err) e where "r = Inl e" | (eof) "r = Inr None" | (message) m where "r = Inr (Some m)"
    by (cases r; cases "projr r") auto
  then show thesis
  proof cases
    case err
    note r = r [unfolded err]
    show thesis
      by (rule failed) (use recv_cases(3) [OF r] in \<open>simp_all add: down_turn_def r failed_down [of _ e]\<close>)
  next
    case eof
    note r = r [unfolded eof]
    note b = recv_cases(2) [OF r]
    obtain r2 c where p: "send_eof_to (lk_client l) = (r2, c)" by force
    show thesis
    proof (cases r2)
      case (Inl e)
      note p = p [unfolded Inl]
      show thesis
        by (rule failed) (use put_packet_cases(2) [OF p] b in \<open>simp_all add: down_turn_def r p failed_down [of _ e]\<close>)
    next
      case (Inr u)
      have p: "send_eof_to (lk_client l) = (Inr (), c)" using p Inr by simp
      show thesis
        by (rule ended [of c]) (use put_packet_cases(1) [OF p] b in \<open>simp_all add: down_turn_def r p\<close>)
    qed
  next
    case message
    note r = r [unfolded message]
    note b = recv_cases(1) [OF r]
    obtain r2 c where p: "send_message_to m (lk_client l) = (r2, c)" by force
    show thesis
    proof (cases r2)
      case (Inl e)
      note p = p [unfolded Inl]
      show thesis
        by (rule failed) (use put_packet_cases(2) [OF p] b in \<open>simp_all add: down_turn_def r p failed_down [of _ e]\<close>)
    next
      case (Inr u)
      have p: "send_message_to m (lk_client l) = (Inr (), c)" using p Inr by simp
      show thesis
        by (rule passed [of c b m]) (use put_packet_cases(1) [OF p] b in \<open>simp_all add: down_turn_def r p\<close>)
    qed
  qed
qed

lemma so_far_running:
  assumes "so_far gate reply l0 l" "joined l = None"
  obtains us ds where "crossed gate reply l0 us ds l" "in_order gate l0 us ds l"
    "prefix (map Inr us) (ch_in (lk_client l0))" "prefix (map Inr ds) (ch_in (lk_backend l0))"
  using assms by (auto simp: so_far_def failed_def)

lemma so_farI:
  "crossed gate reply l0 us ds l \<Longrightarrow> in_order gate l0 us ds l \<Longrightarrow> so_far gate reply l0 l"
  unfolding so_far_def in_order_def prefix_def by blast

lemma so_far_up:
  assumes s: "so_far gate reply l0 l" and run: "joined l = None" "lk_up l = None"
  shows "so_far gate reply l0 (up_turn gate reply l)"
proof -
  obtain us ds where c: "crossed gate reply l0 us ds l" and i: "in_order gate l0 us ds l"
    using so_far_running [OF s run(1)] .
  show ?thesis
  proof (cases rule: up_turn_cases [where gate = gate and reply = reply and l = l, case_names failed ended passed blocked])
    case failed
    then show ?thesis by (rule so_far_failed [OF s])
  next
    case (ended b)
    show ?thesis
      by (rule so_farI [of _ _ _ us ds]) (use c i ended in \<open>auto simp: crossed_def in_order_def\<close>)
  next
    case (passed m c1 b)
    then have "lets_through gate m" "\<not> withholds gate m" by (simp_all add: lets_through_def withholds_def)
    then show ?thesis
      by (intro so_farI [of _ _ _ "us @ [m]" ds]) (use c i passed run in \<open>auto simp: crossed_def in_order_def\<close>)
  next
    case (blocked m c1)
    then have b: "\<not> lets_through gate m" "withholds gate m" by (simp_all add: lets_through_def withholds_def)
    obtain sent where sent: "payloads (ch_out (lk_client l)) = payloads (ch_out (lk_client l0)) @ sent"
        "sent \<in> shuffles ds (replicate (length (filter (withholds gate) us)) reply)"
      using c by (auto simp: crossed_def)
    have "sent @ [reply] \<in> shuffles ds (replicate (length (filter (withholds gate) us)) reply @ [reply])"
      by (rule shuffles_snoc_right [OF sent(2)])
    then have "sent @ [reply] \<in> shuffles ds (replicate (length (filter (withholds gate) (us @ [m]))) reply)"
      using b by (simp add: replicate_append_same)
    then have "crossed gate reply l0 (us @ [m]) ds (up_turn gate reply l)"
      unfolding crossed_def using c blocked b sent(1)
      by (intro conjI exI [of _ "sent @ [reply]"]) (simp_all add: crossed_def)
    moreover have "in_order gate l0 (us @ [m]) ds (up_turn gate reply l)"
      using i blocked b run by (auto simp: in_order_def)
    ultimately show ?thesis by (rule so_farI)
  qed
qed

lemma so_far_down:
  assumes s: "so_far gate reply l0 l" and run: "joined l = None" "lk_down l = None"
  shows "so_far gate reply l0 (down_turn l)"
proof -
  obtain us ds where c: "crossed gate reply l0 us ds l" and i: "in_order gate l0 us ds l"
    using so_far_running [OF s run(1)] .
  show ?thesis
  proof (cases rule: down_turn_cases [where l = l, case_names failed ended passed])
    case failed
    then show ?thesis by (rule so_far_failed [OF s])
  next
    case (ended c1)
    show ?thesis
      by (rule so_farI [of _ _ _ us ds]) (use c i ended in \<open>auto simp: crossed_def in_order_def\<close>)
  next
    case (passed m c1 b)
    obtain sent where sent: "payloads (ch_out (lk_client l)) = payloads (ch_out (lk_client l0)) @ sent"
        "sent \<in> shuffles ds (replicate (length (filter (withholds gate) us)) reply)"
      using c by (auto simp: crossed_def)
    have "crossed gate reply l0 us (ds @ [m]) (down_turn l)"
      unfolding crossed_def using c passed sent(1) shuffles_snoc_left [OF sent(2)]
      by (intro conjI exI [of _ "sent @ [m]"]) (simp_all add: crossed_def)
    moreover have "in_order gate l0 us (ds @ [m]) (down_turn l)"
      using i passed run by (auto simp: in_order_def)
    ultimately show ?thesis by (rule so_farI)
  qed
qed

lemma so_far_run:
  assumes "rtranclp (link_step gate reply) (link_start c b) l"
  shows "so_far gate reply (link_start c b) l"
  using assms
proof (induction rule: rtranclp_induct)
  case base
  show ?case
    by (rule so_farI [of _ _ _ "[]" "[]"]) (auto simp: crossed_def in_order_def link_start_def)
next
  case (step l l')
  from step.hyps(2) step.IH show ?case
    by (cases rule: link_step.cases) (auto intro: so_far_up so_far_down)
qed

lemma link_faithful:
  assumes "rtranclp (link_step gate reply) (link_start c b) l"
  obtains us ds sent where "prefix (map Inr us) (ch_in c)" "prefix (map Inr ds) (ch_in b)"
    "payloads (ch_out (lk_backend l)) = payloads (ch_out b) @ filter (lets_through gate) us"
    "payloads (ch_out (lk_client l)) = payloads (ch_out c) @ sent"
    "sent \<in> shuffles ds (replicate (length (filter (withholds gate) us)) reply)"
    "joined l = Some (Inr ()) \<Longrightarrow> map Inr us = ch_in c \<and> map Inr ds = ch_in b \<and>
       lk_blocked l = of_nat (length (filter (withholds gate) us))"
proof -
  obtain us ds where c: "crossed gate reply (link_start c b) us ds l"
      and p: "prefix (map Inr us) (ch_in c)" "prefix (map Inr ds) (ch_in b)"
      and i: "failed l \<or> in_order gate (link_start c b) us ds l"
    using so_far_run [OF assms] by (auto simp: so_far_def link_start_def)
  have "lk_up l \<noteq> None \<and> lk_down l \<noteq> None" if "joined l = Some (Inr ())"
    using that by (cases "(lk_up l, lk_down l)" rule: try_join.cases) (auto simp: joined_def)
  then have "map Inr us = ch_in c \<and> map Inr ds = ch_in b \<and>
       lk_blocked l = of_nat (length (filter (withholds gate) us))" if "joined l = Some (Inr ())"
    using that i by (auto simp: failed_def in_order_def link_start_def)
  then show thesis using that c p by (auto simp: crossed_def link_start_def)
qed

section \<open>Lemmas: every run ends\<close>

definition turns :: "link \<Rightarrow> nat" where
  "turns l = (if lk_up l = None then length (ch_in (lk_client l)) + 1 else 0) +
             (if lk_down l = None then length (ch_in (lk_backend l)) + 1 else 0)"

lemma up_turn_turns: "lk_up l = None \<Longrightarrow> turns (up_turn gate reply l) < turns l"
  by (auto simp: turns_def up_turn_def recv_def put_packet_def Let_def
      split: list.splits sum.splits option.splits prod.splits)

lemma down_turn_turns: "lk_down l = None \<Longrightarrow> turns (down_turn l) < turns l"
  by (auto simp: turns_def down_turn_def recv_def put_packet_def Let_def
      split: list.splits sum.splits option.splits prod.splits)

lemma link_step_turns: "link_step gate reply l l' \<Longrightarrow> turns l' < turns l"
  by (erule link_stepE) (simp_all add: up_turn_turns down_turn_turns)

lemma link_steps_turns: "(link_step gate reply ^^ n) l l' \<Longrightarrow> n + turns l' \<le> turns l"
proof (induction n arbitrary: l')
  case (Suc n)
  then obtain m where "(link_step gate reply ^^ n) l m" "link_step gate reply m l'" by auto
  then show ?case using Suc.IH link_step_turns by fastforce
qed auto

lemma link_progress: "joined l = None \<longleftrightarrow> (\<exists>l'. link_step gate reply l l')"
proof
  assume run: "joined l = None"
  then have "lk_up l = None \<or> lk_down l = None"
    by (cases "(lk_up l, lk_down l)" rule: try_join.cases) (auto simp: joined_def)
  then show "\<exists>l'. link_step gate reply l l'" using run link_step.intros by metis
qed (auto elim: link_stepE)

text \<open>
  A direction that ended well has read its stream to the end and has passed the end on, after
  which it writes nothing more; the other direction may still write to the same connection.
\<close>

definition ends_passed_on :: "chan \<Rightarrow> chan \<Rightarrow> link \<Rightarrow> bool" where
  "ends_passed_on c b l \<longleftrightarrow>
     prefix (ch_out b) (ch_out (lk_backend l)) \<and> prefix (ch_out c) (ch_out (lk_client l)) \<and>
     (lk_up l = Some (Inr ()) \<longrightarrow>
        ch_in (lk_client l) = [] \<and> (\<exists>sent. ch_out (lk_backend l) = ch_out b @ sent @ [Eof])) \<and>
     (lk_down l = Some (Inr ()) \<longrightarrow>
        ch_in (lk_backend l) = [] \<and> (\<exists>sent late. ch_out (lk_client l) = ch_out c @ sent @ Eof # late))"

lemma ends_passed_on_up:
  assumes "ends_passed_on c b l" "lk_up l = None"
  shows "ends_passed_on c b (up_turn gate reply l)"
  using assms
  by (auto simp: ends_passed_on_def up_turn_def recv_def put_packet_def Let_def prefix_def
      split: list.splits sum.splits option.splits prod.splits) blast+

lemma ends_passed_on_down:
  assumes "ends_passed_on c b l" "lk_down l = None"
  shows "ends_passed_on c b (down_turn l)"
  using assms
  by (auto simp: ends_passed_on_def down_turn_def recv_def put_packet_def Let_def prefix_def
      split: list.splits sum.splits option.splits prod.splits) blast+

lemma ends_passed_on_steps:
  "(link_step gate reply ^^ n) (link_start c b) l \<Longrightarrow> ends_passed_on c b l"
proof (induction n arbitrary: l)
  case 0
  then show ?case by (auto simp: ends_passed_on_def link_start_def)
next
  case (Suc n)
  then obtain m where "(link_step gate reply ^^ n) (link_start c b) m" "link_step gate reply m l" by auto
  then show ?case using Suc.IH by (auto elim!: link_stepE intro: ends_passed_on_up ends_passed_on_down)
qed

lemma failed_iff: "failed l \<longleftrightarrow> (\<exists>e. lk_up l = Some (Inl e) \<or> lk_down l = Some (Inl e))"
  by (cases "(lk_up l, lk_down l)" rule: try_join.cases) (auto simp: failed_def joined_def)

lemma joined_well: "joined l = Some (Inr u) \<longleftrightarrow> lk_up l = Some (Inr ()) \<and> lk_down l = Some (Inr ())"
  by (cases "(lk_up l, lk_down l)" rule: try_join.cases) (auto simp: joined_def)

lemma joined_error: "joined l = Some (Inl e) \<Longrightarrow> lk_up l = Some (Inl e) \<or> lk_down l = Some (Inl e)"
  by (cases "(lk_up l, lk_down l)" rule: try_join.cases) (auto simp: joined_def)

section \<open>Lemmas: the handshake of the forward proxy\<close>

lemma recv_any: "recv c = (Inr x, c') \<Longrightarrow> ch_in c' = drop 1 (ch_in c) \<and> ch_out c' = ch_out c"
  by (auto simp: recv_def split: list.splits sum.splits)

lemma forward_backend_handshake_Inr:
  assumes "forward_backend_handshake k (c, b) = (Inr (caps, info), (c', b'))"
  obtains raw init where "c' = c" "ch_in b = Inr raw # ch_in b'" "decode_message k raw = Inr init"
    "caps = unwrap_or (Option.bind (jget ''result'' init) (jget ''capabilities'')) (jobj [])"
    "info = Option.bind (jget ''result'' init) (jget ''serverInfo'')"
    "ch_out b' = ch_out b @ [Payload (c_enc k forward_initialize), Payload (c_enc k forward_initialized)]"
proof -
  obtain b1 b2 raw init where b1: "send_message_to (c_enc k forward_initialize) b = (Inr (), b1)"
      and b2: "recv b1 = (Inr (Some raw), b2)" and init: "decode_message k raw = Inr init"
      and b3: "send_message_to (c_enc k forward_initialized) b2 = (Inr (), b')" and c: "c' = c"
      and out: "caps = unwrap_or (Option.bind (jget ''result'' init) (jget ''capabilities'')) (jobj [])"
        "info = Option.bind (jget ''result'' init) (jget ''serverInfo'')"
    using assms
    by (auto simp: forward_backend_handshake_def and_then_Inr on_backend_def ok_def fail_def Let_def
        split: option.splits prod.splits sum.splits)
  show thesis
    using that [OF c _ init out] put_packet_cases(1) [OF b1] recv_cases(1) [OF b2] put_packet_cases(1) [OF b3]
    by simp
qed

lemma forward_open_Inr:
  assumes "forward_open k (c, b) = (Inr (Some info), (c', b'))"
  obtains raw init caps where "hd (ch_in c) = Inr raw" "ch_in c \<noteq> []" "decode_message k raw = Inr init"
    "method_of init = Some ''initialize''" "ch_in c' = drop 2 (ch_in c)"
    "ch_out c' = ch_out c @ [Payload (c_enc k (forward_response init caps))]"
    "\<exists>c1. forward_backend_handshake k (c1, b) = (Inr (caps, info), (c1, b'))"
proof -
  obtain a s1 where 1: "on_client recv (c, b) = (Inr a, s1)"
      and rest: "(case a of None \<Rightarrow> ok None
       | Some raw \<Rightarrow>
           and_then (lift (decode_message k raw)) (\<lambda>init.
             if method_of init \<noteq> Some ''initialize''
             then and_then (on_client (send_message_to (c_enc k (forward_refusal init)))) (\<lambda>_.
                    fail (IoError InvalidData ''first client message was not initialize''))
             else and_then (forward_backend_handshake k) (\<lambda>(caps, info).
                    and_then (on_client (send_message_to (c_enc k (forward_response init caps)))) (\<lambda>_.
                    and_then (on_client recv) (\<lambda>_. ok (Some info)))))) s1 = (Inr (Some info), (c', b'))"
    using assms unfolding forward_open_def and_then_Inr by blast
  then obtain raw where raw: "a = Some raw" by (cases a) (auto simp: ok_def)
  then obtain c1 where seen: "recv c = (Inr (Some raw), c1)" "s1 = (c1, b)"
    using 1 by (auto simp: on_client_def split: prod.splits)
  obtain init where init: "decode_message k raw = Inr init"
    using rest raw by (auto split: sum.splits)
  have is_init: "method_of init = Some ''initialize''"
    using rest raw init by (auto simp: and_then_Inr fail_def split: if_splits)
  obtain caps info' s2 s3 u s4 x where h: "forward_backend_handshake k (c1, b) = (Inr (caps, info'), s2)"
      and s: "on_client (send_message_to (c_enc k (forward_response init caps))) s2 = (Inr u, s3)"
      and r: "on_client recv s3 = (Inr x, s4)" and fin: "info' = info" "s4 = (c', b')"
    using rest raw init is_init seen(2) by (auto simp: and_then_Inr ok_def split: prod.splits)
  obtain c2 b2 where s2: "s2 = (c2, b2)" by force
  then have "c2 = c1" using h forward_backend_handshake_Inr by blast
  obtain c3 where c3: "send_message_to (c_enc k (forward_response init caps)) c1 = (Inr (), c3)" "s3 = (c3, b2)"
    using s s2 \<open>c2 = c1\<close> by (auto simp: on_client_def split: prod.splits)
  then have c4: "recv c3 = (Inr x, c')" "b2 = b'"
    using r fin by (auto simp: on_client_def split: prod.splits)
  show thesis
    using that [OF _ _ init is_init, of caps] recv_cases(1) [OF seen(1)] put_packet_cases(1) [OF c3(1)]
      recv_any [OF c4(1)] h s2 c4(2) fin \<open>c2 = c1\<close>
    by (auto simp: drop_Suc)
qed

section \<open>Properties\<close>

text \<open>C9: Level 1 interception is byte-faithful in every interleaving of the two directions and
  with any failure of the streams: the backend has received exactly the messages the policy
  allows, unchanged and in order; the client the backend's messages, unchanged and in order,
  with one refusal in between for each blocked message; and a run that ends well has handled
  every message of both sides and counts the blocked ones.\<close>
theorem interception_faithful:
  assumes "rtranclp (l1_step k allow) (link_start c b) l"
  shows "\<exists>us ds sent. prefix (map Inr us) (ch_in c) \<and> prefix (map Inr ds) (ch_in b) \<and>
    payloads (ch_out (lk_backend l)) = payloads (ch_out b) @ filter (\<lambda>m. l1_gate k allow m = Inr True) us \<and>
    payloads (ch_out (lk_client l)) = payloads (ch_out c) @ sent \<and>
    sent \<in> shuffles ds (replicate (length (filter (\<lambda>m. l1_gate k allow m = Inr False) us)) (blocked_response k)) \<and>
    (case l1_result l of
       Some (Inr n) \<Rightarrow> map Inr us = ch_in c \<and> map Inr ds = ch_in b \<and>
         n = of_nat (length (filter (\<lambda>m. l1_gate k allow m = Inr False) us))
     | _ \<Rightarrow> True)"
proof -
  have g: "lets_through gate = (\<lambda>m. gate m = Inr True)" "withholds gate = (\<lambda>m. gate m = Inr False)" for gate
    by (auto simp: lets_through_def withholds_def)
  obtain us ds sent where r: "prefix (map Inr us) (ch_in c)" "prefix (map Inr ds) (ch_in b)"
      "payloads (ch_out (lk_backend l)) = payloads (ch_out b) @ filter (\<lambda>m. l1_gate k allow m = Inr True) us"
      "payloads (ch_out (lk_client l)) = payloads (ch_out c) @ sent"
      "sent \<in> shuffles ds (replicate (length (filter (\<lambda>m. l1_gate k allow m = Inr False) us)) (blocked_response k))"
      "joined l = Some (Inr ()) \<Longrightarrow> map Inr us = ch_in c \<and> map Inr ds = ch_in b \<and>
         lk_blocked l = of_nat (length (filter (\<lambda>m. l1_gate k allow m = Inr False) us))"
    using link_faithful [OF assms] unfolding g by metis
  then show ?thesis
    by (intro exI [of _ us] exI [of _ ds] exI [of _ sent])
      (auto simp: l1_result_def split: option.splits sum.splits)
qed

definition demo_codec :: codec where
  "demo_codec = \<lparr>c_enc = (\<lambda>v. case v of JStr s \<Rightarrow> s | _ \<Rightarrow> ''?''),
     c_dec = (\<lambda>s. Inr (jobj [(''headers'', jobj [(''Mcp-Method'', JStr s)])]))\<rparr>"

theorem interception_faithful_witness:
  "\<exists>l. rtranclp (l1_step demo_codec (header_allow \<lparr>hp_methods = {''x''}, hp_names = {}\<rparr>))
        (link_start \<lparr>ch_in = [Inr ''x'', Inr ''y''], ch_out = [], ch_faults = []\<rparr>
                    \<lparr>ch_in = [], ch_out = [], ch_faults = []\<rparr>) l \<and>
     payloads (ch_out (lk_backend l)) = []"
proof -
  let ?a = "header_allow \<lparr>hp_methods = {''x''}, hp_names = {}\<rparr>"
  let ?c = "\<lparr>ch_in = [Inr ''x'', Inr ''y''], ch_out = [], ch_faults = []\<rparr> :: chan"
  let ?b = "\<lparr>ch_in = [], ch_out = [], ch_faults = []\<rparr> :: chan"
  let ?l = "up_turn (l1_gate demo_codec ?a) (blocked_response demo_codec) (link_start ?c ?b)"
  have g: "l1_gate demo_codec ?a ''x'' = Inr False"
    by (simp add: l1_gate_def peek_headers_def decode_message_def demo_codec_def header_allow_def get_str_def json_simps)
  have "l1_step demo_codec ?a (link_start ?c ?b) ?l"
    by (rule link_step.up) (simp_all add: link_start_def joined_def)
  then have run: "rtranclp (l1_step demo_codec ?a) (link_start ?c ?b) ?l" by blast
  have "ch_in (lk_client ?l) = [Inr ''y'']"
    by (simp add: up_turn_def recv_def put_packet_def link_start_def g)
  have out: "ch_out (lk_backend ?l) = []"
    by (simp add: up_turn_def recv_def put_packet_def link_start_def g)
  show ?thesis using interception_faithful [OF run] run out by auto
qed

text \<open>C26: Every link comes to its end: a run from a fresh link takes at most as many turns as
  there are messages to read and two more. While neither direction has failed and not both have
  ended another turn is possible. It stops at once when a direction fails, with the error of
  one that did, and otherwise only when both streams were read to their end and the end of
  each was passed on to the other side: the end of one stream alone does not stop it.\<close>
theorem link_terminates:
  assumes "(link_step gate reply ^^ n) (link_start c b) l"
  shows "n \<le> length (ch_in c) + length (ch_in b) + 2 \<and>
    ((\<exists>e. joined l = Some (Inl e)) \<longleftrightarrow> (\<exists>e. lk_up l = Some (Inl e) \<or> lk_down l = Some (Inl e))) \<and>
    (case joined l of
       None \<Rightarrow> (\<exists>l'. link_step gate reply l l')
     | Some (Inl e) \<Rightarrow>
         (\<nexists>l'. link_step gate reply l l') \<and> (lk_up l = Some (Inl e) \<or> lk_down l = Some (Inl e))
     | Some (Inr _) \<Rightarrow>
         (\<nexists>l'. link_step gate reply l l') \<and> ch_in (lk_client l) = [] \<and> ch_in (lk_backend l) = [] \<and>
         (\<exists>sent. ch_out (lk_backend l) = ch_out b @ sent @ [Eof]) \<and>
         (\<exists>sent late. ch_out (lk_client l) = ch_out c @ sent @ Eof # late))"
proof -
  have "n \<le> length (ch_in c) + length (ch_in b) + 2"
    using link_steps_turns [OF assms] by (auto simp: turns_def link_start_def)
  moreover have "(\<exists>e. joined l = Some (Inl e)) \<longleftrightarrow> (\<exists>e. lk_up l = Some (Inl e) \<or> lk_down l = Some (Inl e))"
    using failed_iff [of l] by (simp add: failed_def)
  moreover note link_progress [of l gate reply] joined_error [of l] joined_well [of l]
    ends_passed_on_steps [OF assms, unfolded ends_passed_on_def]
  ultimately show ?thesis by (auto split: option.splits sum.splits)
qed

theorem link_terminates_witness:
  "let l = down_turn (link_start \<lparr>ch_in = [Inr ''x''], ch_out = [], ch_faults = []\<rparr>
                                 \<lparr>ch_in = [], ch_out = [], ch_faults = []\<rparr>)
   in lk_down l = Some (Inr ()) \<and> (\<exists>l'. link_step relay_gate [] l l')"
proof -
  let ?c = "\<lparr>ch_in = [Inr ''x''], ch_out = [], ch_faults = []\<rparr> :: chan"
  let ?b = "\<lparr>ch_in = [], ch_out = [], ch_faults = []\<rparr> :: chan"
  let ?l = "down_turn (link_start ?c ?b)"
  have "link_step relay_gate [] (link_start ?c ?b) ?l"
    by (rule link_step.down) (simp_all add: link_start_def joined_def)
  then have "(link_step relay_gate [] ^^ 1) (link_start ?c ?b) ?l" by (simp only: relpowp_1)
  note r = link_terminates [OF this]
  have "lk_down ?l = Some (Inr ())" "joined ?l = None"
    by (simp_all add: down_turn_def recv_def put_packet_def link_start_def joined_def)
  then show ?thesis using r by simp
qed

text \<open>A session of the forward proxy that reaches its relay: the client's first message is an
  initialize; the backend got the proxy's own two handshake messages and then, unchanged and
  in order, what the client sends after its own handshake; the client got one reply with the
  proxy's identity and the backend's capabilities and then, unchanged and in order, what the
  backend sends after its handshake reply.\<close>
theorem forward_session:
  assumes "forward_open k (c, b) = (Inr (Some info), (c', b'))"
    and "rtranclp (link_step relay_gate []) (link_start c' b') l"
  shows "\<exists>raw init reply hello us ds. hd (ch_in c) = Inr raw \<and> decode_message k raw = Inr init \<and>
    method_of init = Some ''initialize'' \<and> hd (ch_in b) = Inr hello \<and> decode_message k hello = Inr reply \<and>
    payloads (ch_out (lk_backend l)) =
      payloads (ch_out b) @ [c_enc k forward_initialize, c_enc k forward_initialized] @ us \<and>
    payloads (ch_out (lk_client l)) = payloads (ch_out c) @
      [c_enc k (forward_response init
         (unwrap_or (Option.bind (jget ''result'' reply) (jget ''capabilities'')) (jobj [])))] @ ds \<and>
    prefix (map Inr us) (drop 2 (ch_in c)) \<and> prefix (map Inr ds) (drop 1 (ch_in b)) \<and>
    (if joined l = Some (Inr ()) then map Inr us = drop 2 (ch_in c) \<and> map Inr ds = drop 1 (ch_in b) else True)"
proof -
  obtain raw init caps c1 where o: "hd (ch_in c) = Inr raw" "decode_message k raw = Inr init"
      "method_of init = Some ''initialize''" "ch_in c' = drop 2 (ch_in c)"
      "ch_out c' = ch_out c @ [Payload (c_enc k (forward_response init caps))]"
      "forward_backend_handshake k (c1, b) = (Inr (caps, info), (c1, b'))"
    using forward_open_Inr [OF assms(1)] by metis
  obtain hello reply where h: "ch_in b = Inr hello # ch_in b'" "decode_message k hello = Inr reply"
      "caps = unwrap_or (Option.bind (jget ''result'' reply) (jget ''capabilities'')) (jobj [])"
      "ch_out b' = ch_out b @ [Payload (c_enc k forward_initialize), Payload (c_enc k forward_initialized)]"
    using forward_backend_handshake_Inr [OF o(6)] by metis
  have g: "lets_through relay_gate = (\<lambda>m. True)" "withholds relay_gate = (\<lambda>m. False)"
    by (auto simp: lets_through_def withholds_def relay_gate_def)
  obtain us ds sent where r: "prefix (map Inr us) (ch_in c')" "prefix (map Inr ds) (ch_in b')"
      "payloads (ch_out (lk_backend l)) = payloads (ch_out b') @ us"
      "payloads (ch_out (lk_client l)) = payloads (ch_out c') @ sent" "sent \<in> shuffles ds []"
      "joined l = Some (Inr ()) \<Longrightarrow> map Inr us = ch_in c' \<and> map Inr ds = ch_in b'"
    using link_faithful [OF assms(2)] unfolding g by (metis filter_True filter_False list.size(3) replicate_0)
  have "sent = ds" using r(5) by (cases ds) auto
  then show ?thesis
    using o h r by (intro exI [of _ raw] exI [of _ init] exI [of _ reply] exI [of _ hello] exI [of _ us] exI [of _ ds]) auto
qed

definition hello_codec :: codec where
  "hello_codec = \<lparr>c_enc = (\<lambda>v. if method_of v = None then ''R'' else ''H''),
     c_dec = (\<lambda>s. Inr (if s = ''i'' then jobj [(''method'', JStr ''initialize'')] else jobj [(''result'', jobj [])]))\<rparr>"

theorem forward_session_witness:
  "\<exists>c' b'. forward_open hello_codec (\<lparr>ch_in = [Inr ''i'', Inr ''n'', Inr ''m''], ch_out = [], ch_faults = []\<rparr>,
        \<lparr>ch_in = [Inr ''r''], ch_out = [], ch_faults = []\<rparr>) = (Inr (Some None), (c', b')) \<and>
     prefix [''H'', ''H''] (payloads (ch_out b'))"
proof -
  let ?c = "\<lparr>ch_in = [Inr ''i'', Inr ''n'', Inr ''m''], ch_out = [], ch_faults = []\<rparr> :: chan"
  let ?b = "\<lparr>ch_in = [Inr ''r''], ch_out = [], ch_faults = []\<rparr> :: chan"
  have enc: "c_enc hello_codec forward_initialize = ''H''" "c_enc hello_codec forward_initialized = ''H''"
    by (simp_all add: hello_codec_def forward_initialize_def forward_initialized_def method_of_def get_str_def json_simps)
  obtain c' b' where o: "forward_open hello_codec (?c, ?b) = (Inr (Some None), (c', b'))"
    by (simp add: forward_open_def forward_backend_handshake_def on_client_def on_backend_def and_then_def ok_def
        lift_def recv_def put_packet_def decode_message_def hello_codec_def method_of_def get_str_def json_simps Let_def)
  have "rtranclp (link_step relay_gate []) (link_start c' b') (link_start c' b')" by simp
  from forward_session [OF o this] have "\<exists>us. payloads (ch_out b') = [''H'', ''H''] @ us"
    by (auto simp: enc link_start_def)
  then show ?thesis using o by (auto simp: prefix_def)
qed

end
