(* ===== verification/Stateless.thy ===== *)
theory Stateless
  imports Registry Policy Interception
begin

text \<open>
  The servers of self-describing requests: \<open>StatelessForwarder\<close> of \<open>src/src/stateless.rs\<close>
  and \<open>TransparentL2Stateless\<close> of \<open>src/src/transparent_l2.rs\<close>. A request is an envelope
  with a verb, a name, metadata and an opaque body; a backend is an id and its connection.
  Both servers run the same loop, \<open>envelope_loop\<close>, over their own \<open>handle\<close>.
\<close>

section \<open>Envelopes\<close>

record sl_request =
  rq_verb :: str
  rq_name :: "str option"
  rq_meta :: json
  rq_body :: str

record sl_response =
  rp_meta :: json
  rp_body :: str

definition CLIENT_INFO_META_KEY :: str where
  "CLIENT_INFO_META_KEY = ''io.modelcontextprotocol/clientInfo''"

definition proxy_meta :: json where
  "proxy_meta = jobj [(CLIENT_INFO_META_KEY, proxy_server_info)]"

definition error_body :: "codec \<Rightarrow> int \<Rightarrow> str \<Rightarrow> str" where
  "error_body k code message =
     c_enc k (jobj [(''error'', jobj [(''code'', jint code), (''message'', JStr message)])])"

definition error_body_with_data :: "codec \<Rightarrow> int \<Rightarrow> str \<Rightarrow> json \<Rightarrow> str" where
  "error_body_with_data k code message data =
     c_enc k (jobj [(''error'', jobj [(''code'', jint code), (''message'', JStr message), (''data'', data)])])"

definition request_value :: "sl_request \<Rightarrow> json" where
  "request_value r =
     jobj [(''method'', JStr (rq_verb r)), (''name'', jopt_str (rq_name r)),
           (''meta'', rq_meta r), (''body'', JStr (rq_body r))]"

definition encode_request :: "codec \<Rightarrow> sl_request \<Rightarrow> str" where
  "encode_request k r = c_enc k (request_value r)"

definition value_request :: "json \<Rightarrow> sl_request" where
  "value_request v =
     \<lparr>rq_verb = unwrap_or (as_str (jindex v ''method'')) [], rq_name = get_str ''name'' v,
      rq_meta = unwrap_or (jget ''meta'' v) (jobj []), rq_body = unwrap_or (get_str ''body'' v) []\<rparr>"

definition decode_request :: "codec \<Rightarrow> str \<Rightarrow> io_error + sl_request" where
  "decode_request k raw = map_sum id value_request (decode_message k raw)"

definition response_value :: "sl_response \<Rightarrow> json" where
  "response_value r = jobj [(''meta'', rp_meta r), (''body'', JStr (rp_body r))]"

definition encode_response :: "codec \<Rightarrow> sl_response \<Rightarrow> str" where
  "encode_response k r = c_enc k (response_value r)"

definition value_response :: "json \<Rightarrow> sl_response" where
  "value_response v =
     \<lparr>rp_meta = unwrap_or (jget ''meta'' v) (jobj []), rp_body = unwrap_or (get_str ''body'' v) []\<rparr>"

definition decode_response :: "codec \<Rightarrow> str \<Rightarrow> io_error + sl_response" where
  "decode_response k raw = map_sum id value_response (decode_message k raw)"

section \<open>Backends\<close>

record sl_backend =
  sb_id :: str
  sb_chan :: chan

definition sl_backend_new :: "str \<Rightarrow> chan \<Rightarrow> io_error + sl_backend" where
  "sl_backend_new i c =
     (if valid_backend_id i then Inr \<lparr>sb_id = i, sb_chan = c\<rparr>
      else Inl (IoError InvalidInput (''invalid backend id: '' @ i)))"

definition on_chan :: "(chan, 'a) action \<Rightarrow> (sl_backend, 'a) action" where
  "on_chan m b = (let (r, c) = m (sb_chan b) in (r, b\<lparr>sb_chan := c\<rparr>))"

definition exchange :: "codec \<Rightarrow> sl_request \<Rightarrow> (sl_backend, sl_response) action" where
  "exchange k request b =
     and_then (on_chan (send_message_to (encode_request k request))) (\<lambda>_.
     and_then (on_chan recv) (\<lambda>received.
       case received of
         None \<Rightarrow> fail (IoError ConnectionAborted (''backend '' @ sb_id b @ '' closed''))
       | Some raw \<Rightarrow> lift (decode_response k raw))) b"

definition sl_close :: "(sl_backend, unit) action" where
  "sl_close = on_chan send_eof_to"

text \<open>An operation on the backend at a position, and on each backend in turn until one fails.\<close>

definition at_backend :: "nat \<Rightarrow> (sl_backend, 'a) action \<Rightarrow> (sl_backend list, 'a) action" where
  "at_backend i m bs = (let (r, b) = m (bs ! i) in (r, bs[i := b]))"

fun each_backend :: "(sl_backend \<Rightarrow> 'a \<Rightarrow> (sl_backend, 'a) action) \<Rightarrow> 'a \<Rightarrow> (sl_backend list, 'a) action" where
  "each_backend f acc [] = (Inr acc, [])"
| "each_backend f acc (b # bs) =
     (case f b acc b of
        (Inl e, b') \<Rightarrow> (Inl e, b' # bs)
      | (Inr acc', b') \<Rightarrow> (let (r, bs') = each_backend f acc' bs in (r, b' # bs')))"

section \<open>The stateless forwarder\<close>

definition discover_request :: "json \<Rightarrow> sl_request" where
  "discover_request meta = \<lparr>rq_verb = ''server/discover'', rq_name = None, rq_meta = meta, rq_body = []\<rparr>"

text \<open>One turn of the loop of \<open>discover\<close>; \<open>expose\<close> is what it keeps of a listed tool.\<close>

definition discover_backend ::
  "codec \<Rightarrow> json \<Rightarrow> (str \<Rightarrow> json \<Rightarrow> json option) \<Rightarrow> sl_backend \<Rightarrow> json list \<Rightarrow> (sl_backend, json list) action" where
  "discover_backend k meta expose b tools =
     and_then (exchange k (discover_request meta)) (\<lambda>response.
     and_then (lift (decode_message k (rp_body response))) (\<lambda>parsed.
       ok (tools @ List.map_filter (expose (sb_id b)) (unwrap_or (get_array ''tools'' parsed) []))))"

definition tools_body :: "codec \<Rightarrow> json list \<Rightarrow> str" where
  "tools_body k tools = c_enc k (jobj [(''tools'', JArr tools)])"

definition sl_discover :: "codec \<Rightarrow> (sl_backend list, sl_response) action" where
  "sl_discover k =
     and_then (each_backend (discover_backend k proxy_meta (\<lambda>i tool. Some (expose_tool i tool))) []) (\<lambda>tools.
       ok \<lparr>rp_meta = proxy_meta, rp_body = tools_body k tools\<rparr>)"

text \<open>The backend and the name that an exposed name resolves to.\<close>

definition resolve_name :: "sl_backend list \<Rightarrow> str \<Rightarrow> (nat \<times> str) option" where
  "resolve_name bs name =
     (case ns_split name of
        None \<Rightarrow> None
      | Some (bid, original) \<Rightarrow>
          (case List.find (\<lambda>i. sb_id (bs ! i) = bid) [0..<length bs] of
             Some i \<Rightarrow> Some (i, original) | None \<Rightarrow> None))"

definition pinned_meta :: "json \<Rightarrow> str \<Rightarrow> json" where
  "pinned_meta meta negotiated =
     jput PROTOCOL_VERSION_META_KEY (JStr negotiated)
       (jput CLIENT_INFO_META_KEY proxy_server_info (if as_object meta = None then JObj [] else meta))"

definition sl_call :: "codec \<Rightarrow> sl_request \<Rightarrow> str \<Rightarrow> (sl_backend list, sl_response) action" where
  "sl_call k r negotiated bs =
     (let name = unwrap_or (rq_name r) []
      in case resolve_name bs name of
           None \<Rightarrow> ok \<lparr>rp_meta = proxy_meta, rp_body = error_body k INVALID_PARAMS (''unknown tool: '' @ name)\<rparr> bs
         | Some (i, original) \<Rightarrow>
             at_backend i (exchange k \<lparr>rq_verb = ''tools/call'', rq_name = Some original,
                rq_meta = pinned_meta (rq_meta r) negotiated, rq_body = rq_body r\<rparr>) bs)"

definition requested_version :: "sl_request \<Rightarrow> str option" where
  "requested_version r = get_str PROTOCOL_VERSION_META_KEY (rq_meta r)"

definition sl_handle :: "codec \<Rightarrow> sl_request \<Rightarrow> (sl_backend list, sl_response) action" where
  "sl_handle k r =
     (case negotiate (requested_version r) STATELESS_PROTOCOL_VERSION of
        None \<Rightarrow>
          ok \<lparr>rp_meta = proxy_meta,
              rp_body = error_body_with_data k UNSUPPORTED_PROTOCOL_VERSION
                (''unsupported protocol version: '' @ unwrap_or (requested_version r) [])
                (unsupported_error_data (requested_version r))\<rparr>
      | Some negotiated \<Rightarrow>
          if rq_verb r = ''server/discover'' then sl_discover k
          else if rq_verb r = ''tools/call'' then sl_call k r negotiated
          else ok \<lparr>rp_meta = proxy_meta,
                   rp_body = error_body k METHOD_NOT_FOUND (''method not routable: '' @ rq_verb r)\<rparr>)"

section \<open>The loop of both servers\<close>

definition close_all :: "(sl_backend list, unit) action" where
  "close_all = each_backend (\<lambda>_ _. sl_close) ()"

function envelope_loop ::
  "codec \<Rightarrow> (sl_request \<Rightarrow> (sl_backend list, sl_response) action) \<Rightarrow> chan \<Rightarrow> sl_backend list \<Rightarrow>
     (io_error + unit) \<times> chan \<times> sl_backend list" where
  "envelope_loop k handle c bs =
     (case recv c of
        (Inl e, c) \<Rightarrow> (Inl e, c, bs)
      | (Inr None, c) \<Rightarrow> (let (r, bs) = close_all bs in (r, c, bs))
      | (Inr (Some raw), c) \<Rightarrow>
          (case and_then (lift (decode_request k raw)) handle bs of
             (Inl e, bs) \<Rightarrow> (Inl e, c, bs)
           | (Inr response, bs) \<Rightarrow>
               (case send_message_to (encode_response k response) c of
                  (Inl e, c) \<Rightarrow> (Inl e, c, bs)
                | (Inr _, c) \<Rightarrow> envelope_loop k handle c bs)))"
  by pat_completeness auto
termination
  by (relation "measure (\<lambda>(k, handle, c, bs). length (ch_in c))")
    (auto dest!: recv_cases(1) [OF sym] put_packet_cases(1) [OF sym])

declare envelope_loop.simps [simp del]

definition sl_serve :: "codec \<Rightarrow> chan \<Rightarrow> sl_backend list \<Rightarrow> (io_error + unit) \<times> chan \<times> sl_backend list" where
  "sl_serve k = envelope_loop k (sl_handle k)"

section \<open>Transparent mode, level 2, stateless\<close>

text \<open>The field in which the headers and the body disagree.\<close>

definition body_name :: "json \<Rightarrow> str option" where
  "body_name v = Option.bind (Option.bind (jget ''params'' v) (jget ''name'')) as_str"

definition header_body_mismatch :: "codec \<Rightarrow> sl_request \<Rightarrow> str option" where
  "header_body_mismatch k r =
     (if rq_body r = [] then None
      else case c_dec k (rq_body r) of
        Inl e \<Rightarrow> None
      | Inr v \<Rightarrow>
          if \<not> is_object v then None
          else if (case get_str ''method'' v of Some m \<Rightarrow> m \<noteq> rq_verb r | None \<Rightarrow> False) then Some ''method''
          else if rq_verb r = ''tools/call'' \<and>
                  (case body_name v of Some n \<Rightarrow> Some n \<noteq> rq_name r | None \<Rightarrow> False)
          then Some ''name''
          else None)"

definition l2_expose :: "(str \<Rightarrow> bool) option \<Rightarrow> str \<Rightarrow> json \<Rightarrow> json option" where
  "l2_expose tool_filter i tool =
     (let name = unwrap_or (get_str ''name'' tool) []
      in if (case tool_filter of Some keep \<Rightarrow> \<not> keep name | None \<Rightarrow> False) then None
         else Some (jput ''name'' (JStr (ns_prefix i name)) tool))"

definition l2_discover :: "codec \<Rightarrow> (str \<Rightarrow> bool) option \<Rightarrow> sl_request \<Rightarrow> (sl_backend list, sl_response) action" where
  "l2_discover k tool_filter r =
     and_then (each_backend (discover_backend k (rq_meta r) (l2_expose tool_filter)) []) (\<lambda>tools.
       ok \<lparr>rp_meta = rq_meta r, rp_body = tools_body k tools\<rparr>)"

definition l2_forwarded :: "sl_request \<Rightarrow> str \<Rightarrow> sl_request" where
  "l2_forwarded r original =
     \<lparr>rq_verb = ''tools/call'', rq_name = Some original, rq_meta = rq_meta r, rq_body = rq_body r\<rparr>"

definition l2_call :: "codec \<Rightarrow> sl_request \<Rightarrow> (sl_backend list, sl_response) action" where
  "l2_call k r bs =
     (let name = unwrap_or (rq_name r) []
      in case resolve_name bs name of
           None \<Rightarrow> ok \<lparr>rp_meta = rq_meta r, rp_body = error_body k INVALID_PARAMS (''unknown tool: '' @ name)\<rparr> bs
         | Some (i, original) \<Rightarrow> at_backend i (exchange k (l2_forwarded r original)) bs)"

definition l2_handle :: "codec \<Rightarrow> (str \<Rightarrow> bool) option \<Rightarrow> sl_request \<Rightarrow> (sl_backend list, sl_response) action" where
  "l2_handle k tool_filter r =
     (case header_body_mismatch k r of
        Some field \<Rightarrow>
          ok \<lparr>rp_meta = rq_meta r,
              rp_body = error_body k HEADER_MISMATCH (''header/body '' @ field @ '' mismatch'')\<rparr>
      | None \<Rightarrow>
          if rq_verb r = ''server/discover'' then l2_discover k tool_filter r
          else if rq_verb r = ''tools/call'' then l2_call k r
          else ok \<lparr>rp_meta = rq_meta r, rp_body = error_body k METHOD_NOT_FOUND (rq_verb r)\<rparr>)"

text \<open>The hop is appended before the request is handled.\<close>

definition with_hop :: "sl_request \<Rightarrow> sl_request" where
  "with_hop r = r\<lparr>rq_meta := append_hop (rq_meta r) ''transparent''\<rparr>"

definition l2_serve ::
  "codec \<Rightarrow> (str \<Rightarrow> bool) option \<Rightarrow> chan \<Rightarrow> sl_backend list \<Rightarrow> (io_error + unit) \<times> chan \<times> sl_backend list" where
  "l2_serve k tool_filter = envelope_loop k (\<lambda>r. l2_handle k tool_filter (with_hop r))"

section \<open>Lemmas\<close>

text \<open>What of a backend does not depend on the bytes it was sent.\<close>

definition shape :: "sl_backend \<Rightarrow> str \<times> (io_error + str) list \<times> io_error option list \<times> nat" where
  "shape b = (sb_id b, ch_in (sb_chan b), ch_faults (sb_chan b), length (ch_out (sb_chan b)))"

lemma put_packet_shape:
  assumes "ch_in c = ch_in d" "ch_faults c = ch_faults d" "length (ch_out c) = length (ch_out d)"
  shows "fst (put_packet p c) = fst (put_packet q d) \<and>
    ch_in (snd (put_packet p c)) = ch_in (snd (put_packet q d)) \<and>
    ch_faults (snd (put_packet p c)) = ch_faults (snd (put_packet q d)) \<and>
    length (ch_out (snd (put_packet p c))) = length (ch_out (snd (put_packet q d)))"
  using assms by (auto simp: put_packet_def split: list.splits option.splits)

lemma recv_shape:
  assumes "ch_in c = ch_in d" "ch_faults c = ch_faults d" "length (ch_out c) = length (ch_out d)"
  shows "fst (recv c) = fst (recv d) \<and> ch_in (snd (recv c)) = ch_in (snd (recv d)) \<and>
    ch_faults (snd (recv c)) = ch_faults (snd (recv d)) \<and>
    length (ch_out (snd (recv c))) = length (ch_out (snd (recv d)))"
  using assms by (auto simp: recv_def split: list.splits sum.splits)

lemma exchange_shape:
  "fst (exchange k r b) = fst (exchange k q b) \<and> shape (snd (exchange k r b)) = shape (snd (exchange k q b))"
proof -
  obtain x c where x: "send_message_to (encode_request k r) (sb_chan b) = (x, c)" by force
  obtain y d where y: "send_message_to (encode_request k q) (sb_chan b) = (y, d)" by force
  have s: "x = y" "ch_in c = ch_in d" "ch_faults c = ch_faults d" "length (ch_out c) = length (ch_out d)"
    using put_packet_shape [of "sb_chan b" "sb_chan b" "Payload (encode_request k r)" "Payload (encode_request k q)"] x y
    by simp_all
  obtain x1 c1 where x1: "recv c = (x1, c1)" by force
  obtain y1 d1 where y1: "recv d = (y1, d1)" by force
  have "x1 = y1" "ch_in c1 = ch_in d1" "ch_faults c1 = ch_faults d1" "length (ch_out c1) = length (ch_out d1)"
    using recv_shape [OF s(2-4)] x1 y1 by simp_all
  then show ?thesis
    using s
    by (auto simp: exchange_def and_then_def on_chan_def x y x1 y1 shape_def fail_def lift_def
        split: sum.splits option.splits)
qed

lemma recv_out: "recv c = (y, d) \<Longrightarrow> ch_out d = ch_out c"
  by (auto simp: recv_def split: list.splits sum.splits)

lemma exchange_cases:
  assumes "exchange k r b = (out, b')"
  shows "sb_id b' = sb_id b \<and>
    (ch_out (sb_chan b') = ch_out (sb_chan b) @ [Payload (encode_request k r)] \<or>
     (\<exists>e. out = Inl e) \<and> ch_out (sb_chan b') = ch_out (sb_chan b))"
proof -
  obtain x c where x: "send_message_to (encode_request k r) (sb_chan b) = (x, c)" by force
  show ?thesis
  proof (cases x)
    case (Inl e)
    note x = x [unfolded Inl]
    then show ?thesis
      using assms put_packet_cases(2) [OF x] by (auto simp: exchange_def and_then_def on_chan_def x)
  next
    case (Inr u)
    have x: "send_message_to (encode_request k r) (sb_chan b) = (Inr (), c)" using x Inr by simp
    obtain y d where y: "recv c = (y, d)" by force
    have out: "ch_out d = ch_out (sb_chan b) @ [Payload (encode_request k r)]"
      using recv_out [OF y] put_packet_cases(1) [OF x] by simp
    have "b' = b\<lparr>sb_chan := d\<rparr>"
      using assms
      by (cases y; cases "projr y") (simp_all add: exchange_def and_then_def on_chan_def x y fail_def lift_def)
    then show ?thesis using out by simp
  qed
qed

lemma resolve_name_Some:
  assumes "resolve_name bs name = Some (i, original)"
  shows "i < length bs \<and> name = ns_prefix (sb_id (bs ! i)) original \<and> original \<noteq> []"
  using assms
  by (auto simp: resolve_name_def find_Some_iff dest!: ns_split_Some split: option.splits)

text \<open>What the two servers send in answer to a call: nothing, or one request to one backend.\<close>

definition contacted :: "codec \<Rightarrow> sl_backend list \<Rightarrow> sl_backend list \<Rightarrow> nat \<Rightarrow> sl_request \<Rightarrow> bool" where
  "contacted k bs bs' i r \<longleftrightarrow>
     length bs' = length bs \<and> (\<forall>j < length bs. j \<noteq> i \<longrightarrow> bs' ! j = bs ! j) \<and>
     sb_id (bs' ! i) = sb_id (bs ! i) \<and>
     ch_out (sb_chan (bs' ! i)) \<in>
       {ch_out (sb_chan (bs ! i)), ch_out (sb_chan (bs ! i)) @ [Payload (encode_request k r)]}"

lemma at_backend_contacted:
  "i < length bs \<Longrightarrow> at_backend i (exchange k r) bs = (out, bs') \<Longrightarrow> contacted k bs bs' i r"
  using exchange_cases [of k r "bs ! i"]
  by (auto simp: at_backend_def contacted_def split: prod.splits)

text \<open>A call that is forwarded for certain: the backend is written to once unless the write itself
  fails, and the answer is what that backend sends next, decoded.\<close>

definition write_fault :: "sl_backend \<Rightarrow> io_error option" where
  "write_fault b = (case ch_faults (sb_chan b) of fault # _ \<Rightarrow> fault | [] \<Rightarrow> None)"

definition next_answer :: "codec \<Rightarrow> sl_backend \<Rightarrow> io_error + sl_response" where
  "next_answer k b =
     (case ch_in (sb_chan b) of
        [] \<Rightarrow> Inl (IoError ConnectionAborted (''backend '' @ sb_id b @ '' closed''))
      | Inl e # _ \<Rightarrow> Inl e
      | Inr raw # _ \<Rightarrow> decode_response k raw)"

definition forwarded ::
  "codec \<Rightarrow> sl_backend list \<Rightarrow> nat \<Rightarrow> sl_request \<Rightarrow> io_error + sl_response \<Rightarrow> sl_backend list \<Rightarrow> bool" where
  "forwarded k bs i r out bs' \<longleftrightarrow>
     length bs' = length bs \<and> (\<forall>j < length bs. j \<noteq> i \<longrightarrow> bs' ! j = bs ! j) \<and> sb_id (bs' ! i) = sb_id (bs ! i) \<and>
     (case write_fault (bs ! i) of
        Some e \<Rightarrow> out = Inl e \<and> ch_out (sb_chan (bs' ! i)) = ch_out (sb_chan (bs ! i)) \<and>
          ch_in (sb_chan (bs' ! i)) = ch_in (sb_chan (bs ! i))
      | None \<Rightarrow> out = next_answer k (bs ! i) \<and>
          ch_out (sb_chan (bs' ! i)) = ch_out (sb_chan (bs ! i)) @ [Payload (encode_request k r)] \<and>
          ch_in (sb_chan (bs' ! i)) = tl (ch_in (sb_chan (bs ! i))))"

lemma exchange_forwarded:
  assumes "exchange k r b = (out, b')"
  shows "sb_id b' = sb_id b \<and>
    (case write_fault b of
       Some e \<Rightarrow> out = Inl e \<and> ch_out (sb_chan b') = ch_out (sb_chan b) \<and> ch_in (sb_chan b') = ch_in (sb_chan b)
     | None \<Rightarrow> out = next_answer k b \<and> ch_out (sb_chan b') = ch_out (sb_chan b) @ [Payload (encode_request k r)] \<and>
         ch_in (sb_chan b') = tl (ch_in (sb_chan b)))"
proof (cases "write_fault b")
  case (Some e)
  then show ?thesis
    using assms
    by (auto simp: exchange_def and_then_def on_chan_def put_packet_def write_fault_def split: list.splits)
next
  case None
  define c where "c = (sb_chan b)\<lparr>ch_faults := tl (ch_faults (sb_chan b)),
    ch_out := ch_out (sb_chan b) @ [Payload (encode_request k r)]\<rparr>"
  have put: "send_message_to (encode_request k r) (sb_chan b) = (Inr (), c)"
    using None by (auto simp: put_packet_def write_fault_def c_def split: list.splits)
  have "ch_in c = ch_in (sb_chan b)" by (simp add: c_def)
  then have "out = next_answer k b \<and> sb_id b' = sb_id b \<and> ch_out (sb_chan b') = ch_out c \<and> ch_in (sb_chan b') = tl (ch_in c)"
    using assms
    by (auto simp: exchange_def and_then_def on_chan_def put recv_def next_answer_def fail_def lift_def
        split: list.splits sum.splits)
  then show ?thesis using None by (simp add: c_def)
qed

lemma at_backend_forwarded:
  assumes "i < length bs" "at_backend i (exchange k r) bs = (out, bs')"
  shows "forwarded k bs i r out bs'"
proof -
  obtain b where "exchange k r (bs ! i) = (out, b)" "bs' = bs[i := b]"
    using assms(2) by (auto simp: at_backend_def split: prod.splits)
  then show ?thesis using exchange_forwarded assms(1) unfolding forwarded_def by fastforce
qed

lemma pinned_meta_get:
  "jget f (pinned_meta meta v) =
     (if f = PROTOCOL_VERSION_META_KEY then Some (JStr v)
      else if f = CLIENT_INFO_META_KEY then Some proxy_server_info else jget f meta)"
  by (cases meta) (auto simp: pinned_meta_def store_simps)

lemma rq_same: "rq_body r = body \<Longrightarrow> r\<lparr>rq_body := body\<rparr> = r"
  by simp

section \<open>Properties\<close>

text \<open>C27: The body of a request is opaque to the stateless forwarder: replacing it by any other
  bytes changes neither the answer nor which backends are contacted nor anything of the
  connections but the bytes of the forwarded body.\<close>
theorem stateless_body_opaque:
  "let (out, bs1) = sl_handle k r bs; (out', bs2) = sl_handle k (r\<lparr>rq_body := body\<rparr>) bs
   in out' = out \<and> map shape bs2 = map shape bs1"
proof -
  have v: "requested_version (r\<lparr>rq_body := body\<rparr>) = requested_version r" by (simp add: requested_version_def)
  show ?thesis
  proof (cases "negotiate (requested_version r) STATELESS_PROTOCOL_VERSION")
    case None
    then show ?thesis by (simp add: sl_handle_def v ok_def)
  next
    case (Some negotiated)
    let ?call = "\<lambda>r. sl_call k r negotiated bs"
    have "fst (?call (r\<lparr>rq_body := body\<rparr>)) = fst (?call r) \<and>
        map shape (snd (?call (r\<lparr>rq_body := body\<rparr>))) = map shape (snd (?call r))"
    proof (cases "resolve_name bs (unwrap_or (rq_name r) [])")
      case None
      then show ?thesis by (simp add: sl_call_def ok_def Let_def)
    next
      case (Some t)
      obtain i original where t: "t = (i, original)" by force
      let ?f = "\<lambda>body. \<lparr>rq_verb = ''tools/call'', rq_name = Some original,
        rq_meta = pinned_meta (rq_meta r) negotiated, rq_body = body\<rparr>"
      have "fst (exchange k (?f body) (bs ! i)) = fst (exchange k (?f (rq_body r)) (bs ! i))"
        "shape (snd (exchange k (?f body) (bs ! i))) = shape (snd (exchange k (?f (rq_body r)) (bs ! i)))"
        using exchange_shape by blast+
      then show ?thesis
        using Some by (simp add: sl_call_def t at_backend_def split_beta map_update)
    qed
    then show ?thesis using Some by (simp add: sl_handle_def v split_beta)
  qed
qed

text \<open>C18: A tool call at the stateless forwarder stays with its backend: no backend is touched when
  the version or the name is refused; otherwise the name is the backend's id, the delimiter and
  the tool's own name, every other backend is as before, and that one is sent exactly one request,
  under its own name, with the body as it came and the client's metadata in which the proxy's
  identity and the negotiated version are pinned. The answer is that backend's next message,
  decoded, and no more of what it sends is read; only a write that fails sends nothing, and then
  its error is the result.\<close>
theorem stateless_call_confined:
  assumes "rq_verb r = ''tools/call''" "sl_handle k r bs = (out, bs')"
  shows "case (negotiate (requested_version r) STATELESS_PROTOCOL_VERSION, resolve_name bs (unwrap_or (rq_name r) [])) of
      (Some v, Some (i, original)) \<Rightarrow>
        i < length bs \<and> unwrap_or (rq_name r) [] = ns_prefix (sb_id (bs ! i)) original \<and>
        (\<exists>f. forwarded k bs i f out bs' \<and> rq_verb f = ''tools/call'' \<and> rq_name f = Some original \<and> rq_body f = rq_body r \<and>
             jget PROTOCOL_VERSION_META_KEY (rq_meta f) = Some (JStr v) \<and>
             jget CLIENT_INFO_META_KEY (rq_meta f) = Some proxy_server_info \<and>
             list_all (\<lambda>(key, val). if key = PROTOCOL_VERSION_META_KEY \<or> key = CLIENT_INFO_META_KEY then True
                                    else jget key (rq_meta f) = jget key (rq_meta r)) (obj_or_empty (rq_meta r)))
    | _ \<Rightarrow> bs' = bs \<and> (\<exists>rp. out = Inr rp \<and> rp_meta rp = proxy_meta)"
proof (cases "negotiate (requested_version r) STATELESS_PROTOCOL_VERSION")
  case None
  then show ?thesis using assms by (auto simp: sl_handle_def ok_def)
next
  case (Some v)
  then have call: "sl_call k r v bs = (out, bs')" using assms by (simp add: sl_handle_def)
  show ?thesis
  proof (cases "resolve_name bs (unwrap_or (rq_name r) [])")
    case None
    then show ?thesis using call Some by (auto simp: sl_call_def ok_def)
  next
    case (Some t)
    obtain i original where t: "t = (i, original)" by force
    note n = resolve_name_Some [OF Some [unfolded t]]
    let ?f = "\<lparr>rq_verb = ''tools/call'', rq_name = Some original, rq_meta = pinned_meta (rq_meta r) v,
      rq_body = rq_body r\<rparr>"
    have "forwarded k bs i ?f out bs'" using call Some t n at_backend_forwarded by (simp add: sl_call_def)
    moreover have "CLIENT_INFO_META_KEY \<noteq> PROTOCOL_VERSION_META_KEY"
      by (simp add: CLIENT_INFO_META_KEY_def PROTOCOL_VERSION_META_KEY_def)
    ultimately show ?thesis
      using Some t n \<open>negotiate _ _ = Some v\<close>
      by (auto simp: pinned_meta_get list_all_iff intro!: exI [of _ ?f])
  qed
qed

definition stateless_codec :: codec where
  "stateless_codec = \<lparr>c_enc = (\<lambda>v. ''?''), c_dec = (\<lambda>s. Inr (jobj [(''method'', JStr ''tools/call''),
     (''params'', jobj [(''name'', JStr ''git__log'')])]))\<rparr>"

definition call_request :: "str \<Rightarrow> sl_request" where
  "call_request name = \<lparr>rq_verb = ''tools/call'', rq_name = Some name, rq_meta = jobj [], rq_body = ''b''\<rparr>"

text \<open>Two backends that have closed their end.\<close>

definition two_peers :: "sl_backend list" where
  "two_peers = map (\<lambda>i. \<lparr>sb_id = i, sb_chan = \<lparr>ch_in = [], ch_out = [], ch_faults = []\<rparr>\<rparr>) [''files'', ''git'']"

lemma git_log_resolves: "resolve_name two_peers ''git__log'' = Some (1, ''log'')"
proof -
  have "ns_split ''git__log'' = Some (''git'', ''log'')" by code_simp
  then show ?thesis by (simp add: resolve_name_def two_peers_def)
qed

theorem stateless_call_confined_witness:
  "\<exists>out bs'. sl_handle stateless_codec (call_request ''git__log'') two_peers = (out, bs') \<and> bs' ! 0 = two_peers ! 0 \<and>
     length (ch_out (sb_chan (bs' ! 1))) = 1 \<and> out = Inl (IoError ConnectionAborted ''backend git closed'')"
proof -
  let ?r = "call_request ''git__log''"
  obtain out bs' where o: "sl_handle stateless_codec ?r two_peers = (out, bs')" by force
  have m: "rq_verb ?r = ''tools/call''" "unwrap_or (rq_name ?r) [] = ''git__log''" by (simp_all add: call_request_def)
  have "requested_version ?r = None"
    by (simp add: requested_version_def call_request_def get_str_def json_simps)
  then have "negotiate (requested_version ?r) STATELESS_PROTOCOL_VERSION = Some STATELESS_PROTOCOL_VERSION"
    by (simp add: negotiate_def)
  then have "bs' ! 0 = two_peers ! 0 \<and> length (ch_out (sb_chan (bs' ! 1))) = 1 \<and>
      out = Inl (IoError ConnectionAborted ''backend git closed'')"
    using stateless_call_confined [OF m(1) o] git_log_resolves
    by (auto simp: m(2) forwarded_def two_peers_def write_fault_def next_answer_def)
  then show ?thesis using o by blast
qed

text \<open>C22: Level 2 forwards a call only when its headers and a readable body agree: a body that is
  an object and names another method or another tool is answered with the mismatch error and
  reaches no backend. Otherwise the call stays with the backend its name resolves to, which
  gets at most one request, with one hop appended to the hops it came with.\<close>
theorem l2_checks_body:
  assumes "l2_handle k keep (with_hop r) bs = (out, bs')"
    and "rq_verb r = ''tools/call''" "rq_body r \<noteq> []" "c_dec k (rq_body r) = Inr v" "is_object v"
  shows "if get_str ''method'' v \<notin> {None, Some ''tools/call''} \<or> body_name v \<notin> {None, rq_name r}
    then bs' = bs \<and> (\<exists>field. out = Inr \<lparr>rp_meta = rq_meta (with_hop r),
           rp_body = error_body k HEADER_MISMATCH (''header/body '' @ field @ '' mismatch'')\<rparr>)
    else case resolve_name bs (unwrap_or (rq_name r) []) of
        None \<Rightarrow> bs' = bs
      | Some (i, original) \<Rightarrow>
          unwrap_or (rq_name r) [] = ns_prefix (sb_id (bs ! i)) original \<and>
          (\<exists>f. contacted k bs bs' i f \<and> rq_name f = Some original \<and> rq_body f = rq_body r \<and>
               get_array PROXY_HOPS_KEY (rq_meta f) =
                 Some (unwrap_or (get_array PROXY_HOPS_KEY (rq_meta r)) [] @ [proxy_hop ''transparent'']))"
proof -
  let ?r = "with_hop r"
  have same: "rq_verb ?r = rq_verb r" "rq_body ?r = rq_body r" "rq_name ?r = rq_name r"
    by (simp_all add: with_hop_def)
  have hops: "get_array PROXY_HOPS_KEY (rq_meta ?r) =
      Some (unwrap_or (get_array PROXY_HOPS_KEY (rq_meta r)) [] @ [proxy_hop ''transparent''])"
    by (simp add: with_hop_def append_hop_def get_array_def store_simps Let_def)
  have mis: "header_body_mismatch k ?r =
      (if get_str ''method'' v \<notin> {None, Some ''tools/call''} then Some ''method''
       else if body_name v \<notin> {None, rq_name r} then Some ''name'' else None)"
    using assms(2-5) by (auto simp: header_body_mismatch_def same split: option.splits)
  show ?thesis
  proof (cases "get_str ''method'' v \<notin> {None, Some ''tools/call''} \<or> body_name v \<notin> {None, rq_name r}")
    case True
    then have "header_body_mismatch k ?r \<noteq> None" unfolding mis by (auto split: if_splits)
    then obtain field where "header_body_mismatch k ?r = Some field" by blast
    then show ?thesis using True assms(1) by (auto simp: l2_handle_def ok_def)
  next
    case False
    then have call: "l2_call k ?r bs = (out, bs')" using assms(1,2) mis by (auto simp: l2_handle_def same)
    show ?thesis
    proof (cases "resolve_name bs (unwrap_or (rq_name r) [])")
      case None
      then show ?thesis using False call by (auto simp: l2_call_def ok_def same)
    next
      case (Some t)
      obtain i original where t: "t = (i, original)" by force
      note n = resolve_name_Some [OF Some [unfolded t]]
      have "contacted k bs bs' i (l2_forwarded ?r original)"
        using call Some t n at_backend_contacted by (simp add: l2_call_def same)
      moreover have "rq_name (l2_forwarded ?r original) = Some original"
        "rq_body (l2_forwarded ?r original) = rq_body r" "rq_meta (l2_forwarded ?r original) = rq_meta ?r"
        by (simp_all add: l2_forwarded_def same)
      ultimately show ?thesis
        using False Some t n hops by (auto intro!: exI [of _ "l2_forwarded ?r original"])
    qed
  qed
qed

theorem l2_checks_body_witness:
  "snd (l2_handle stateless_codec None (with_hop (call_request ''files__read'')) two_peers) = two_peers"
proof -
  let ?v = "jobj [(''method'', JStr ''tools/call''), (''params'', jobj [(''name'', JStr ''git__log'')])]"
  obtain out bs' where o: "l2_handle stateless_codec None (with_hop (call_request ''files__read'')) two_peers = (out, bs')"
    by force
  have r: "rq_verb (call_request ''files__read'') = ''tools/call''" "rq_body (call_request ''files__read'') \<noteq> []"
    "c_dec stateless_codec (rq_body (call_request ''files__read'')) = Inr ?v" "is_object ?v"
    "rq_name (call_request ''files__read'') = Some ''files__read''" "body_name ?v = Some ''git__log''"
    by (simp_all add: call_request_def stateless_codec_def body_name_def json_simps)
  have "bs' = two_peers" using l2_checks_body [OF o r(1-4)] r(5,6) by simp
  then show ?thesis by (simp add: o)
qed

text \<open>The request that level 2 forwards fails the check that level 2 makes: its name header is
  the backend's own name while its body still has the exposed one, so a next hop that verifies
  them refuses every call whose body names the tool.\<close>
theorem l2_forward_disagrees:
  assumes "resolve_name bs (unwrap_or (rq_name r) []) = Some (i, original)" "rq_name r \<noteq> None"
    and "rq_body r \<noteq> []" "c_dec k (rq_body r) = Inr v" "is_object v"
    and "get_str ''method'' v \<in> {None, Some ''tools/call''}" "body_name v = rq_name r"
  shows "header_body_mismatch k (l2_forwarded r original) = Some ''name''"
proof -
  have "unwrap_or (rq_name r) [] = ns_prefix (sb_id (bs ! i)) original"
    using resolve_name_Some [OF assms(1)] by simp
  then have "rq_name r \<noteq> Some original" by (auto simp: ns_prefix_def DELIMITER_def)
  then show ?thesis
    using assms(2-7) by (auto simp: header_body_mismatch_def l2_forwarded_def split: option.splits)
qed

theorem l2_forward_disagrees_witness:
  "header_body_mismatch stateless_codec (l2_forwarded (call_request ''git__log'') ''log'') = Some ''name''"
proof -
  let ?v = "jobj [(''method'', JStr ''tools/call''), (''params'', jobj [(''name'', JStr ''git__log'')])]"
  show ?thesis
    by (rule l2_forward_disagrees [of two_peers _ 1 _ _ ?v])
      (simp_all add: call_request_def stateless_codec_def body_name_def get_str_def json_simps git_log_resolves)
qed

end
