(* ===== verification/Callout.thy ===== *)
theory Callout
  imports Filters Signing Peers "HOL-Library.Sublist"
begin

text \<open>
  \<open>src/src/callout.rs\<close>: the out-of-process scanner and its client, and \<open>src/src/icap.rs\<close>: the
  ICAP translation and the content scanner built on that client. A client is its connection
  with its settings; \<open>cc_late\<close> says of each receive to come whether the answer misses the
  deadline, in which case the code stops waiting and the answer is still to be read.
\<close>

section \<open>The callout protocol\<close>

definition CALLOUT_VERSION :: str where "CALLOUT_VERSION = ''1''"
definition PHASE_PREVIEW :: str where "PHASE_PREVIEW = ''preview''"
definition PHASE_BODY :: str where "PHASE_BODY = ''body''"

definition content_digest :: "byte list \<Rightarrow> str" where
  "content_digest content = sha256_hex content"

definition callout_request :: "json \<Rightarrow> str \<Rightarrow> byte list \<Rightarrow> bool \<Rightarrow> json" where
  "callout_request context phase content ieof =
     jobj [(''callout'', JStr CALLOUT_VERSION), (''phase'', JStr phase), (''context'', context),
           (''ieof'', JBool ieof), (''content'', JStr (base64_encode content))]"

definition exceeds_budget :: "nat \<Rightarrow> nat \<Rightarrow> bool" where
  "exceeds_budget size_bytes max_bytes \<longleftrightarrow> 0 < max_bytes \<and> max_bytes < size_bytes"

definition valid_verdict :: "str \<Rightarrow> bool" where
  "valid_verdict kind \<longleftrightarrow> kind \<in> set VERDICTS \<or> kind = CONTINUE"

definition failure_verdict :: "str \<Rightarrow> str \<Rightarrow> json" where
  "failure_verdict policy reason =
     jobj [(''kind'', JStr (resolve_failure policy)), (''reason'', JStr reason)]"

definition answered_kind :: "json \<Rightarrow> str option" where
  "answered_kind response =
     (case get_str ''verdict'' response of
        Some kind \<Rightarrow> if valid_verdict kind then Some kind else None
      | None \<Rightarrow> None)"

definition put_if :: "bool \<Rightarrow> str \<Rightarrow> json \<Rightarrow> (str, json) smap \<Rightarrow> (str, json) smap" where
  "put_if c k v m = (if c then smap_put k v m else m)"

definition parse_verdict :: "json \<Rightarrow> str \<Rightarrow> json" where
  "parse_verdict response policy =
     (case answered_kind response of
        None \<Rightarrow> failure_verdict policy ''malformed callout response''
      | Some kind \<Rightarrow>
          if kind = CONTINUE then jobj [(''kind'', JStr CONTINUE)]
          else
            (let v = smap_put ''kind'' (JStr kind) [];
                 v = put_if (kind = DENY \<or> kind = QUARANTINE) ''reason''
                       (JStr (unwrap_or (get_str ''reason'' response) [])) v;
                 v = put_if (kind = MUTATE) ''bytes''
                       (case Option.bind (get_str ''content'' response) base64_decode of
                          Some bs \<Rightarrow> JStr (to_hex bs) | None \<Rightarrow> JNull) v;
                 v = (case jget ''provenance'' response of
                        Some p \<Rightarrow> put_if (kind = MUTATE) ''provenance'' p v | None \<Rightarrow> v);
                 v = put_if (kind = ANNOTATE) ''provenance'' (unwrap_or (jget ''provenance'' response) (jobj [])) v
             in JObj v))"

section \<open>The verdict cache\<close>

type_synonym verdict_cache = "(str, json) smap"

definition vcache_get :: "str \<Rightarrow> verdict_cache \<Rightarrow> json option" where
  "vcache_get digest cache = smap_get digest cache"

definition vcache_put :: "str \<Rightarrow> json \<Rightarrow> verdict_cache \<Rightarrow> verdict_cache" where
  "vcache_put digest verdict cache = smap_put digest verdict cache"

section \<open>The client\<close>

record callout_client =
  cc_chan :: chan
  cc_late :: "bool list"
  cc_policy :: str
  cc_max_bytes :: nat
  cc_preview_bytes :: nat
  cc_deadline :: "nat option"

definition callout_new :: "chan \<Rightarrow> bool list \<Rightarrow> callout_client" where
  "callout_new c late =
     \<lparr>cc_chan = c, cc_late = late, cc_policy = FAIL_CLOSED, cc_max_bytes = 0, cc_preview_bytes = 0, cc_deadline = None\<rparr>"

definition with_failure_policy :: "str \<Rightarrow> callout_client \<Rightarrow> callout_client" where
  "with_failure_policy policy cl = cl\<lparr>cc_policy := policy\<rparr>"

definition with_budget :: "nat \<Rightarrow> callout_client \<Rightarrow> callout_client" where
  "with_budget n cl = cl\<lparr>cc_max_bytes := n\<rparr>"

definition with_preview :: "nat \<Rightarrow> callout_client \<Rightarrow> callout_client" where
  "with_preview n cl = cl\<lparr>cc_preview_bytes := n\<rparr>"

definition with_deadline :: "nat \<Rightarrow> callout_client \<Rightarrow> callout_client" where
  "with_deadline d cl = cl\<lparr>cc_deadline := Some d\<rparr>"

definition callout_failed :: "callout_client \<Rightarrow> str \<Rightarrow> json" where
  "callout_failed cl reason = failure_verdict (cc_policy cl) reason"

text \<open>\<open>timeout(deadline, receive())\<close>: no result when the answer is late.\<close>

definition timed_recv :: "callout_client \<Rightarrow> (io_error + str option) option \<times> callout_client" where
  "timed_recv cl =
     (let late = (case cc_late cl of [] \<Rightarrow> False | b # _ \<Rightarrow> b);
          cl = cl\<lparr>cc_late := tl (cc_late cl)\<rparr>
      in if cc_deadline cl \<noteq> None \<and> late then (None, cl)
         else (let (r, c) = recv (cc_chan cl) in (Some r, cl\<lparr>cc_chan := c\<rparr>)))"

definition callout_call ::
  "codec \<Rightarrow> json \<Rightarrow> str \<Rightarrow> byte list \<Rightarrow> bool \<Rightarrow> callout_client \<Rightarrow> json \<times> callout_client" where
  "callout_call k context phase content ieof cl =
     (case send_message_to (c_enc k (callout_request context phase content ieof)) (cc_chan cl) of
        (Inl e, c) \<Rightarrow> (callout_failed cl ''callout transport error'', cl\<lparr>cc_chan := c\<rparr>)
      | (Inr _, c) \<Rightarrow>
          (case timed_recv (cl\<lparr>cc_chan := c\<rparr>) of
             (None, cl) \<Rightarrow> (callout_failed cl ''callout deadline exceeded'', cl)
           | (Some (Inr (Some raw)), cl) \<Rightarrow>
               (case decode_message k raw of
                  Inr response \<Rightarrow> (parse_verdict response (cc_policy cl), cl)
                | Inl e \<Rightarrow> (callout_failed cl ''callout decode error'', cl))
           | (Some (Inr None), cl) \<Rightarrow> (callout_failed cl ''callout closed'', cl)
           | (Some (Inl e), cl) \<Rightarrow> (callout_failed cl ''callout transport error'', cl)))"

definition preview_length :: "callout_client \<Rightarrow> byte list \<Rightarrow> nat" where
  "preview_length cl content =
     (if 0 < cc_preview_bytes cl then min (cc_preview_bytes cl) (length content) else length content)"

definition callout_exchange :: "codec \<Rightarrow> json \<Rightarrow> byte list \<Rightarrow> callout_client \<Rightarrow> json \<times> callout_client" where
  "callout_exchange k context content cl =
     (let n = preview_length cl content
      in callout_call k context PHASE_PREVIEW (take n content) (length content \<le> n) cl)"

definition continues :: "json \<Rightarrow> bool" where
  "continues verdict \<longleftrightarrow> get_str ''kind'' verdict = Some CONTINUE"

definition callout_scan ::
  "codec \<Rightarrow> json \<Rightarrow> byte list \<Rightarrow> verdict_cache option \<Rightarrow> callout_client \<Rightarrow>
     json \<times> verdict_cache option \<times> callout_client" where
  "callout_scan k context content cache cl =
     (if exceeds_budget (length content) (cc_max_bytes cl)
      then (callout_failed cl ''payload exceeds byte budget'', cache, cl)
      else
        (let digest = content_digest content
         in case Option.bind cache (vcache_get digest) of
              Some hit \<Rightarrow> (hit, cache, cl)
            | None \<Rightarrow>
                (let (verdict, cl) = callout_exchange k context content cl;
                     (verdict, cl) = (if continues verdict then callout_call k context PHASE_BODY content True cl
                                      else (verdict, cl));
                     cache = (if continues verdict then cache else map_option (vcache_put digest verdict) cache)
                 in (verdict, cache, cl))))"

section \<open>ICAP\<close>

definition REQMOD :: str where "REQMOD = ''REQMOD''"
definition RESPMOD :: str where "RESPMOD = ''RESPMOD''"

definition icap_mode :: "str \<Rightarrow> str" where
  "icap_mode direction = (if direction = C2U then REQMOD else RESPMOD)"

definition should_deref :: "str \<Rightarrow> bool \<Rightarrow> bool" where
  "should_deref kind enabled \<longleftrightarrow> kind = ''resource_link'' \<and> enabled"

definition icap_deny :: "str \<Rightarrow> json" where
  "icap_deny reason = jobj [(''verdict'', JStr ''deny''), (''reason'', JStr reason)]"

definition icap_to_callout :: "json \<Rightarrow> json" where
  "icap_to_callout response =
     (let threat = unwrap_or (get_str ''threat'' response) [];
          status = Option.bind (jget ''status'' response) as_i64
      in if threat \<noteq> [] then jobj [(''verdict'', JStr ''quarantine''), (''reason'', JStr threat)]
         else if status = Some 204 then jobj [(''verdict'', JStr ''allow'')]
         else if status = Some 200
         then (case get_str ''modified'' response of
                 Some modified \<Rightarrow>
                   jobj [(''verdict'', JStr ''mutate''), (''content'', JStr modified),
                         (''provenance'', jobj [(''icap'', JStr ''modified''),
                            (''istag'', unwrap_or (jget ''istag'' response) JNull)])]
               | None \<Rightarrow> jobj [(''verdict'', JStr ''allow'')])
         else if status = Some 403 then icap_deny ''ICAP policy blocked''
         else icap_deny ''unexpected ICAP status'')"

text \<open>\<open>from_hex\<close>: the pairs that parse as a byte (a leading \<open>+\<close> counts as a sign).\<close>

fun from_hex :: "str \<Rightarrow> byte list" where
  "from_hex (a # b # s) =
     (case parse_hex [a, b] of Some n \<Rightarrow> of_nat n # from_hex s | None \<Rightarrow> from_hex s)"
| "from_hex _ = []"

definition block_payload :: "json \<Rightarrow> byte list option" where
  "block_payload block =
     (case get_str ''bytes'' block of
        Some h \<Rightarrow> Some (from_hex h)
      | None \<Rightarrow> (case get_str ''text'' block of Some t \<Rightarrow> Some (bytes_of t) | None \<Rightarrow> None))"

definition apply_mutation :: "json \<Rightarrow> json \<Rightarrow> str \<Rightarrow> json" where
  "apply_mutation message block new_hex =
     (let new_bytes = from_hex new_hex; path = block_path block
      in if jget ''bytes'' block \<notin> {None, Some JNull} then set_bytes message path new_bytes
         else set_text message path (utf8_lossy (str_of_bytes new_bytes)))"

definition holder_key :: "(str, json) smap \<Rightarrow> str" where
  "holder_key ob = (if unwrap_or (map_option is_object (smap_get ''result'' ob)) False then ''result'' else ''params'')"

fun annotate :: "json \<Rightarrow> (str, json) smap \<Rightarrow> json" where
  "annotate (JObj ob) provenance =
     (let key = holder_key ob;
          holder = obj_or_empty (unwrap_or (smap_get key ob) (jobj []));
          meta = smap_puts (unwrap_or (Option.bind (smap_get ''_meta'' holder) as_object) []) provenance
      in JObj (smap_put key (JObj (smap_put ''_meta'' (JObj meta) holder)) ob))"
| "annotate message provenance = message"

text \<open>The loop over the blocks of \<open>ContentScanner::scan\<close>.\<close>

fun scan_blocks ::
  "codec \<Rightarrow> json \<Rightarrow> json \<Rightarrow> json list \<Rightarrow> json \<Rightarrow> (str, json) smap \<Rightarrow> verdict_cache option \<Rightarrow> callout_client \<Rightarrow>
     json \<times> verdict_cache option \<times> callout_client" where
  "scan_blocks k context message [] working provenance cache cl =
     (forward_outcome (if provenance \<noteq> [] then annotate working provenance else working), cache, cl)"
| "scan_blocks k context message (block # rest) working provenance cache cl =
     (case block_payload block of
        None \<Rightarrow> scan_blocks k context message rest working provenance cache cl
      | Some data \<Rightarrow>
          (let (verdict, cache, cl) = callout_scan k context data cache cl;
               kind = unwrap_or (get_str ''kind'' verdict) []
           in if kind = DENY \<or> kind = QUARANTINE then (block_outcome message verdict, cache, cl)
              else
                (let working = (if kind = MUTATE
                                then (case get_str ''bytes'' verdict of
                                        Some h \<Rightarrow> apply_mutation working block h | None \<Rightarrow> working)
                                else working);
                     provenance = smap_puts provenance
                       (unwrap_or (Option.bind (jget ''provenance'' verdict) as_object) [])
                 in scan_blocks k context message rest working provenance cache cl)))"

definition scan_message ::
  "codec \<Rightarrow> json \<Rightarrow> str \<Rightarrow> verdict_cache option \<Rightarrow> callout_client \<Rightarrow> json \<times> verdict_cache option \<times> callout_client" where
  "scan_message k message direction cache cl =
     scan_blocks k (message_context message direction) message (block_list message) message [] cache cl"

section \<open>Lemmas\<close>

lemma parse_verdict_kind:
  "get_str ''kind'' (parse_verdict response policy) =
     (case answered_kind response of Some kind \<Rightarrow> Some kind | None \<Rightarrow> Some (resolve_failure policy))"
  by (auto simp: parse_verdict_def failure_verdict_def put_if_def get_str_def json_simps store_simps Let_def
      split: option.splits)

lemma failure_kind: "get_str ''kind'' (failure_verdict policy reason) = Some (resolve_failure policy)"
  by (simp add: failure_verdict_def get_str_def json_simps)

lemma callout_failed_kind: "get_str ''kind'' (callout_failed cl reason) = Some (resolve_failure (cc_policy cl))"
  by (simp add: callout_failed_def failure_kind)

text \<open>The settings of a client never change.\<close>

definition same_settings :: "callout_client \<Rightarrow> callout_client \<Rightarrow> bool" where
  "same_settings cl cl' \<longleftrightarrow> cc_policy cl' = cc_policy cl \<and> cc_max_bytes cl' = cc_max_bytes cl \<and>
     cc_preview_bytes cl' = cc_preview_bytes cl \<and> cc_deadline cl' = cc_deadline cl"

text \<open>
  One call: at most one request is written; the verdict is the failure policy's, or the reading
  of the answer that was taken from the connection.
\<close>

definition called :: "codec \<Rightarrow> json \<Rightarrow> callout_client \<Rightarrow> json \<Rightarrow> callout_client \<Rightarrow> bool" where
  "called k request cl v cl' \<longleftrightarrow>
     same_settings cl cl' \<and>
     ch_out (cc_chan cl') \<in> {ch_out (cc_chan cl), ch_out (cc_chan cl) @ [Payload (c_enc k request)]} \<and>
     (ch_in (cc_chan cl') = ch_in (cc_chan cl) \<or> ch_in (cc_chan cl') = tl (ch_in (cc_chan cl))) \<and>
     (get_str ''kind'' v = Some (resolve_failure (cc_policy cl)) \<or>
      (\<exists>raw response. ch_in (cc_chan cl) = Inr raw # ch_in (cc_chan cl') \<and> decode_message k raw = Inr response \<and>
         v = parse_verdict response (cc_policy cl)))"

lemma timed_recv_cases:
  assumes "timed_recv cl = (r, cl')"
  shows "same_settings cl cl' \<and> ch_out (cc_chan cl') = ch_out (cc_chan cl) \<and>
    (case r of
       Some (Inr (Some raw)) \<Rightarrow> ch_in (cc_chan cl) = Inr raw # ch_in (cc_chan cl')
     | _ \<Rightarrow> ch_in (cc_chan cl') = ch_in (cc_chan cl) \<or> ch_in (cc_chan cl') = tl (ch_in (cc_chan cl)))"
  using assms
  by (auto simp: timed_recv_def same_settings_def recv_def Let_def split: if_splits prod.splits list.splits sum.splits)

lemma callout_call_called:
  assumes "callout_call k context phase content ieof cl = (v, cl')"
  shows "called k (callout_request context phase content ieof) cl v cl'"
proof -
  let ?p = "c_enc k (callout_request context phase content ieof)"
  obtain x c where x: "send_message_to ?p (cc_chan cl) = (x, c)" by force
  show ?thesis
  proof (cases x)
    case (Inl e)
    note x = x [unfolded Inl]
    show ?thesis
      using assms put_packet_cases(2) [OF x]
      by (auto simp: callout_call_def x called_def same_settings_def callout_failed_kind)
  next
    case (Inr u)
    have x: "send_message_to ?p (cc_chan cl) = (Inr (), c)" using x Inr by simp
    note c = put_packet_cases(1) [OF x]
    obtain r cl1 where r: "timed_recv (cl\<lparr>cc_chan := c\<rparr>) = (r, cl1)" by force
    note t = timed_recv_cases [OF r]
    have pol: "cc_policy cl1 = cc_policy cl" using t by (auto simp: same_settings_def)
    have cl': "cl' = cl1"
      using assms by (auto simp: callout_call_def x r split: option.splits sum.splits)
    have "get_str ''kind'' v = Some (resolve_failure (cc_policy cl)) \<or>
      (\<exists>raw response. r = Some (Inr (Some raw)) \<and> decode_message k raw = Inr response \<and>
         v = parse_verdict response (cc_policy cl))"
      using assms pol
      by (auto simp: callout_call_def x r callout_failed_kind split: option.splits sum.splits)
    then show ?thesis
      using t c unfolding called_def cl' by (auto simp: same_settings_def split: option.splits sum.splits)
  qed
qed

lemma called_sent:
  assumes "called k request cl v cl'"
  obtains sent where "ch_out (cc_chan cl') = ch_out (cc_chan cl) @ map Payload sent" "sent \<in> {[], [c_enc k request]}"
proof -
  consider "ch_out (cc_chan cl') = ch_out (cc_chan cl)"
    | "ch_out (cc_chan cl') = ch_out (cc_chan cl) @ [Payload (c_enc k request)]"
    using assms unfolding called_def by blast
  then show thesis
  proof cases
    case 1
    show thesis by (rule that [of "[]"]) (simp_all add: 1)
  next
    case 2
    show thesis by (rule that [of "[c_enc k request]"]) (simp_all add: 2)
  qed
qed

lemma called_source:
  assumes "called k request cl v cl'"
  shows "get_str ''kind'' v = Some (resolve_failure (cc_policy cl)) \<or>
    (\<exists>raw response. Inr raw \<in> set (take 1 (ch_in (cc_chan cl))) \<and> Inr raw \<in> set (take 2 (ch_in (cc_chan cl))) \<and>
       decode_message k raw = Inr response \<and> v = parse_verdict response (cc_policy cl))"
proof -
  consider "get_str ''kind'' v = Some (resolve_failure (cc_policy cl))"
    | raw response where "ch_in (cc_chan cl) = Inr raw # ch_in (cc_chan cl')" "decode_message k raw = Inr response"
        "v = parse_verdict response (cc_policy cl)"
    using assms unfolding called_def by blast
  then show ?thesis
  proof cases
    case 2
    then have "Inr raw \<in> set (take 1 (ch_in (cc_chan cl)))" "Inr raw \<in> set (take 2 (ch_in (cc_chan cl)))"
      by simp_all
    with 2 show ?thesis by blast
  qed simp
qed

lemma take1_take2: "set (take 1 xs) \<subseteq> set (take 2 xs)"
  by (rule set_take_subset_set_take) simp

lemma take1_tl: "set (take 1 (tl xs)) \<subseteq> set (take 2 xs)"
  using set_drop_subset [of 1 "take 2 xs"] by (simp add: drop_take drop_Suc take_tl [symmetric])

lemma called_next:
  assumes "called k request cl v cl'"
  shows "set (take 1 (ch_in (cc_chan cl'))) \<subseteq> set (take 2 (ch_in (cc_chan cl)))"
proof -
  consider "ch_in (cc_chan cl') = ch_in (cc_chan cl)" | "ch_in (cc_chan cl') = tl (ch_in (cc_chan cl))"
    using assms unfolding called_def by blast
  then show ?thesis by cases (simp_all only: take1_take2 take1_tl)
qed

lemma called_twice:
  assumes "called k p cl v1 cl1" "called k b cl1 v2 cl2"
  shows "get_str ''kind'' v2 = Some (resolve_failure (cc_policy cl)) \<or>
      (\<exists>raw response. Inr raw \<in> set (take 2 (ch_in (cc_chan cl))) \<and> decode_message k raw = Inr response \<and>
         v2 = parse_verdict response (cc_policy cl))"
    and "\<exists>sent. ch_out (cc_chan cl2) = ch_out (cc_chan cl) @ map Payload sent \<and> subseq sent [c_enc k p, c_enc k b]"
proof -
  have "cc_policy cl1 = cc_policy cl" using assms(1) by (simp add: called_def same_settings_def)
  then show "get_str ''kind'' v2 = Some (resolve_failure (cc_policy cl)) \<or>
      (\<exists>raw response. Inr raw \<in> set (take 2 (ch_in (cc_chan cl))) \<and> decode_message k raw = Inr response \<and>
         v2 = parse_verdict response (cc_policy cl))"
    using called_source [OF assms(2)] called_next [OF assms(1)] by (simp only:) blast
  obtain sent1 sent2 where "ch_out (cc_chan cl1) = ch_out (cc_chan cl) @ map Payload sent1" "sent1 \<in> {[], [c_enc k p]}"
      "ch_out (cc_chan cl2) = ch_out (cc_chan cl1) @ map Payload sent2" "sent2 \<in> {[], [c_enc k b]}"
    using called_sent [OF assms(1)] called_sent [OF assms(2)] by metis
  then show "\<exists>sent. ch_out (cc_chan cl2) = ch_out (cc_chan cl) @ map Payload sent \<and> subseq sent [c_enc k p, c_enc k b]"
    by (intro exI [of _ "sent1 @ sent2"]) auto
qed

lemma called_once:
  assumes "called k p cl v cl'"
  shows "\<exists>sent. ch_out (cc_chan cl') = ch_out (cc_chan cl) @ map Payload sent \<and> subseq sent [c_enc k p, b]"
proof -
  obtain sent where "ch_out (cc_chan cl') = ch_out (cc_chan cl) @ map Payload sent" "sent \<in> {[], [c_enc k p]}"
    using called_sent [OF assms] .
  then show ?thesis by (intro exI [of _ sent]) auto
qed

lemma continues_parse:
  assumes "answered_kind response = Some kind"
  shows "continues (parse_verdict response policy) \<longleftrightarrow> kind = CONTINUE"
  using assms by (simp add: continues_def parse_verdict_kind)

lemma resolve_failure_ends: "resolve_failure policy \<noteq> CONTINUE"
  by (simp add: resolve_failure_def DENY_def ALLOW_def CONTINUE_def)

lemma failed_ends: "get_str ''kind'' v = Some (resolve_failure policy) \<Longrightarrow> \<not> continues v"
  by (simp add: continues_def resolve_failure_ends)

text \<open>Without a cache, and with a verdict that ends the exchange, a scan is one call.\<close>

lemma callout_scan_one_call:
  assumes "\<not> exceeds_budget (length content) (cc_max_bytes cl)"
    and "callout_exchange k context content cl = (v, cl')" "\<not> continues v"
  shows "callout_scan k context content None cl = (v, None, cl')"
  using assms by (simp add: callout_scan_def Let_def)

text \<open>A service that never answers: each scan is the failure policy's.\<close>

lemma silent_scan:
  assumes "callout_scan k context content None cl = (v, cache', cl')" "\<forall>x\<in>set (ch_in (cc_chan cl)). isl x"
  shows "get_str ''kind'' v = Some (resolve_failure (cc_policy cl))"
proof -
  obtain v1 cl1 where 1: "callout_exchange k context content cl = (v1, cl1)" by force
  note c1 = callout_call_called [OF 1 [unfolded callout_exchange_def Let_def]]
  have "Inr raw \<notin> set (take 1 (ch_in (cc_chan cl)))" for raw
    using assms(2) set_take_subset [of 1 "ch_in (cc_chan cl)"] by fastforce
  then have v1: "get_str ''kind'' v1 = Some (resolve_failure (cc_policy cl))"
    using called_source [OF c1] by blast
  show ?thesis
  proof (cases "exceeds_budget (length content) (cc_max_bytes cl)")
    case True
    then show ?thesis using assms(1) by (auto simp: callout_scan_def callout_failed_kind)
  next
    case False
    then show ?thesis
      using callout_scan_one_call [OF False 1 failed_ends [OF v1]] assms(1) v1 by simp
  qed
qed

text \<open>A codec for concrete runs: the text of an answer is its verdict.\<close>

definition verdict_codec :: codec where
  "verdict_codec = \<lparr>c_enc = (\<lambda>v. unwrap_or (get_str ''phase'' v) []),
     c_dec = (\<lambda>s. Inr (jobj [(''verdict'', JStr s)]))\<rparr>"

definition scanner_of :: "str list \<Rightarrow> callout_client" where
  "scanner_of answers = callout_new \<lparr>ch_in = map Inr answers, ch_out = [], ch_faults = []\<rparr> []"

lemma verdict_codec_decode: "decode_message verdict_codec raw = Inr (jobj [(''verdict'', JStr raw)])"
  by (simp add: decode_message_def verdict_codec_def)

lemma verdict_codec_encode: "c_enc verdict_codec (callout_request context phase content ieof) = phase"
  by (simp add: verdict_codec_def callout_request_def get_str_def json_simps)

lemma verdict_codec_answer:
  "answered_kind (jobj [(''verdict'', JStr raw)]) = (if valid_verdict raw then Some raw else None)"
  by (simp add: answered_kind_def get_str_def json_simps)

section \<open>Properties\<close>

text \<open>C20: The verdict of a scan is the cached one for that content, or the failure policy's, or
  that of a valid answer read from the service: nothing else lets content pass. Content over
  the budget is never sent. Otherwise at most the preview and then the whole body go out, and
  every verdict that does not ask to go on is stored under the digest of the content.\<close>
theorem callout_verdict_source:
  assumes "callout_scan k context content cache cl = (v, cache', cl')"
  shows "if exceeds_budget (length content) (cc_max_bytes cl)
    then get_str ''kind'' v = Some (resolve_failure (cc_policy cl)) \<and> cache' = cache \<and> cl' = cl
    else case Option.bind cache (vcache_get (content_digest content)) of
      Some hit \<Rightarrow> v = hit \<and> cache' = cache \<and> cl' = cl
    | None \<Rightarrow>
        (get_str ''kind'' v = Some (resolve_failure (cc_policy cl)) \<or>
         (\<exists>raw response. Inr raw \<in> set (take 2 (ch_in (cc_chan cl))) \<and> decode_message k raw = Inr response \<and>
            v = parse_verdict response (cc_policy cl))) \<and>
        (\<exists>sent. ch_out (cc_chan cl') = ch_out (cc_chan cl) @ map Payload sent \<and>
           subseq sent [c_enc k (callout_request context PHASE_PREVIEW (take (preview_length cl content) content)
                                  (length content \<le> preview_length cl content)),
                        c_enc k (callout_request context PHASE_BODY content True)]) \<and>
        cache' = (if continues v then cache else map_option (vcache_put (content_digest content) v) cache)"
proof (cases "exceeds_budget (length content) (cc_max_bytes cl)")
  case True
  then show ?thesis using assms by (auto simp: callout_scan_def callout_failed_kind)
next
  case False
  show ?thesis
  proof (cases "Option.bind cache (vcache_get (content_digest content))")
    case (Some hit)
    then show ?thesis using assms False by (auto simp: callout_scan_def Let_def)
  next
    case None
    obtain v1 cl1 where 1: "callout_exchange k context content cl = (v1, cl1)" by force
    obtain v2 cl2 where 2: "callout_call k context PHASE_BODY content True cl1 = (v2, cl2)" by force
    note c1 = callout_call_called [OF 1 [unfolded callout_exchange_def Let_def]]
    note c2 = called_twice [OF c1 callout_call_called [OF 2]]
    have r: "v = (if continues v1 then v2 else v1)" "cl' = (if continues v1 then cl2 else cl1)"
      "cache' = (if continues v then cache else map_option (vcache_put (content_digest content) v) cache)"
      using assms None False 1 2 by (auto simp: callout_scan_def Let_def split: if_splits)
    show ?thesis
      unfolding None if_not_P [OF False] option.case
      by (intro conjI r(3); cases "continues v1")
        (use c2 called_source [OF c1] called_once [OF c1] r(1,2) in \<open>simp; blast\<close>)+
  qed
qed

text \<open>A preview of one byte that the service wants more of, then an answer that allows.\<close>

theorem callout_verdict_source_witness:
  "let (v, cache, cl) = callout_scan verdict_codec JNull [1, 2] None (with_preview 1 (scanner_of [CONTINUE, ALLOW]))
   in get_str ''kind'' v = Some ALLOW \<and> ch_out (cc_chan cl) = [Payload PHASE_PREVIEW, Payload PHASE_BODY] \<and>
      (\<exists>raw response. Inr raw \<in> set [Inr CONTINUE :: io_error + str, Inr ALLOW] \<and>
         decode_message verdict_codec raw = Inr response \<and> v = parse_verdict response FAIL_CLOSED)"
proof -
  let ?cl = "with_preview 1 (scanner_of [CONTINUE, ALLOW])"
  obtain v cache' cl' where s: "callout_scan verdict_codec JNull [1, 2] None ?cl = (v, cache', cl')"
    by (metis prod_cases3)
  have run: "get_str ''kind'' v = Some ALLOW" "ch_out (cc_chan cl') = [Payload PHASE_PREVIEW, Payload PHASE_BODY]"
    using s
    by (auto simp: callout_scan_def callout_exchange_def callout_call_def with_preview_def scanner_of_def callout_new_def
        preview_length_def exceeds_budget_def put_packet_def timed_recv_def recv_def Let_def verdict_codec_decode
        continues_def parse_verdict_kind verdict_codec_answer valid_verdict_def VERDICTS_def ALLOW_def CONTINUE_def
        verdict_codec_encode)
  have "\<not> exceeds_budget (length [1, 2 :: byte]) (cc_max_bytes ?cl)" "get_str ''kind'' v \<noteq> Some (resolve_failure FAIL_CLOSED)"
    "cc_policy ?cl = FAIL_CLOSED" "take 2 (ch_in (cc_chan ?cl)) = [Inr CONTINUE, Inr ALLOW]"
    using run(1) by (simp_all add: exceeds_budget_def with_preview_def scanner_of_def callout_new_def resolve_failure_def
        ALLOW_def DENY_def)
  then have "\<exists>raw response. Inr raw \<in> set [Inr CONTINUE :: io_error + str, Inr ALLOW] \<and>
         decode_message verdict_codec raw = Inr response \<and> v = parse_verdict response FAIL_CLOSED"
    using callout_verdict_source [OF s] by (simp only: if_False option.case Option.bind.simps) blast
  then show ?thesis using s run by simp
qed

text \<open>C35: A message of the scanner is read with the next request's deadline: when the answer to one
  scan misses its deadline, the request is given up with the failure policy but its answer stays
  in the stream, and the next scan takes it as the verdict on its own content.\<close>
theorem late_answer_answers_next:
  assumes "cc_deadline cl = Some d" "cc_late cl = [True]" "ch_faults (cc_chan cl) = []"
    and "ch_in (cc_chan cl) = Inr raw # inp" "decode_message k raw = Inr response"
    and "answered_kind response = Some kind" "kind \<noteq> CONTINUE"
    and "\<not> exceeds_budget (length content1) (cc_max_bytes cl)"
        "\<not> exceeds_budget (length content2) (cc_max_bytes cl)"
    and "callout_scan k context1 content1 None cl = (v1, cache1, cl1)"
    and "callout_scan k context2 content2 None cl1 = (v2, cache2, cl2)"
  shows "get_str ''kind'' v1 = Some (resolve_failure (cc_policy cl)) \<and> v2 = parse_verdict response (cc_policy cl)"
proof -
  let ?p = "\<lambda>context content. Payload (c_enc k (callout_request context PHASE_PREVIEW
    (take (preview_length cl content) content) (length content \<le> preview_length cl content)))"
  let ?cl1 = "cl\<lparr>cc_chan := (cc_chan cl)\<lparr>ch_out := ch_out (cc_chan cl) @ [?p context1 content1]\<rparr>, cc_late := []\<rparr>"
  have "callout_exchange k context1 content1 cl = (callout_failed cl ''callout deadline exceeded'', ?cl1)"
    using assms(1-4)
    by (simp add: callout_exchange_def callout_call_def put_packet_def timed_recv_def Let_def callout_failed_def)
  from callout_scan_one_call [OF assms(8) this failed_ends [OF callout_failed_kind]]
  have 1: "v1 = callout_failed cl ''callout deadline exceeded''" "cl1 = ?cl1" using assms(10) by simp_all
  have len: "preview_length ?cl1 content2 = preview_length cl content2" by (simp add: preview_length_def)
  have "fst (callout_exchange k context2 content2 ?cl1) = parse_verdict response (cc_policy cl)"
    using assms(1-5)
    by (simp add: callout_exchange_def callout_call_def put_packet_def timed_recv_def recv_def Let_def len)
  then obtain cl' where ex: "callout_exchange k context2 content2 ?cl1 = (parse_verdict response (cc_policy cl), cl')"
    by (metis prod.collapse)
  have "callout_scan k context2 content2 None ?cl1 = (parse_verdict response (cc_policy cl), None, cl')"
    using assms(6,7,9) by (intro callout_scan_one_call ex) (simp_all add: continues_parse)
  then show ?thesis using 1 assms(11) by (simp add: callout_failed_kind)
qed

theorem late_answer_answers_next_witness:
  "let cl = with_deadline 5 (with_failure_policy FAIL_CLOSED (scanner_of [ALLOW]))\<lparr>cc_late := [True]\<rparr>;
       (v1, _, cl1) = callout_scan verdict_codec JNull [1] None cl;
       (v2, _, cl2) = callout_scan verdict_codec JNull [2] None cl1
   in get_str ''kind'' v1 = Some DENY \<and> get_str ''kind'' v2 = Some ALLOW"
proof -
  let ?cl = "with_deadline 5 (with_failure_policy FAIL_CLOSED (scanner_of [ALLOW]))\<lparr>cc_late := [True]\<rparr>"
  let ?r = "jobj [(''verdict'', JStr ALLOW)]"
  obtain v1 cache1 cl1 where 1: "callout_scan verdict_codec JNull [1] None ?cl = (v1, cache1, cl1)" by (metis prod_cases3)
  obtain v2 cache2 cl2 where 2: "callout_scan verdict_codec JNull [2] None cl1 = (v2, cache2, cl2)" by (metis prod_cases3)
  have a: "answered_kind ?r = Some ALLOW"
    by (simp add: verdict_codec_answer valid_verdict_def VERDICTS_def)
  have "get_str ''kind'' v1 = Some (resolve_failure (cc_policy ?cl)) \<and> v2 = parse_verdict ?r (cc_policy ?cl)"
    by (rule late_answer_answers_next [OF _ _ _ _ verdict_codec_decode a _ _ _ 1 2, of 5 "[]"])
      (simp_all add: with_deadline_def with_failure_policy_def scanner_of_def callout_new_def exceeds_budget_def
        ALLOW_def CONTINUE_def)
  moreover have "resolve_failure (cc_policy ?cl) = DENY"
    by (simp add: with_deadline_def with_failure_policy_def resolve_failure_def)
  ultimately show ?thesis using 1 2 a by (simp add: parse_verdict_kind Let_def)
qed

text \<open>Fail closed: with a scanner that never answers (closed, broken, or only transport errors)
  and no cached verdicts, a message with any inline payload is blocked, and only a message with
  none is forwarded.\<close>
theorem unreachable_scanner_blocks:
  assumes "cc_policy cl = FAIL_CLOSED" "\<forall>x\<in>set (ch_in (cc_chan cl)). isl x"
  shows "outcome_action (fst (scan_message k message direction None cl)) =
    Some (if \<exists>b\<in>set (block_list message). block_payload b \<noteq> None then ''block'' else ''forward'')"
proof -
  have "outcome_action (fst (scan_blocks k ctx message bs message [] None cl)) =
    Some (if \<exists>b\<in>set bs. block_payload b \<noteq> None then ''block'' else ''forward'')" for ctx bs
  proof (induction bs)
    case Nil
    then show ?case by (simp add: outcome_action_def forward_outcome_def get_str_def json_simps)
  next
    case (Cons b bs)
    show ?case
    proof (cases "block_payload b")
      case None
      then show ?thesis using Cons by simp
    next
      case (Some data)
      obtain v cache' cl' where s: "callout_scan k ctx data None cl = (v, cache', cl')" by (metis prod_cases3)
      have "get_str ''kind'' v = Some DENY"
        using silent_scan [OF s assms(2)] assms(1) by (simp add: resolve_failure_def)
      then show ?thesis
        using Some s by (simp add: outcome_action_def block_outcome_def get_str_def json_simps)
    qed
  qed
  then show ?thesis by (simp add: scan_message_def)
qed

theorem unreachable_scanner_blocks_witness:
  "let message = jobj [(''result'', jobj [(''content'', JArr [jobj [(''type'', JStr ''text''), (''text'', JStr ''x'')]])])]
   in outcome_action (fst (scan_message verdict_codec message U2C None (scanner_of []))) = Some ''block''"
proof -
  let ?m = "jobj [(''result'', jobj [(''content'', JArr [jobj [(''type'', JStr ''text''), (''text'', JStr ''x'')]])])]"
  have "\<exists>b\<in>set (block_list ?m). block_payload b \<noteq> None"
    by (simp add: block_list_def pointed_items_def content_block_def contents_block_def block_payload_def
        descriptor_def get_or_null_def get_str_def json_simps)
  then show ?thesis
    using unreachable_scanner_blocks [of "scanner_of []" verdict_codec ?m U2C]
    by (simp add: scanner_of_def callout_new_def)
qed

end
