(* ===== verification/ServeHttp.thy ===== *)
theory ServeHttp
  imports HttpClient Stateless
begin

text \<open>
  The server \<open>yamp-serve-http\<close> (\<open>src/src/bin/yamp-serve-http.rs\<close>): its arguments, the
  reading of a message, the pool of keep-alive connections, the routing of one message and the
  loop of a client connection; and the start of a connection of \<open>yamp-serve-stateless\<close>.
  A backend is the bytes it sends after each request, a parameter of the network; the world is
  the pool with the number of connections opened so far. Here one connection runs by itself, so a
  post is one step; \<open>HttpServer\<close> has all of them, with the steps of a post apart. What a client is sent is taken to
  arrive; the accept loops, sockets and tasks are tokio.
\<close>

section \<open>Targets and arguments\<close>

record http_target =
  tg_host :: str
  tg_port :: nat
  tg_path :: str

text \<open>\<open>parse_backend\<close> panics on a specification without \<open>=\<close> or without a port.\<close>

definition parse_backend :: "str \<Rightarrow> (str \<times> http_target) option" where
  "parse_backend spec =
     (case split_once ''='' spec of
        None \<Rightarrow> None
      | Some (i, url) \<Rightarrow>
          (let rest = unwrap_or (strip_prefix ''http://'' url) url;
               (authority, path) = (case split_once ''/'' rest of
                                      Some (a, p) \<Rightarrow> (a, ''/'' @ p)
                                    | None \<Rightarrow> (rest, ''/''))
           in case split_once '':'' authority of
                None \<Rightarrow> None
              | Some (host, port) \<Rightarrow>
                  Some (i, \<lparr>tg_host = host, tg_port = unwrap_or (parse_unsigned 65535 port) 80, tg_path = path\<rparr>)))"

text \<open>The arguments come in pairs, \<open>i += 2\<close>, whatever the first of a pair is.\<close>

fun http_args :: "str list \<Rightarrow> str \<times> (str, http_target) smap \<Rightarrow> (str \<times> (str, http_target) smap) option" where
  "http_args (x # v # rest) (listen, backends) =
     (if x = ''--listen'' then http_args rest (v, backends)
      else if x = ''--backend''
      then (case parse_backend v of
              None \<Rightarrow> None
            | Some (i, target) \<Rightarrow> http_args rest (listen, smap_put i target backends))
      else http_args rest (listen, backends))"
| "http_args _ acc = Some acc"

fun stateless_args :: "str list \<Rightarrow> str \<times> (str \<times> str) list \<Rightarrow> (str \<times> (str \<times> str) list) option" where
  "stateless_args (x # v # rest) (listen, backends) =
     (if x = ''--listen'' then stateless_args rest (v, backends)
      else if x = ''--backend''
      then (case split_once ''='' v of
              None \<Rightarrow> None
            | Some (i, addr) \<Rightarrow> stateless_args rest (listen, backends @ [(i, addr)]))
      else stateless_args rest (listen, backends))"
| "stateless_args _ acc = Some acc"

section \<open>Reading a message\<close>

text \<open>A header line without its line end, and what it says of the message.\<close>

definition chomp :: "str \<Rightarrow> str" where
  "chomp line = strip_cr (if line \<noteq> [] \<and> last line = NL then butlast line else line)"

record message_head =
  mh_length :: nat
  mh_accept :: "str option"

definition message_header :: "str \<Rightarrow> message_head \<Rightarrow> message_head option" where
  "message_header t h =
     (case split_once '':'' t of
        None \<Rightarrow> Some h
      | Some (name, value) \<Rightarrow>
          if ascii_lower (trim_str name) = ''content-length''
          then (case parse_unsigned (2 ^ 64 - 1) (trim_str value) of
                  Some n \<Rightarrow> if n \<le> MAX_FRAME_BYTES then Some (h\<lparr>mh_length := n\<rparr>) else None
                | None \<Rightarrow> None)
          else if ascii_lower (trim_str name) = ''accept'' then Some (h\<lparr>mh_accept := Some (trim_str value)\<rparr>)
          else Some h)"

function read_message_head :: "str \<Rightarrow> message_head \<Rightarrow> message_head option \<times> str" where
  "read_message_head s h =
     (let (line, rest) = read_until NL s
      in if line = [] then (None, rest)
         else if chomp line = [] then (Some h, rest)
         else (case message_header (utf8_lossy (chomp line)) h of
                 None \<Rightarrow> (None, rest)
               | Some h \<Rightarrow> read_message_head rest h))"
  by pat_completeness auto
termination
  by (relation "measure (\<lambda>(s, h). length s)") (auto dest: read_until_rest)

declare read_message_head.simps [simp del]

definition no_head :: message_head where
  "no_head = \<lparr>mh_length = 0, mh_accept = None\<rparr>"

definition read_message :: "str \<Rightarrow> (io_error + (str \<times> str option) option) \<times> str" where
  "read_message s =
     (case read_message_head s no_head of
        (None, rest) \<Rightarrow> (Inr None, rest)
      | (Some h, rest) \<Rightarrow>
          (case read_exact (mh_length h) rest of
             (Inl e, rest) \<Rightarrow> (Inl e, rest)
           | (Inr body, rest) \<Rightarrow> (Inr (Some (body, mh_accept h)), rest)))"

section \<open>Keep-alive connections\<close>

text \<open>
  A connection: which one it is, the requests written to it and what it holds that has not
  been read. The network decides whether the next connection to a host opens, and what comes
  back on a connection after a request, or that the write fails. \<open>hp_wire\<close> is what has been
  written to any connection so far.
\<close>

type_synonym host_key = "str \<times> nat"

record backend_conn =
  kc_serial :: nat
  kc_sent :: "str list"
  kc_unread :: str

record http_pool =
  hp_idle :: "(host_key, backend_conn list) smap"
  hp_opened :: nat
  hp_wire :: "(host_key \<times> str) list"

record http_net =
  hn_connect :: "host_key \<Rightarrow> nat \<Rightarrow> io_error option"
  hn_answer :: "host_key \<Rightarrow> nat \<Rightarrow> str list \<Rightarrow> io_error + str"

definition target_key :: "http_target \<Rightarrow> host_key" where
  "target_key target = (tg_host target, tg_port target)"

text \<open>The idle connections of the hosts: the latest is taken out, and one that is put back is the latest.\<close>

definition pop_idle :: "host_key \<Rightarrow> (host_key, 'c list) smap \<Rightarrow> ('c \<times> (host_key, 'c list) smap) option" where
  "pop_idle key idle =
     (case smap_get key idle of
        None \<Rightarrow> None
      | Some cs \<Rightarrow> if cs = [] then None else Some (last cs, smap_put key (butlast cs) idle))"

definition push_idle :: "host_key \<Rightarrow> 'c \<Rightarrow> (host_key, 'c list) smap \<Rightarrow> (host_key, 'c list) smap" where
  "push_idle key c idle = smap_put key (unwrap_or (smap_get key idle) [] @ [c]) idle"

text \<open>An idle connection, taken out of the pool, or a new one.\<close>

definition take_conn :: "http_net \<Rightarrow> host_key \<Rightarrow> (http_pool, backend_conn) action" where
  "take_conn net key p =
     (case pop_idle key (hp_idle p) of
        Some (conn, idle) \<Rightarrow> (Inr conn, p\<lparr>hp_idle := idle\<rparr>)
      | None \<Rightarrow>
          (case hn_connect net key (hp_opened p) of
             Some e \<Rightarrow> (Inl e, p)
           | None \<Rightarrow>
               (Inr \<lparr>kc_serial = hp_opened p, kc_sent = [], kc_unread = []\<rparr>, p\<lparr>hp_opened := hp_opened p + 1\<rparr>)))"

definition put_conn :: "host_key \<Rightarrow> backend_conn \<Rightarrow> http_pool \<Rightarrow> http_pool" where
  "put_conn key conn p = p\<lparr>hp_idle := push_idle key conn (hp_idle p)\<rparr>"

definition idle_of :: "host_key \<Rightarrow> http_pool \<Rightarrow> backend_conn list" where
  "idle_of key p = unwrap_or (smap_get key (hp_idle p)) []"

lemma pop_idle_eq:
  "pop_idle key idle =
     (let cs = unwrap_or (smap_get key idle) []
      in if cs = [] then None else Some (last cs, smap_put key (butlast cs) idle))"
  by (simp add: pop_idle_def split: option.split)

lemma take_conn_eq:
  "take_conn net key p =
     (if idle_of key p \<noteq> []
      then (Inr (last (idle_of key p)), p\<lparr>hp_idle := smap_put key (butlast (idle_of key p)) (hp_idle p)\<rparr>)
      else (case hn_connect net key (hp_opened p) of
              Some e \<Rightarrow> (Inl e, p)
            | None \<Rightarrow> (Inr \<lparr>kc_serial = hp_opened p, kc_sent = [], kc_unread = []\<rparr>, p\<lparr>hp_opened := hp_opened p + 1\<rparr>)))"
  by (simp add: take_conn_def pop_idle_eq idle_of_def Let_def)

lemma put_conn_eq: "put_conn key conn p = p\<lparr>hp_idle := smap_put key (idle_of key p @ [conn]) (hp_idle p)\<rparr>"
  by (simp add: put_conn_def push_idle_def idle_of_def)

definition post_head :: "http_target \<Rightarrow> nat \<Rightarrow> str" where
  "post_head target body_length =
     ''POST '' @ tg_path target @ '' HTTP/1.1'' @ CRLF @ ''Host: '' @ tg_host target @ CRLF @
     ''Content-Type: application/json'' @ CRLF @ ''Content-Length: '' @ show_nat body_length @ CRLF @
     ''Connection: keep-alive'' @ CRLF @ CRLF"

definition post_request :: "http_target \<Rightarrow> str \<Rightarrow> str" where
  "post_request target body = post_head target (length body) @ body"

text \<open>The request on a connection: the result, with the connection when it goes back to the pool.\<close>

definition post_on ::
  "http_net \<Rightarrow> http_target \<Rightarrow> str \<Rightarrow> backend_conn \<Rightarrow> io_error + str \<times> backend_conn option" where
  "post_on net target body conn =
     (let sent = kc_sent conn @ [post_request target body]
      in case hn_answer net (target_key target) (kc_serial conn) sent of
           Inl e \<Rightarrow> Inl e
         | Inr bytes \<Rightarrow>
             (case read_message (kc_unread conn @ bytes) of
                (Inl e, _) \<Rightarrow> Inl e
              | (Inr (Some (response, _)), rest) \<Rightarrow>
                  Inr (response, Some (conn\<lparr>kc_sent := sent, kc_unread := rest\<rparr>))
              | (Inr None, _) \<Rightarrow> Inr ([], None)))"

definition backend_post :: "http_net \<Rightarrow> http_target \<Rightarrow> str \<Rightarrow> (http_pool, str) action" where
  "backend_post net target body =
     and_then (take_conn net (target_key target)) (\<lambda>conn p.
       let p = p\<lparr>hp_wire := hp_wire p @ [(target_key target, post_request target body)]\<rparr>
       in case post_on net target body conn of
            Inl e \<Rightarrow> (Inl e, p)
          | Inr (response, Some conn) \<Rightarrow> (Inr response, put_conn (target_key target) conn p)
          | Inr (response, None) \<Rightarrow> (Inr response, p))"

section \<open>Routing\<close>

definition http_error_body :: "codec \<Rightarrow> int \<Rightarrow> str" where
  "http_error_body k code =
     c_enc k (jobj [(''jsonrpc'', JStr ''2.0''), (''error'', jobj [(''code'', jint code)])])"

definition called_name :: "json \<Rightarrow> str" where
  "called_name message =
     unwrap_or (Option.bind (Option.bind (jget ''params'' message) (jget ''name'')) as_str) []"

text \<open>The target and the original name, when the name belongs to a backend.\<close>

definition http_target_of :: "(str, http_target) smap \<Rightarrow> json \<Rightarrow> (http_target \<times> str) option" where
  "http_target_of backends message =
     (case ns_split (called_name message) of
        None \<Rightarrow> None
      | Some (bid, original) \<Rightarrow>
          (case smap_get bid backends of None \<Rightarrow> None | Some target \<Rightarrow> Some (target, original)))"

definition http_forwarded :: "str \<Rightarrow> json \<Rightarrow> json" where
  "http_forwarded original message =
     jmodify ''params'' (\<lambda>params.
       if is_object params
       then jmodify ''_meta'' (\<lambda>meta. forward_meta meta None) (jput ''name'' (JStr original) params)
       else params) message"

definition route :: "codec \<Rightarrow> http_net \<Rightarrow> (str, http_target) smap \<Rightarrow> str \<Rightarrow> http_pool \<Rightarrow> str \<times> http_pool" where
  "route k net backends body p =
     (case c_dec k body of
        Inl e \<Rightarrow> (http_error_body k INVALID_PARAMS, p)
      | Inr message \<Rightarrow>
          (case http_target_of backends message of
             None \<Rightarrow> (http_error_body k INVALID_PARAMS, p)
           | Some (target, original) \<Rightarrow>
               (case backend_post net target (c_enc k (http_forwarded original message)) p of
                  (Inr response, p) \<Rightarrow> (response, p)
                | (Inl e, p) \<Rightarrow> (http_error_body k SERVER_NOT_AVAILABLE, p))))"

definition reply_head :: "str option \<Rightarrow> nat \<Rightarrow> str" where
  "reply_head accept n =
     ''HTTP/1.1 200 OK'' @ CRLF @ ''Content-Type: '' @ response_content_type accept @ CRLF @
     ''Content-Length: '' @ show_nat n @ CRLF @ ''Connection: keep-alive'' @ CRLF @ CRLF"

lemma read_message_head_le: "read_message_head s h = (r, rest) \<Longrightarrow> length rest \<le> length s \<and> (r \<noteq> None \<longrightarrow> length rest < length s)"
proof (induction s h rule: read_message_head.induct)
  case (1 s h)
  obtain line t where l: "read_until NL s = (line, t)" by force
  show ?case
  proof (cases "line = []")
    case True
    then show ?thesis using "1.prems" l read_until_Nil [of NL s t] by (auto simp: read_message_head.simps [of s h])
  next
    case False
    then have "length t < length s" using l read_until_shorter by blast
    then show ?thesis
      using "1.prems" "1.IH" l False
      by (fastforce simp: read_message_head.simps [of s h] split: if_splits option.splits)
  qed
qed

lemma read_message_le:
  "read_message s = (Inr (Some m), rest) \<Longrightarrow> length rest < length s"
  by (auto simp: read_message_def split: prod.splits option.splits sum.splits
      dest!: read_message_head_le read_exact_le)

text \<open>The loop of a client's connection: the bytes it is answered with.\<close>

function http_connection ::
  "codec \<Rightarrow> http_net \<Rightarrow> (str, http_target) smap \<Rightarrow> str \<Rightarrow> str \<Rightarrow> http_pool \<Rightarrow> (io_error + unit) \<times> str \<times> http_pool" where
  "http_connection k net backends s written p =
     (case read_message s of
        (Inl e, _) \<Rightarrow> (Inl e, written, p)
      | (Inr None, _) \<Rightarrow> (Inr (), written, p)
      | (Inr (Some (body, accept)), rest) \<Rightarrow>
          (let (out, p) = route k net backends body p
           in http_connection k net backends rest (written @ reply_head accept (length out) @ out) p))"
  by pat_completeness auto
termination
  by (relation "measure (\<lambda>(k, net, backends, s, written, p). length s)") (auto dest: read_message_le [OF sym])

declare http_connection.simps [simp del]

section \<open>A connection of \<open>yamp-serve-stateless\<close>\<close>

text \<open>The backends are connected in order; \<open>None\<close> is the panic on an id that is not valid.\<close>

fun open_backends :: "(str \<Rightarrow> io_error + chan) \<Rightarrow> (str \<times> str) list \<Rightarrow> (io_error + sl_backend list) option" where
  "open_backends connect [] = Some (Inr [])"
| "open_backends connect ((i, addr) # specs) =
     (case connect addr of
        Inl e \<Rightarrow> Some (Inl e)
      | Inr c \<Rightarrow>
          (case sl_backend_new i c of
             Inl e \<Rightarrow> None
           | Inr b \<Rightarrow> map_option (map_sum (\<lambda>e. e) (\<lambda>bs. b # bs)) (open_backends connect specs)))"

definition stateless_connection ::
  "codec \<Rightarrow> (str \<Rightarrow> io_error + chan) \<Rightarrow> (str \<times> str) list \<Rightarrow> chan \<Rightarrow> (io_error + unit) option" where
  "stateless_connection k connect specs client =
     (case open_backends connect specs of
        None \<Rightarrow> None
      | Some (Inl e) \<Rightarrow> Some (Inl e)
      | Some (Inr bs) \<Rightarrow> Some (fst (sl_serve k client bs)))"

section \<open>Lemmas: reading\<close>

text \<open>A header line that says nothing of the length.\<close>

definition plain_line :: "str \<Rightarrow> bool" where
  "plain_line l \<longleftrightarrow> l \<noteq> [] \<and> NL \<notin> set l \<and>
     (case split_once '':'' (utf8_lossy l) of
        None \<Rightarrow> True | Some (name, _) \<Rightarrow> ascii_lower (trim_str name) \<noteq> ''content-length'')"

definition header_block :: "str list \<Rightarrow> str" where
  "header_block ls = concat (map (\<lambda>l. l @ CRLF) ls) @ CRLF"

definition length_line :: "nat \<Rightarrow> str" where
  "length_line n = ''Content-Length: '' @ show_nat n"

text \<open>A response whose head says its length, and one whose head does not.\<close>

definition framed_response :: "str list \<Rightarrow> str \<Rightarrow> str" where
  "framed_response ls body = header_block (ls @ [length_line (length body)]) @ body"

definition unframed_response :: "str list \<Rightarrow> str \<Rightarrow> str" where
  "unframed_response ls body = header_block ls @ body"

lemma chomp_line: "l \<noteq> [] \<Longrightarrow> chomp (l @ CRLF) = l"
  by (simp add: chomp_def CRLF_def strip_cr_def butlast_append)

lemma read_head_line:
  assumes "l \<noteq> []" "NL \<notin> set l" "message_header (utf8_lossy l) h = Some h'"
  shows "read_message_head (l @ CRLF @ s) h = read_message_head s h'"
proof -
  have "read_until NL ((l @ [CR]) @ NL # s) = ((l @ [CR]) @ [NL], s)"
    by (rule read_until_line) (use assms(2) in simp)
  then have "read_until NL (l @ CRLF @ s) = (l @ CRLF, s)" by (simp add: CRLF_def)
  then show ?thesis
    using assms by (simp add: read_message_head.simps [of "l @ CRLF @ s"] chomp_line CRLF_def [symmetric])
qed

lemma read_head_end: "read_message_head (CRLF @ s) h = (Some h, s)"
proof -
  have "read_until NL ([CR] @ NL # s) = ([CR] @ [NL], s)" by (rule read_until_line) simp
  then have "read_until NL (CRLF @ s) = (CRLF, s)" by (simp add: CRLF_def)
  then show ?thesis
    by (subst read_message_head.simps) (simp add: chomp_def strip_cr_def CRLF_def)
qed

lemma plain_line_header:
  assumes "plain_line l"
  shows "\<exists>a. message_header (utf8_lossy l) h = Some (h\<lparr>mh_accept := a\<rparr>)"
proof -
  have "h\<lparr>mh_accept := mh_accept h\<rparr> = h" by simp
  then show ?thesis
    using assms by (auto simp: plain_line_def message_header_def split: option.splits if_splits intro: exI [of _ "mh_accept h"])
qed

lemma read_plain_lines:
  assumes "list_all plain_line ls"
  shows "\<exists>a. read_message_head (concat (map (\<lambda>l. l @ CRLF) ls) @ s) h = read_message_head s (h\<lparr>mh_accept := a\<rparr>)"
  using assms
proof (induction ls arbitrary: h)
  case Nil
  then show ?case by (simp add: exI [of _ "mh_accept h"])
next
  case (Cons l ls)
  then obtain a where a: "message_header (utf8_lossy l) h = Some (h\<lparr>mh_accept := a\<rparr>)"
    using plain_line_header by fastforce
  have l: "l \<noteq> []" "NL \<notin> set l" using Cons.prems by (auto simp: plain_line_def)
  obtain b where "read_message_head (concat (map (\<lambda>l. l @ CRLF) ls) @ s) (h\<lparr>mh_accept := a\<rparr>) =
      read_message_head s (h\<lparr>mh_accept := a\<rparr>\<lparr>mh_accept := b\<rparr>)"
    using Cons.IH [of "h\<lparr>mh_accept := a\<rparr>"] Cons.prems by auto
  then show ?case using read_head_line [OF l a] by (auto intro!: exI [of _ b])
qed

lemma colon_space: "split_once '':'' (''Content-Length: '' @ v) = Some (''Content-Length'', '' '' @ v)"
  by (simp add: strip_prefix_Some)

lemma digits_plain: "c \<in> set (show_nat n) \<Longrightarrow> plain_char c"
proof -
  assume "c \<in> set (show_nat n)"
  then have "is_digit_char c" by (rule show_nat_digits)
  then show "plain_char c"
    by (auto simp: is_digit_char_def digit_val_def plain_char_def Let_def split: if_splits)
qed

lemma trim_space: "trimmed v \<Longrightarrow> trim_str ('' '' @ v) = v"
proof -
  assume t: "trimmed v"
  have "trim_seqs white_space (CHR '' '' # v) = trim_seqs white_space v"
    by (rule trim_seqs_first) (simp add: white_space_def starts_with_def char_of_eq_iff take_bit_nat_def)
  also have "\<dots> = v" using t by (simp add: trimmed_def trim_seqs_id)
  finally show ?thesis using t by (simp add: trim_str_def trimmed_def trim_seqs_id)
qed

lemma trim_digits: "trim_str ('' '' @ show_nat n) = show_nat n"
  by (intro trim_space plain_trimmed) (auto intro: digits_plain)

lemma length_line_header:
  assumes "n \<le> MAX_FRAME_BYTES"
  shows "message_header (utf8_lossy (length_line n)) h = Some (h\<lparr>mh_length := n\<rparr>)"
proof -
  have "\<forall>c \<in> set (length_line n). (of_char c :: nat) < 128"
    using digits_plain by (auto simp: length_line_def plain_char_def Let_def)
  then have u: "utf8_lossy (length_line n) = length_line n" by (intro utf8_lossy_valid ascii_valid)
  have k: "ascii_lower (trim_str ''Content-Length'') = ''content-length''"
    by (subst trim_str_trimmed) (simp_all add: trimmed_eval ascii_lower_def lower_char_def of_char_def)
  have "parse_unsigned (2 ^ 64 - 1) (show_nat n) = Some n"
    using assms by (intro parse_show_nat) (simp add: MAX_FRAME_BYTES_def)
  then show ?thesis
    using assms unfolding message_header_def u unfolding length_line_def colon_space
    by (simp add: k trim_digits del: append.simps)
qed

lemma length_line_text: "length_line n \<noteq> []" "NL \<notin> set (length_line n)"
  using digits_plain [of NL n] by (auto simp: length_line_def plain_char_def)

text \<open>A framed response is read as its body, and nothing of it is left.\<close>

lemma read_framed:
  assumes "list_all plain_line ls" "length body \<le> MAX_FRAME_BYTES"
  shows "\<exists>a. read_message (framed_response ls body @ s) = (Inr (Some (body, a)), s)"
proof -
  let ?l = "length_line (length body)"
  obtain a where "read_message_head (concat (map (\<lambda>l. l @ CRLF) ls) @ ?l @ CRLF @ CRLF @ body @ s) no_head =
      read_message_head (?l @ CRLF @ CRLF @ body @ s) (no_head\<lparr>mh_accept := a\<rparr>)"
    using read_plain_lines [OF assms(1)] by blast
  also have "\<dots> = (Some (no_head\<lparr>mh_accept := a, mh_length := length body\<rparr>), body @ s)"
    using read_head_line [OF length_line_text length_line_header [OF assms(2)]] by (simp add: read_head_end)
  finally show ?thesis
    by (simp add: read_message_def framed_response_def header_block_def read_exact_def)
qed

text \<open>Without a length the body is taken to be empty, and stays to be read.\<close>

lemma read_unframed:
  assumes "list_all plain_line ls"
  shows "\<exists>a. read_message (unframed_response ls body) = (Inr (Some ([], a)), body)"
proof -
  obtain a where "read_message_head (concat (map (\<lambda>l. l @ CRLF) ls) @ CRLF @ body) no_head =
      read_message_head (CRLF @ body) (no_head\<lparr>mh_accept := a\<rparr>)"
    using read_plain_lines [OF assms] by blast
  then show ?thesis
    by (simp add: read_message_def unframed_response_def header_block_def read_exact_def read_head_end no_head_def)
qed

section \<open>Lemmas: the pool\<close>

declare split_paired_All [simp del] split_paired_Ex [simp del]

text \<open>A pool whose idle connections have nothing left to read.\<close>

definition clean_pool :: "http_pool \<Rightarrow> bool" where
  "clean_pool p \<longleftrightarrow> (\<forall>key. \<forall>conn \<in> set (idle_of key p). kc_unread conn = [])"

lemma idle_of_put: "idle_of key' (p\<lparr>hp_idle := smap_put key cs (hp_idle p)\<rparr>) = (if key' = key then cs else idle_of key' p)"
  by (simp add: idle_of_def store_simps)

lemma idle_of_put_conn: "idle_of key' (put_conn key conn p) = (if key' = key then idle_of key p @ [conn] else idle_of key' p)"
  by (simp add: put_conn_eq idle_of_put)

text \<open>What taking a connection does.\<close>

lemma take_conn_cases:
  assumes "take_conn net key p = (r, p')"
  shows "(\<forall>key'. key' \<noteq> key \<longrightarrow> idle_of key' p' = idle_of key' p) \<and>
    (case r of
       Inl e \<Rightarrow> p' = p
     | Inr conn \<Rightarrow> idle_of key p = idle_of key p' @ [conn] \<or>
         idle_of key p = [] \<and> idle_of key p' = [] \<and> conn = \<lparr>kc_serial = hp_opened p, kc_sent = [], kc_unread = []\<rparr>)"
  using assms
  by (auto simp: take_conn_eq idle_of_def store_simps split: if_splits option.splits)

text \<open>What a post does to the pool and the wire.\<close>

lemma idle_of_wire [simp]: "idle_of key (p\<lparr>hp_wire := w\<rparr>) = idle_of key p"
  by (simp add: idle_of_def)

lemma put_conn_wire [simp]: "hp_wire (put_conn key conn p) = hp_wire p"
  by (simp add: put_conn_eq)

lemma take_conn_wire: "take_conn net key p = (r, p') \<Longrightarrow> hp_wire p' = hp_wire p"
  by (auto simp: take_conn_eq split: if_splits option.splits)

lemma backend_post_confined:
  assumes "backend_post net target body p = (r, p')"
  shows "(\<forall>key. key \<noteq> target_key target \<longrightarrow> idle_of key p' = idle_of key p) \<and>
    hp_wire p' \<in> {hp_wire p, hp_wire p @ [(target_key target, post_request target body)]}"
proof -
  obtain t p1 where t: "take_conn net (target_key target) p = (t, p1)" by force
  show ?thesis
    using assms t take_conn_cases [OF t] take_conn_wire [OF t]
    by (auto simp: backend_post_def and_then_def Let_def idle_of_put_conn split: sum.splits option.splits)
qed

text \<open>A connection with nothing left over, and a framed answer: the result is the answer's body.\<close>

lemma post_on_framed:
  assumes "kc_unread conn = []" "list_all plain_line ls" "length body' \<le> MAX_FRAME_BYTES"
    and "hn_answer net (target_key target) (kc_serial conn) (kc_sent conn @ [post_request target body]) =
      Inr (framed_response ls body')"
  shows "post_on net target body conn =
    Inr (body', Some (conn\<lparr>kc_sent := kc_sent conn @ [post_request target body], kc_unread := []\<rparr>))"
  using read_framed [OF assms(2,3), of "[]"] assms(1,4) by (auto simp: post_on_def Let_def)

fun post_all :: "http_net \<Rightarrow> (http_target \<times> str) list \<Rightarrow> http_pool \<Rightarrow> (io_error + str) list \<times> http_pool" where
  "post_all net [] p = ([], p)"
| "post_all net ((target, body) # reqs) p =
     (let (r, p) = backend_post net target body p; (rs, p) = post_all net reqs p in (r # rs, p))"

lemma post_all_Cons:
  "backend_post net target body p = (r, p1) \<Longrightarrow>
     fst (post_all net ((target, body) # reqs) p) = r # fst (post_all net reqs p1) \<and>
     snd (post_all net ((target, body) # reqs) p) = snd (post_all net reqs p1)"
  by (simp split: prod.splits)

lemma clean_put_conn: "clean_pool p \<Longrightarrow> kc_unread conn = [] \<Longrightarrow> clean_pool (put_conn key conn p)"
  by (auto simp: clean_pool_def idle_of_put_conn)

lemma clean_take_conn:
  assumes "clean_pool p" "take_conn net key p = (Inr conn, p')"
  shows "clean_pool p' \<and> kc_unread conn = []"
proof -
  note c = take_conn_cases [OF assms(2)]
  have sub: "set (idle_of key p') \<subseteq> set (idle_of key p)" using c by auto
  have "\<forall>x \<in> set (idle_of key' p'). kc_unread x = []" for key'
  proof (cases "key' = key")
    case True
    then show ?thesis using sub assms(1) unfolding clean_pool_def by blast
  next
    case False
    then have "idle_of key' p' = idle_of key' p" using c by blast
    then show ?thesis using assms(1) unfolding clean_pool_def by simp
  qed
  moreover have "kc_unread conn = []"
  proof (cases "idle_of key p = []")
    case True
    then show ?thesis using c by simp
  next
    case False
    then have "conn \<in> set (idle_of key p)" using c by auto
    then show ?thesis using assms(1) unfolding clean_pool_def by blast
  qed
  ultimately show ?thesis unfolding clean_pool_def by blast
qed

text \<open>Concrete networks and targets.\<close>

definition tool_target :: http_target where
  "tool_target = \<lparr>tg_host = ''localhost'', tg_port = 9101, tg_path = ''/mcp''\<rparr>"

definition empty_pool :: http_pool where
  "empty_pool = \<lparr>hp_idle = [], hp_opened = 0, hp_wire = []\<rparr>"

definition answering_net :: "(str list \<Rightarrow> str) \<Rightarrow> http_net" where
  "answering_net f = \<lparr>hn_connect = (\<lambda>_ _. None), hn_answer = (\<lambda>_ _ sent. Inr (f sent))\<rparr>"

lemma ascii_plain_line:
  assumes "l \<noteq> []" "\<forall>c \<in> set l. (of_char c :: nat) < 128 \<and> c \<noteq> NL \<and> c \<noteq> CHR '':''"
  shows "plain_line l"
proof -
  have "utf8_lossy l = l" using assms(2) by (intro utf8_lossy_valid ascii_valid) blast
  moreover have "split_once '':'' l = None" using assms(2) by (subst split_once_single_None) blast
  moreover have "NL \<notin> set l" using assms(2) by blast
  ultimately show ?thesis using assms(1) by (simp add: plain_line_def)
qed

lemma encoding_plain_line: "plain_line ''Transfer-Encoding: chunked''"
proof -
  have "utf8_lossy ''Transfer-Encoding: chunked'' = ''Transfer-Encoding: chunked''"
    by (intro utf8_lossy_valid ascii_valid) simp
  moreover have "trim_str ''Transfer-Encoding'' = ''Transfer-Encoding''"
    by (rule trim_str_trimmed) (simp add: trimmed_eval)
  moreover have "split_once '':'' ''Transfer-Encoding: chunked'' = Some (''Transfer-Encoding'', '' chunked'')" by simp
  ultimately show ?thesis by (simp add: plain_line_def ascii_lower_def lower_char_def)
qed

section \<open>Properties\<close>

text \<open>C19: A message is answered with an error and no backend is contacted unless its name belongs
  to a backend. Otherwise at most one request is written, to that backend's host; its body
  has the backend's own name for the tool and no client credential, and the idle connections
  of every other host stay as they are.\<close>
theorem http_call_confined:
  assumes "route k net backends body p = (out, p')" "c_dec k body = Inr message"
  shows "case http_target_of backends message of
      None \<Rightarrow> out = http_error_body k INVALID_PARAMS \<and> p' = p
    | Some (target, original) \<Rightarrow>
        (\<forall>key. key \<noteq> target_key target \<longrightarrow> idle_of key p' = idle_of key p) \<and>
        hp_wire p' \<in> {hp_wire p, hp_wire p @
          [(target_key target, post_request target (c_enc k (http_forwarded original message)))]} \<and>
        called_name (http_forwarded original message) = original \<and>
        Option.bind (Option.bind (jget ''params'' (http_forwarded original message)) (jget ''_meta''))
          (jget AUTHORIZATION_META_KEY) = None"
proof (cases "http_target_of backends message")
  case None
  then show ?thesis using assms by (simp add: route_def)
next
  case (Some x)
  obtain target original where x: "x = (target, original)" by force
  let ?m = "http_forwarded original message"
  obtain r p1 where r: "backend_post net target (c_enc k ?m) p = (r, p1)" by force
  have "p' = p1" using assms Some r x by (auto simp: route_def split: sum.splits)
  have "called_name message \<noteq> []"
    using Some by (auto simp: http_target_of_def ns_split_def DELIMITER_def)
  then obtain params name where n: "jget ''params'' message = Some params" "jget ''name'' params = Some name"
    by (auto simp: called_name_def split: option.splits bind_splits)
  then have ob: "is_object params" by (rule_tac jget_is_object)
  have "called_name ?m = original" "Option.bind (Option.bind (jget ''params'' ?m) (jget ''_meta'')) (jget AUTHORIZATION_META_KEY) = None"
    using n ob by (cases "jget ''_meta'' params";
        simp add: called_name_def http_forwarded_def json_simps forward_meta_def Let_def store_simps)+
  then show ?thesis
    using backend_post_confined [OF r] Some x \<open>p' = p1\<close> by simp
qed

theorem http_call_confined_witness:
  "let message = jobj [(''params'', jobj [(''name'', JStr ''git__log''),
         (''_meta'', jobj [(AUTHORIZATION_META_KEY, JStr ''Bearer x'')])])];
       k = \<lparr>c_enc = (\<lambda>v. called_name v), c_dec = (\<lambda>_. Inr message)\<rparr>;
       (out, p') = route k (answering_net (\<lambda>_. [])) [(''git'', tool_target)] ''body'' empty_pool
   in hp_wire p' \<in> {[], [(target_key tool_target, post_request tool_target ''log'')]}"
proof -
  let ?m = "jobj [(''params'', jobj [(''name'', JStr ''git__log''), (''_meta'', jobj [(AUTHORIZATION_META_KEY, JStr ''Bearer x'')])])]"
  let ?k = "\<lparr>c_enc = (\<lambda>v. called_name v), c_dec = (\<lambda>_. Inr ?m)\<rparr>"
  obtain out p' where r: "route ?k (answering_net (\<lambda>_. [])) [(''git'', tool_target)] ''body'' empty_pool = (out, p')" by force
  have "called_name ?m = ''git__log''" by (simp add: called_name_def json_simps)
  then have "http_target_of [(''git'', tool_target)] ?m = Some (tool_target, ''log'')"
    by (simp add: http_target_of_def ns_split_def DELIMITER_def)
  then have "hp_wire p' \<in> {[], [(target_key tool_target, post_request tool_target ''log'')]}"
    using http_call_confined [OF r, of ?m] by (auto simp: empty_pool_def)
  then show ?thesis by (simp add: r)
qed

text \<open>Keep-alive: over any sequence of posts, to any targets and with connections reused in
  whatever order, each post gets the answer to its own request, provided that every response
  says its length; and the connections stay clean.\<close>
theorem keepalive_posts:
  assumes "\<forall>key n. hn_connect net key n = None" "clean_pool p"
    and "\<forall>key n sent r. list_all plain_line (heads key r) \<and> length (reply key r) \<le> MAX_FRAME_BYTES \<and>
      hn_answer net key n (sent @ [r]) = Inr (framed_response (heads key r) (reply key r))"
  shows "fst (post_all net reqs p) = map (\<lambda>(t, b). Inr (reply (target_key t) (post_request t b))) reqs \<and>
    clean_pool (snd (post_all net reqs p))"
  using assms(2)
proof (induction reqs arbitrary: p)
  case (Cons x reqs)
  obtain t b where x: "x = (t, b)" by force
  obtain conn p1 where take: "take_conn net (target_key t) p = (Inr conn, p1)"
    using assms(1) unfolding take_conn_eq by (cases "idle_of (target_key t) p = []") auto
  note c = clean_take_conn [OF Cons.prems take]
  let ?conn = "conn\<lparr>kc_sent := kc_sent conn @ [post_request t b], kc_unread := []\<rparr>"
  let ?p = "put_conn (target_key t) ?conn (p1\<lparr>hp_wire := hp_wire p1 @ [(target_key t, post_request t b)]\<rparr>)"
  have "post_on net t b conn = Inr (reply (target_key t) (post_request t b), Some ?conn)"
    using c assms(3) by (intro post_on_framed [of _ "heads (target_key t) (post_request t b)"]) auto
  then have "backend_post net t b p = (Inr (reply (target_key t) (post_request t b)), ?p)"
    by (simp add: backend_post_def and_then_def take Let_def)
  moreover have "clean_pool ?p" using c by (intro clean_put_conn) (auto simp: clean_pool_def)
  ultimately show ?case using Cons.IH [of ?p] by (simp add: x post_all_Cons del: post_all.simps)
qed simp

theorem keepalive_posts_witness:
  "let net = answering_net (\<lambda>sent. framed_response [''HTTP/1.1 200 OK''] [digit_char (length (last sent) mod 10)]);
       size = (\<lambda>body. length (post_request tool_target body) mod 10)
   in fst (post_all net [(tool_target, ''a''), (tool_target, ''bb'')] empty_pool) =
        [Inr [digit_char (size ''a'')], Inr [digit_char (size ''bb'')]]"
proof -
  let ?net = "answering_net (\<lambda>sent. framed_response [''HTTP/1.1 200 OK''] [digit_char (length (last sent) mod 10)])"
  have "plain_line ''HTTP/1.1 200 OK''" by (rule ascii_plain_line) simp_all
  moreover have "clean_pool empty_pool" by (simp add: clean_pool_def idle_of_def empty_pool_def)
  ultimately show ?thesis
    using keepalive_posts [of ?net empty_pool "\<lambda>_ _. [''HTTP/1.1 200 OK'']" "\<lambda>_ r. [digit_char (length r mod 10)]"
        "[(tool_target, ''a''), (tool_target, ''bb'')]"]
    by (simp add: answering_net_def MAX_FRAME_BYTES_def Let_def del: post_all.simps)
qed

text \<open>A response that does not say its length (a chunked one, or one that ends with its
  connection) is answered to the client as empty, and the connection goes back to the pool
  with the body unread: the next post to that host gets whatever that body reads as, and not
  the answer to its own request.\<close>
theorem unframed_response_desyncs:
  assumes "idle_of (target_key t) p = []" "hn_connect net (target_key t) (hp_opened p) = None"
    and "list_all plain_line ls"
    and "hn_answer net (target_key t) (hp_opened p) [post_request t b1] = Inr (unframed_response ls junk)"
    and "hn_answer net (target_key t) (hp_opened p) [post_request t b1, post_request t b2] = Inr answer"
    and "read_message (junk @ answer) = (Inr (Some (wrong, accept)), left)"
  shows "fst (post_all net [(t, b1), (t, b2)] p) = [Inr [], Inr wrong]"
proof -
  let ?conn = "\<lparr>kc_serial = hp_opened p, kc_sent = [], kc_unread = []\<rparr>"
  let ?conn1 = "?conn\<lparr>kc_sent := [post_request t b1], kc_unread := junk\<rparr>"
  obtain p1 where take: "take_conn net (target_key t) p = (Inr ?conn, p1)" "idle_of (target_key t) p1 = []"
    using assms(1,2) by (auto simp: take_conn_eq idle_of_def)
  obtain a where "read_message (unframed_response ls junk) = (Inr (Some ([], a)), junk)"
    using read_unframed [OF assms(3)] by blast
  then have "post_on net t b1 ?conn = Inr ([], Some ?conn1)"
    using assms(4) by (simp add: post_on_def Let_def)
  then obtain p2 where 1: "backend_post net t b1 p = (Inr [], put_conn (target_key t) ?conn1 p2)"
      and p2: "idle_of (target_key t) p2 = []"
    using take by (simp add: backend_post_def and_then_def Let_def)
  have idle: "idle_of (target_key t) (put_conn (target_key t) ?conn1 p2) = [?conn1]"
    by (simp add: idle_of_put_conn p2)
  obtain p3 where "take_conn net (target_key t) (put_conn (target_key t) ?conn1 p2) = (Inr ?conn1, p3)"
    unfolding take_conn_eq idle by auto
  moreover have "\<exists>conn2. post_on net t b2 ?conn1 = Inr (wrong, Some conn2)"
    using assms(5,6) by (simp add: post_on_def Let_def)
  ultimately obtain p4 where 2: "backend_post net t b2 (put_conn (target_key t) ?conn1 p2) = (Inr wrong, p4)"
    by (auto simp: backend_post_def and_then_def Let_def)
  show ?thesis using post_all_Cons [OF 1] post_all_Cons [OF 2, of "[]"] by (simp del: post_all.simps(2))
qed

text \<open>A chunked answer to the first of two posts.\<close>

theorem unframed_response_desyncs_witness:
  "let chunked = unframed_response [''HTTP/1.1 200 OK'', ''Transfer-Encoding: chunked''] (header_block [''2'', ''{}'', ''0'']);
       own = framed_response [''HTTP/1.1 200 OK''] ''[]'';
       net = answering_net (\<lambda>sent. if length sent = 1 then chunked else own)
   in fst (post_all net [(tool_target, ''a''), (tool_target, ''b'')] empty_pool) = [Inr [], Inr []]"
proof -
  let ?junk = "header_block [''2'', ''{}'', ''0'']" and ?own = "framed_response [''HTTP/1.1 200 OK''] ''[]''"
  let ?chunked = "unframed_response [''HTTP/1.1 200 OK'', ''Transfer-Encoding: chunked''] ?junk"
  let ?net = "answering_net (\<lambda>sent. if length sent = 1 then ?chunked else ?own)"
  have l: "list_all plain_line [''HTTP/1.1 200 OK'', ''Transfer-Encoding: chunked'']"
    using ascii_plain_line [of "''HTTP/1.1 200 OK''"] encoding_plain_line by simp
  have "list_all plain_line [''2'', ''{}'', ''0'']" by (simp add: ascii_plain_line)
  then obtain a where "read_message (?junk @ ?own) = (Inr (Some ([], a)), ?own)"
    using read_unframed unfolding unframed_response_def by blast
  then have "fst (post_all ?net [(tool_target, ''a''), (tool_target, ''b'')] empty_pool) = [Inr [], Inr []]"
    by (intro unframed_response_desyncs [where ls = "[''HTTP/1.1 200 OK'', ''Transfer-Encoding: chunked'']" and
          junk = ?junk and answer = ?own and accept = a and left = ?own] l)
      (simp_all add: answering_net_def idle_of_def empty_pool_def)
  then show ?thesis by (simp add: Let_def del: post_all.simps)
qed

end
