(* ===== verification/HttpServer.thy ===== *)
theory HttpServer
  imports ServeHttp "HOL-Library.Sublist"
begin

text \<open>
  The server \<open>yamp-serve-http\<close> (\<open>src/src/bin/yamp-serve-http.rs\<close>) with all its client connections at
  once. They share the pool of keep-alive connections, whose lock is held only while a connection is
  taken out or put back. The connections to the backends are sockets: what is written to one and
  what has come back on it and is unread belong to the socket, whoever holds it. A turn of a
  client is three steps: it reads a message and takes a socket, it writes the request, it reads the
  answer and puts the socket back; between them any other client may take its own.
  \<open>http_serving\<close> takes the steps in any order; whether a connection opens and what a backend
  answers are free at each step. That a turn without a step in between is \<open>ServeHttp.route\<close> is a
  lemma below.
\<close>

section \<open>The sockets\<close>

text \<open>A socket: its host, each request written to it with what came of it (the write failed, or the
  bytes the backend answers; when they end inside a message it has closed), what is unread.\<close>

record http_socket =
  so_key :: host_key
  so_log :: "(str \<times> (io_error + str)) list"
  so_unread :: str

text \<open>All sockets ever opened, which of them are idle, and the hosts to which none opened.\<close>

record socket_pool =
  sp_sockets :: "http_socket list"
  sp_idle :: "(host_key, nat list) smap"
  sp_refused :: "host_key list"

definition take_socket :: "io_error option \<Rightarrow> host_key \<Rightarrow> (socket_pool, nat) action" where
  "take_socket connect key p =
     (case pop_idle key (sp_idle p) of
        Some (n, idle) \<Rightarrow> (Inr n, p\<lparr>sp_idle := idle\<rparr>)
      | None \<Rightarrow>
          (case connect of
             Some e \<Rightarrow> (Inl e, p\<lparr>sp_refused := sp_refused p @ [key]\<rparr>)
           | None \<Rightarrow>
               (Inr (length (sp_sockets p)),
                p\<lparr>sp_sockets := sp_sockets p @ [\<lparr>so_key = key, so_log = [], so_unread = []\<rparr>]\<rparr>)))"

section \<open>The clients\<close>

text \<open>A post that is under way, on the socket it took, before or after its request is written.\<close>

record http_post =
  ht_accept :: "str option"
  ht_target :: http_target
  ht_body :: str
  ht_conn :: nat
  ht_written :: bool

text \<open>A client: all it sends, what of it is unread, the answers it has been sent, and whether its end
  is closed to writes, which the server notices when it answers.\<close>

record http_client =
  hc_sends :: str
  hc_in :: str
  hc_out :: str
  hc_post :: "http_post option"
  hc_over :: bool
  hc_lost :: bool

record http_server =
  hs_pool :: socket_pool
  hs_clients :: "http_client list"

definition answer_client :: "str option \<Rightarrow> str \<Rightarrow> http_client \<Rightarrow> http_client" where
  "answer_client accept out c =
     (if hc_lost c then c\<lparr>hc_post := None, hc_over := True\<rparr>
      else c\<lparr>hc_out := hc_out c @ reply_head accept (length out) @ out, hc_post := None\<rparr>)"

text \<open>The three steps of a turn; \<open>connect\<close> is the error of opening a connection, should one be
  opened, and \<open>answer\<close> what comes of the write.\<close>

definition begin_turn ::
  "codec \<Rightarrow> (str, http_target) smap \<Rightarrow> io_error option \<Rightarrow> http_client \<Rightarrow> socket_pool \<Rightarrow> http_client \<times> socket_pool" where
  "begin_turn k backends connect c p =
     (case read_message (hc_in c) of
        (Inl e, rest) \<Rightarrow> (c\<lparr>hc_in := rest, hc_over := True\<rparr>, p)
      | (Inr None, rest) \<Rightarrow> (c\<lparr>hc_in := rest, hc_over := True\<rparr>, p)
      | (Inr (Some (body, accept)), rest) \<Rightarrow>
          (let c = c\<lparr>hc_in := rest\<rparr>
           in case c_dec k body of
                Inl e \<Rightarrow> (answer_client accept (http_error_body k INVALID_PARAMS) c, p)
              | Inr message \<Rightarrow>
                  (case http_target_of backends message of
                     None \<Rightarrow> (answer_client accept (http_error_body k INVALID_PARAMS) c, p)
                   | Some (target, original) \<Rightarrow>
                       (case take_socket connect (target_key target) p of
                          (Inl e, p) \<Rightarrow> (answer_client accept (http_error_body k SERVER_NOT_AVAILABLE) c, p)
                        | (Inr n, p) \<Rightarrow>
                            (c\<lparr>hc_post := Some \<lparr>ht_accept = accept, ht_target = target,
                               ht_body = c_enc k (http_forwarded original message), ht_conn = n,
                               ht_written = False\<rparr>\<rparr>, p)))))"

definition post_text :: "http_post \<Rightarrow> str" where
  "post_text x = post_request (ht_target x) (ht_body x)"

definition write_turn ::
  "codec \<Rightarrow> io_error + str \<Rightarrow> http_post \<Rightarrow> http_client \<Rightarrow> socket_pool \<Rightarrow> http_client \<times> socket_pool" where
  "write_turn k answer x c p =
     (let n = ht_conn x; s = sp_sockets p ! n; s = s\<lparr>so_log := so_log s @ [(post_text x, answer)]\<rparr>
      in case answer of
           Inl e \<Rightarrow>
             (answer_client (ht_accept x) (http_error_body k SERVER_NOT_AVAILABLE) c,
              p\<lparr>sp_sockets := (sp_sockets p)[n := s]\<rparr>)
         | Inr bytes \<Rightarrow>
             (c\<lparr>hc_post := Some (x\<lparr>ht_written := True\<rparr>)\<rparr>,
              p\<lparr>sp_sockets := (sp_sockets p)[n := s\<lparr>so_unread := so_unread s @ bytes\<rparr>]\<rparr>))"

definition read_turn :: "codec \<Rightarrow> http_post \<Rightarrow> http_client \<Rightarrow> socket_pool \<Rightarrow> http_client \<times> socket_pool" where
  "read_turn k x c p =
     (let n = ht_conn x; s = sp_sockets p ! n
      in case read_message (so_unread s) of
           (Inl e, _) \<Rightarrow> (answer_client (ht_accept x) (http_error_body k SERVER_NOT_AVAILABLE) c, p)
         | (Inr None, _) \<Rightarrow> (answer_client (ht_accept x) [] c, p)
         | (Inr (Some (response, _)), rest) \<Rightarrow>
             (answer_client (ht_accept x) response c,
              p\<lparr>sp_sockets := (sp_sockets p)[n := s\<lparr>so_unread := rest\<rparr>],
                sp_idle := push_idle (target_key (ht_target x)) n (sp_idle p)\<rparr>))"

section \<open>The server\<close>

definition http_server_start :: http_server where
  "http_server_start = \<lparr>hs_pool = \<lparr>sp_sockets = [], sp_idle = [], sp_refused = []\<rparr>, hs_clients = []\<rparr>"

definition http_accept :: "str \<Rightarrow> http_server \<Rightarrow> http_server" where
  "http_accept s w =
     w\<lparr>hs_clients := hs_clients w @ [\<lparr>hc_sends = s, hc_in = s, hc_out = [], hc_post = None,
       hc_over = False, hc_lost = False\<rparr>]\<rparr>"

definition client_turned :: "nat \<Rightarrow> http_client \<times> socket_pool \<Rightarrow> http_server \<Rightarrow> http_server" where
  "client_turned i out w = \<lparr>hs_pool = snd out, hs_clients = (hs_clients w)[i := fst out]\<rparr>"

inductive http_serving :: "codec \<Rightarrow> (str, http_target) smap \<Rightarrow> http_server \<Rightarrow> bool"
  for k backends where
  start: "http_serving k backends http_server_start"
| accept: "http_serving k backends w \<Longrightarrow> http_serving k backends (http_accept s w)"
| lost: "http_serving k backends w \<Longrightarrow> i < length (hs_clients w) \<Longrightarrow> c = hs_clients w ! i \<Longrightarrow>
    http_serving k backends (client_turned i (c\<lparr>hc_lost := True\<rparr>, hs_pool w) w)"
| reads: "\<lbrakk>http_serving k backends w; i < length (hs_clients w); c = hs_clients w ! i;
      hc_post c = None; \<not> hc_over c\<rbrakk>
    \<Longrightarrow> http_serving k backends (client_turned i (begin_turn k backends connect c (hs_pool w)) w)"
| writes: "\<lbrakk>http_serving k backends w; i < length (hs_clients w); c = hs_clients w ! i;
      hc_post c = Some x; \<not> ht_written x\<rbrakk>
    \<Longrightarrow> http_serving k backends (client_turned i (write_turn k answer x c (hs_pool w)) w)"
| answered: "\<lbrakk>http_serving k backends w; i < length (hs_clients w); c = hs_clients w ! i;
      hc_post c = Some x; ht_written x\<rbrakk>
    \<Longrightarrow> http_serving k backends (client_turned i (read_turn k x c (hs_pool w)) w)"

section \<open>What the clients are owed\<close>

text \<open>An answer of a backend that ends where the reader of messages takes it to end, so that nothing
  of it is left on the socket. One that says its length does.\<close>

definition delimited :: "io_error + str \<Rightarrow> bool" where
  "delimited answer =
     (case answer of
        Inl e \<Rightarrow> True
      | Inr bytes \<Rightarrow> (case read_message bytes of (Inr (Some _), rest) \<Rightarrow> rest = [] | _ \<Rightarrow> True))"

definition all_delimited :: "socket_pool \<Rightarrow> bool" where
  "all_delimited p \<longleftrightarrow> list_all (\<lambda>s. list_all (\<lambda>(_, answer). delimited answer) (so_log s)) (sp_sockets p)"

lemma framed_delimited:
  "list_all plain_line ls \<Longrightarrow> length body \<le> MAX_FRAME_BYTES \<Longrightarrow> delimited (Inr (framed_response ls body))"
  using read_framed [of ls body "[]"] by (auto simp: delimited_def)

text \<open>What a client is sent for what a backend answered.\<close>

definition answer_text :: "codec \<Rightarrow> io_error + str \<Rightarrow> str" where
  "answer_text k answer =
     (case answer of
        Inl e \<Rightarrow> http_error_body k SERVER_NOT_AVAILABLE
      | Inr bytes \<Rightarrow>
          (case fst (read_message bytes) of
             Inl e \<Rightarrow> http_error_body k SERVER_NOT_AVAILABLE
           | Inr None \<Rightarrow> []
           | Inr (Some (response, _)) \<Rightarrow> response))"

text \<open>\<open>out\<close> answers a message: the error of a message that goes nowhere, the error of a host that
  could not be connected, or what came of the request made from this very message, on a
  socket to the host it is for.\<close>

definition own_answer :: "codec \<Rightarrow> (str, http_target) smap \<Rightarrow> socket_pool \<Rightarrow> str \<Rightarrow> str \<Rightarrow> bool" where
  "own_answer k backends p body out =
     (case c_dec k body of
        Inl e \<Rightarrow> out = http_error_body k INVALID_PARAMS
      | Inr message \<Rightarrow>
          (case http_target_of backends message of
             None \<Rightarrow> out = http_error_body k INVALID_PARAMS
           | Some (target, original) \<Rightarrow>
               out = http_error_body k SERVER_NOT_AVAILABLE \<and> target_key target \<in> set (sp_refused p) \<or>
               (\<exists>s \<in> set (sp_sockets p). so_key s = target_key target \<and>
                  (\<exists>answer. (post_request target (c_enc k (http_forwarded original message)), answer) \<in> set (so_log s) \<and>
                     out = answer_text k answer))))"

text \<open>The replies to the messages at the start of \<open>s\<close>, one for each, in order; \<open>rest\<close> follows them.\<close>

fun replies_to :: "(str \<Rightarrow> str \<Rightarrow> bool) \<Rightarrow> str \<Rightarrow> (str option \<times> str) list \<Rightarrow> str \<Rightarrow> bool" where
  "replies_to own s [] rest = (rest = s)"
| "replies_to own s ((accept, out) # replies) rest =
     (case read_message s of
        (Inr (Some (body, a)), t) \<Rightarrow> a = accept \<and> own body out \<and> replies_to own t replies rest
      | _ \<Rightarrow> False)"

definition replies_text :: "(str option \<times> str) list \<Rightarrow> str" where
  "replies_text replies = concat (map (\<lambda>(accept, out). reply_head accept (length out) @ out) replies)"

definition no_message :: "str \<Rightarrow> bool" where
  "no_message s = (case read_message s of (Inr (Some _), _) \<Rightarrow> False | _ \<Rightarrow> True)"

section \<open>Lemmas: the sockets\<close>

definition idle_sockets :: "host_key \<Rightarrow> socket_pool \<Rightarrow> nat list" where
  "idle_sockets key p = unwrap_or (smap_get key (sp_idle p)) []"

lemma idle_sockets_simps [simp]:
  "idle_sockets key (p\<lparr>sp_sockets := ss\<rparr>) = idle_sockets key p"
  "idle_sockets key (p\<lparr>sp_refused := r\<rparr>) = idle_sockets key p"
  "idle_sockets key (p\<lparr>sp_idle := smap_put key' ns (sp_idle p)\<rparr>) = (if key = key' then ns else idle_sockets key p)"
  "idle_sockets key (p\<lparr>sp_sockets := ss, sp_idle := push_idle key' n (sp_idle p)\<rparr>) =
     (if key = key' then idle_sockets key p @ [n] else idle_sockets key p)"
  by (auto simp: idle_sockets_def push_idle_def store_simps)

text \<open>Idle sockets are distinct, of the host they are kept for, and have nothing to be read.\<close>

definition pool_ok :: "socket_pool \<Rightarrow> bool" where
  "pool_ok p \<longleftrightarrow>
     (\<forall>key. distinct (idle_sockets key p) \<and>
        (\<forall>n \<in> set (idle_sockets key p). n < length (sp_sockets p) \<and> so_key (sp_sockets p ! n) = key \<and>
           so_unread (sp_sockets p ! n) = []))"

text \<open>Sockets are only added, and what was written to them stays; only socket \<open>n\<close> has changed.\<close>

definition grown :: "socket_pool \<Rightarrow> socket_pool \<Rightarrow> bool" where
  "grown p p' \<longleftrightarrow> length (sp_sockets p) \<le> length (sp_sockets p') \<and>
     (\<forall>m < length (sp_sockets p). so_key (sp_sockets p' ! m) = so_key (sp_sockets p ! m) \<and>
        prefix (so_log (sp_sockets p ! m)) (so_log (sp_sockets p' ! m))) \<and>
     set (sp_refused p) \<subseteq> set (sp_refused p')"

definition only_at :: "nat \<Rightarrow> socket_pool \<Rightarrow> socket_pool \<Rightarrow> bool" where
  "only_at n p p' \<longleftrightarrow> length (sp_sockets p) \<le> length (sp_sockets p') \<and>
     (\<forall>m < length (sp_sockets p). m \<noteq> n \<longrightarrow> sp_sockets p' ! m = sp_sockets p ! m) \<and>
     (\<forall>key m. m \<noteq> n \<longrightarrow> m \<in> set (idle_sockets key p') \<longrightarrow> m \<in> set (idle_sockets key p))"

lemma take_socket_cases:
  assumes "take_socket connect key p = (r, p')"
  obtains (idle) ns n where "idle_sockets key p = ns @ [n]" "r = Inr n" "p' = p\<lparr>sp_idle := smap_put key ns (sp_idle p)\<rparr>"
  | (refused) e where "r = Inl e" "p' = p\<lparr>sp_refused := sp_refused p @ [key]\<rparr>"
  | (opened) "r = Inr (length (sp_sockets p))"
      "p' = p\<lparr>sp_sockets := sp_sockets p @ [\<lparr>so_key = key, so_log = [], so_unread = []\<rparr>]\<rparr>"
proof (cases "idle_sockets key p" rule: rev_cases)
  case Nil
  then show thesis using assms that(2,3)
    by (auto simp: take_socket_def pop_idle_eq idle_sockets_def [symmetric] Let_def split: option.splits)
next
  case (snoc ns n)
  then show thesis using assms that(1)
    by (auto simp: take_socket_def pop_idle_eq idle_sockets_def [symmetric] Let_def)
qed

text \<open>The socket taken is held by nobody else.\<close>

definition unheld :: "nat \<Rightarrow> socket_pool \<Rightarrow> bool" where
  "unheld n p \<longleftrightarrow> length (sp_sockets p) \<le> n \<or> n \<in> set (idle_sockets (so_key (sp_sockets p ! n)) p)"

lemma pool_okD:
  assumes "pool_ok p"
  shows "distinct (idle_sockets key p)"
    and "n \<in> set (idle_sockets key p) \<Longrightarrow>
      n < length (sp_sockets p) \<and> so_key (sp_sockets p ! n) = key \<and> so_unread (sp_sockets p ! n) = []"
  using assms by (auto simp: pool_ok_def)

lemma pool_okI:
  assumes "\<And>key. distinct (idle_sockets key p)"
    and "\<And>key n. n \<in> set (idle_sockets key p) \<Longrightarrow>
      n < length (sp_sockets p) \<and> so_key (sp_sockets p ! n) = key \<and> so_unread (sp_sockets p ! n) = []"
  shows "pool_ok p"
  using assms by (simp add: pool_ok_def)

lemma take_socket_ok:
  assumes "pool_ok p" "take_socket connect key p = (Inr n, p')"
  shows "pool_ok p' \<and> only_at n p p' \<and> unheld n p \<and> n < length (sp_sockets p') \<and> so_key (sp_sockets p' ! n) = key \<and>
    so_unread (sp_sockets p' ! n) = [] \<and> n \<notin> set (idle_sockets key p')"
  using assms(2)
proof (cases rule: take_socket_cases)
  case (idle ns m)
  then have n: "n = m" "n \<in> set (idle_sockets key p)" "distinct (ns @ [n])"
    using pool_okD(1) [OF assms(1), of key] by auto
  have sub: "set (idle_sockets key' p') \<subseteq> set (idle_sockets key' p)" for key' using idle by auto
  have same: "sp_sockets p' = sp_sockets p" by (simp add: idle(3))
  have "pool_ok p'"
  proof (rule pool_okI)
    show "distinct (idle_sockets key' p')" for key' using idle n(3) pool_okD(1) [OF assms(1)] by simp
    show "m < length (sp_sockets p') \<and> so_key (sp_sockets p' ! m) = key' \<and> so_unread (sp_sockets p' ! m) = []"
      if "m \<in> set (idle_sockets key' p')" for key' m
      using pool_okD(2) [OF assms(1) subsetD [OF sub that]] by (simp add: same)
  qed
  then show ?thesis
    using n idle(1) pool_okD(2) [OF assms(1) n(2)] by (auto simp: only_at_def unheld_def idle(3))
next
  case opened
  then have n: "n = length (sp_sockets p)" by simp
  have i: "idle_sockets key' p' = idle_sockets key' p" for key' by (simp add: opened(2))
  have less: "m < n" if "m \<in> set (idle_sockets key' p)" for m key'
    using pool_okD(2) [OF assms(1) that] n by simp
  have "pool_ok p'"
  proof (rule pool_okI)
    show "distinct (idle_sockets key' p')" for key' using pool_okD(1) [OF assms(1)] by (simp add: i)
    show "m < length (sp_sockets p') \<and> so_key (sp_sockets p' ! m) = key' \<and> so_unread (sp_sockets p' ! m) = []"
      if "m \<in> set (idle_sockets key' p')" for key' m
      using pool_okD(2) [OF assms(1) that [unfolded i]] by (simp add: opened(2) nth_append)
  qed
  then show ?thesis
    using less [of n key] by (auto simp: only_at_def unheld_def i) (simp_all add: opened(2) n nth_append)
qed simp

lemma nth_update: "m < length xs \<Longrightarrow> xs[n := s] ! m = (if m = n then s else xs ! m)"
  by (cases "n < length xs") auto

lemma grown_refl: "grown p p"
  by (simp add: grown_def)

lemma grown_update:
  assumes "so_key s = so_key (sp_sockets p ! n)" "prefix (so_log (sp_sockets p ! n)) (so_log s)"
  shows "grown p (p\<lparr>sp_sockets := (sp_sockets p)[n := s]\<rparr>)"
    "grown p (p\<lparr>sp_sockets := (sp_sockets p)[n := s], sp_idle := idle\<rparr>)"
  using assms by (simp_all add: grown_def nth_update)

lemma take_socket_grown: "take_socket connect key p = (r, p') \<Longrightarrow> grown p p'"
  by (erule take_socket_cases) (auto simp: grown_def nth_append)

lemma begin_grown: "grown p (snd (begin_turn k backends connect c p))"
  by (auto simp: begin_turn_def grown_refl Let_def take_socket_grown split: prod.splits sum.splits option.splits)

lemma write_grown: "grown p (snd (write_turn k answer x c p))"
  by (auto simp: write_turn_def Let_def intro!: grown_update split: sum.splits)

lemma read_grown: "grown p (snd (read_turn k x c p))"
  by (auto simp: read_turn_def Let_def grown_refl intro!: grown_update split: prod.splits sum.splits option.splits)

lemma grown_delimited:
  assumes "grown p p'" "all_delimited p'"
  shows "all_delimited p"
proof -
  have "list_all (\<lambda>(_, answer). delimited answer) (so_log (sp_sockets p ! m))" if m: "m < length (sp_sockets p)" for m
  proof -
    have "m < length (sp_sockets p')" using assms(1) m unfolding grown_def by linarith
    then have "list_all (\<lambda>(_, answer). delimited answer) (so_log (sp_sockets p' ! m))"
      using assms(2) by (simp add: all_delimited_def list_all_length)
    moreover obtain more where "so_log (sp_sockets p' ! m) = so_log (sp_sockets p ! m) @ more"
      using assms(1) m unfolding grown_def prefix_def by blast
    ultimately show ?thesis by simp
  qed
  then show ?thesis unfolding all_delimited_def by (subst list_all_length) blast
qed

lemma own_answer_grown:
  assumes "grown p p'" "own_answer k backends p body out"
  shows "own_answer k backends p' body out"
proof -
  have "\<exists>s' \<in> set (sp_sockets p'). so_key s' = so_key s \<and> set (so_log s) \<subseteq> set (so_log s')"
    if "s \<in> set (sp_sockets p)" for s
    using assms(1) that unfolding grown_def in_set_conv_nth [of s]
    by (metis less_le_trans nth_mem set_mono_prefix)
  then show ?thesis
    using assms unfolding own_answer_def grown_def
    by (auto split: sum.splits option.splits) (metis subsetD)+
qed

lemma replies_mono:
  assumes "\<And>body out. own body out \<Longrightarrow> own' body out"
  shows "replies_to own s replies rest \<Longrightarrow> replies_to own' s replies rest"
  using assms by (induction own s replies rest rule: replies_to.induct) (auto split: prod.splits sum.splits option.splits)

lemma replies_snoc:
  "replies_to own s replies rest \<Longrightarrow> read_message rest = (Inr (Some (body, accept)), t) \<Longrightarrow> own body out \<Longrightarrow>
     replies_to own s (replies @ [(accept, out)]) t"
  by (induction own s replies rest rule: replies_to.induct) (auto split: prod.splits sum.splits option.splits)

section \<open>Lemmas: a turn\<close>

text \<open>The socket of a post is its own; written, it has the answer to the post's request and no more.\<close>

definition post_ok :: "socket_pool \<Rightarrow> http_post \<Rightarrow> bool" where
  "post_ok p x \<longleftrightarrow>
     (let n = ht_conn x; s = sp_sockets p ! n
      in n < length (sp_sockets p) \<and> so_key s = target_key (ht_target x) \<and>
         n \<notin> set (idle_sockets (target_key (ht_target x)) p) \<and>
         (if ht_written x then \<exists>bytes. (post_text x, Inr bytes) \<in> set (so_log s) \<and> so_unread s = bytes
          else so_unread s = []))"

text \<open>What a client has not been answered yet: \<open>rest\<close>, with the message of its post at the start.\<close>

definition pending :: "codec \<Rightarrow> (str, http_target) smap \<Rightarrow> http_client \<Rightarrow> str \<Rightarrow> bool" where
  "pending k backends c rest \<longleftrightarrow>
     (case hc_post c of
        None \<Rightarrow> if hc_over c then no_message rest else rest = hc_in c
      | Some x \<Rightarrow> \<exists>body message original. read_message rest = (Inr (Some (body, ht_accept x)), hc_in c) \<and>
          c_dec k body = Inr message \<and> http_target_of backends message = Some (ht_target x, original) \<and>
          ht_body x = c_enc k (http_forwarded original message))"

definition client_ok :: "codec \<Rightarrow> (str, http_target) smap \<Rightarrow> socket_pool \<Rightarrow> http_client \<Rightarrow> bool" where
  "client_ok k backends p c \<longleftrightarrow>
     (case hc_post c of None \<Rightarrow> True | Some x \<Rightarrow> post_ok p x \<and> \<not> hc_over c) \<and>
     (\<exists>replies rest. hc_out c = replies_text replies \<and>
        replies_to (own_answer k backends p) (hc_sends c) replies rest \<and>
        (if hc_lost c then True else pending k backends c rest))"

lemma client_okI:
  assumes "case hc_post c of None \<Rightarrow> True | Some x \<Rightarrow> post_ok p x \<and> \<not> hc_over c"
    and "hc_out c = replies_text replies" "replies_to (own_answer k backends p) (hc_sends c) replies rest"
    and "hc_lost c \<or> pending k backends c rest"
  shows "client_ok k backends p c"
  using assms unfolding client_ok_def by auto

lemma client_okE:
  assumes "client_ok k backends p c" "grown p p'"
  obtains replies rest where "hc_out c = replies_text replies"
    "replies_to (own_answer k backends p') (hc_sends c) replies rest" "hc_lost c \<or> pending k backends c rest"
  using assms replies_mono [of "own_answer k backends p" "own_answer k backends p'"] own_answer_grown [OF assms(2)]
  unfolding client_ok_def by (metis (no_types, lifting))

text \<open>A client that holds another socket, or none, is as well off after the turn.\<close>

lemma client_ok_other:
  assumes "client_ok k backends p d" "grown p p'" "only_at n p p'"
    and "\<And>x. hc_post d = Some x \<Longrightarrow> ht_conn x \<noteq> n"
  shows "client_ok k backends p' d"
proof -
  obtain replies rest where r: "hc_out d = replies_text replies"
      "replies_to (own_answer k backends p') (hc_sends d) replies rest" "hc_lost d \<or> pending k backends d rest"
    by (rule client_okE [OF assms(1,2)])
  have "post_ok p' x \<and> \<not> hc_over d" if x: "hc_post d = Some x" for x
  proof -
    have o: "post_ok p x" "\<not> hc_over d" using assms(1) x by (simp_all add: client_ok_def)
    have n: "ht_conn x \<noteq> n" "ht_conn x < length (sp_sockets p)"
        "ht_conn x \<notin> set (idle_sockets (target_key (ht_target x)) p)"
      using assms(4) [OF x] o(1) by (simp_all add: post_ok_def Let_def)
    then have "ht_conn x < length (sp_sockets p')" "sp_sockets p' ! ht_conn x = sp_sockets p ! ht_conn x"
        "ht_conn x \<notin> set (idle_sockets (target_key (ht_target x)) p')"
      using assms(3) unfolding only_at_def by (linarith, blast, blast)
    then show ?thesis using o by (simp add: post_ok_def Let_def)
  qed
  then have "case hc_post d of None \<Rightarrow> True | Some x \<Rightarrow> post_ok p' x \<and> \<not> hc_over d" by (cases "hc_post d") simp_all
  then show ?thesis using r by (rule client_okI)
qed

text \<open>A client is answered with its own answer to the message it sent next.\<close>

lemma answered_ok:
  assumes "client_ok k backends p c" "grown p p'" "own_answer k backends p' body out" "\<not> hc_over c"
    and "\<And>rest. \<not> hc_lost c \<Longrightarrow> pending k backends c rest \<Longrightarrow> read_message rest = (Inr (Some (body, accept)), t)"
  shows "client_ok k backends p' (answer_client accept out (c\<lparr>hc_in := t\<rparr>))"
proof -
  obtain replies rest where r: "hc_out c = replies_text replies"
      "replies_to (own_answer k backends p') (hc_sends c) replies rest" "hc_lost c \<or> pending k backends c rest"
    by (rule client_okE [OF assms(1,2)])
  show ?thesis
  proof (cases "hc_lost c")
    case True
    then show ?thesis
      using r(1,2) by (intro client_okI [where replies = replies and rest = rest]) (simp_all add: answer_client_def)
  next
    case False
    have "pending k backends c rest" using r(3) False by simp
    note m = assms(5) [OF False this]
    show ?thesis
      using False r(1) assms(4) replies_snoc [OF r(2) m assms(3)]
      by (intro client_okI [where replies = "replies @ [(accept, out)]" and rest = t])
        (simp_all add: answer_client_def replies_text_def pending_def)
  qed
qed

definition turned_ok :: "codec \<Rightarrow> (str, http_target) smap \<Rightarrow> socket_pool \<Rightarrow> nat \<Rightarrow> http_client \<times> socket_pool \<Rightarrow> bool" where
  "turned_ok k backends p n out \<longleftrightarrow>
     pool_ok (snd out) \<and> only_at n p (snd out) \<and> client_ok k backends (snd out) (fst out) \<and>
     (case hc_post (fst out) of None \<Rightarrow> True | Some x \<Rightarrow> ht_conn x = n)"

lemma only_at_refl: "only_at n p p"
  by (simp add: only_at_def)

lemma answer_client_post [simp]: "hc_post (answer_client accept out c) = None"
  by (simp add: answer_client_def)

lemma begin_turn_ok:
  assumes "pool_ok p" "client_ok k backends p c" "hc_post c = None" "\<not> hc_over c"
  shows "\<exists>n. unheld n p \<and> turned_ok k backends p n (begin_turn k backends connect c p)"
proof -
  let ?n = "length (sp_sockets p)"
  have u: "unheld ?n p" by (simp add: unheld_def)
  obtain r t where r: "read_message (hc_in c) = (r, t)" by force
  have pend: "rest = hc_in c" if "pending k backends c rest" for rest
    using that assms(3,4) by (simp add: pending_def)
  show ?thesis
  proof (cases "\<exists>body accept. r = Inr (Some (body, accept))")
    case False
    obtain replies rest where o: "hc_out c = replies_text replies"
        "replies_to (own_answer k backends p) (hc_sends c) replies rest" "hc_lost c \<or> pending k backends c rest"
      by (rule client_okE [OF assms(2) grown_refl])
    have "no_message (hc_in c)" using False r by (auto simp: no_message_def split: sum.splits option.splits)
    then have "hc_lost c \<or> pending k backends (c\<lparr>hc_in := t, hc_over := True\<rparr>) rest"
      using o(3) assms(3,4) by (auto simp: pending_def)
    then have "client_ok k backends p (c\<lparr>hc_in := t, hc_over := True\<rparr>)"
      using o(1,2) assms(3) by (intro client_okI [where replies = replies and rest = rest]) simp_all
    moreover have "begin_turn k backends connect c p = (c\<lparr>hc_in := t, hc_over := True\<rparr>, p)"
      using False r by (auto simp: begin_turn_def split: sum.splits option.splits)
    ultimately show ?thesis using u assms(1,3) by (auto simp: turned_ok_def only_at_refl)
  next
    case True
    then obtain body accept where m: "read_message (hc_in c) = (Inr (Some (body, accept)), t)" using r by blast
    have ans: "client_ok k backends p' (answer_client accept out (c\<lparr>hc_in := t\<rparr>))"
      if "grown p p'" "own_answer k backends p' body out" for p' out
      using pend m by (intro answered_ok [OF assms(2) that assms(4)]) auto
    show ?thesis
    proof (cases "\<exists>message target original. c_dec k body = Inr message \<and> http_target_of backends message = Some (target, original)")
      case False
      then have "own_answer k backends p body (http_error_body k INVALID_PARAMS)"
        "begin_turn k backends connect c p = (answer_client accept (http_error_body k INVALID_PARAMS) (c\<lparr>hc_in := t\<rparr>), p)"
        by (auto simp: own_answer_def begin_turn_def m Let_def split: sum.splits option.splits)
      then show ?thesis using u ans [OF grown_refl] assms(1) by (auto simp: turned_ok_def only_at_refl)
    next
      case True
      then obtain message target original where tg: "c_dec k body = Inr message"
          "http_target_of backends message = Some (target, original)" by blast
      obtain q p' where take: "take_socket connect (target_key target) p = (q, p')" by force
      note g = take_socket_grown [OF take]
      show ?thesis
      proof (cases q)
        case (Inl e)
        then have p': "p' = p\<lparr>sp_refused := sp_refused p @ [target_key target]\<rparr>"
          using take by (auto elim: take_socket_cases)
        then have "own_answer k backends p' body (http_error_body k SERVER_NOT_AVAILABLE)"
          by (simp add: own_answer_def tg)
        moreover have "pool_ok p'" "only_at ?n p p'"
          using assms(1) by (simp_all add: p' pool_ok_def only_at_def)
        ultimately show ?thesis
          using u ans [OF g] by (intro exI [of _ ?n]) (simp add: turned_ok_def begin_turn_def m tg take Inl)
      next
        case (Inr n)
        note ok = take_socket_ok [OF assms(1) take [unfolded Inr]]
        let ?x = "\<lparr>ht_accept = accept, ht_target = target, ht_body = c_enc k (http_forwarded original message),
          ht_conn = n, ht_written = False\<rparr>"
        obtain replies rest where o: "hc_out c = replies_text replies"
            "replies_to (own_answer k backends p') (hc_sends c) replies rest" "hc_lost c \<or> pending k backends c rest"
          by (rule client_okE [OF assms(2) g])
        have "post_ok p' ?x" using ok by (simp add: post_ok_def)
        moreover have "hc_lost c \<or> pending k backends (c\<lparr>hc_in := t, hc_post := Some ?x\<rparr>) rest"
          using o(3) pend [of rest] m tg by (auto simp: pending_def)
        ultimately have "client_ok k backends p' (c\<lparr>hc_in := t, hc_post := Some ?x\<rparr>)"
          using o(1,2) assms(4) by (intro client_okI [where replies = replies and rest = rest]) simp_all
        then show ?thesis
          using ok by (intro exI [of _ n]) (simp add: turned_ok_def begin_turn_def m tg take Inr)
      qed
    qed
  qed
qed

lemma only_at_update:
  assumes "\<And>m. m \<noteq> n \<Longrightarrow> \<forall>key. m \<in> set (idle_sockets key p') \<longrightarrow> m \<in> set (idle_sockets key p)"
    and "sp_sockets p' = (sp_sockets p)[n := s]"
  shows "only_at n p p'"
  using assms by (simp add: only_at_def nth_update)

text \<open>A socket that a post holds may be written to and read; it is not idle.\<close>

lemma held_not_idle:
  assumes "pool_ok p" "post_ok p x"
  shows "ht_conn x \<notin> set (idle_sockets key p)"
proof
  assume i: "ht_conn x \<in> set (idle_sockets key p)"
  then have "key = target_key (ht_target x)"
    using pool_okD(2) [OF assms(1)] assms(2) by (simp add: post_ok_def Let_def)
  then show False using i assms(2) by (simp add: post_ok_def Let_def)
qed

lemma pool_ok_update:
  assumes "pool_ok p" "post_ok p x"
  shows "pool_ok (p\<lparr>sp_sockets := (sp_sockets p)[ht_conn x := s]\<rparr>)"
proof (rule pool_okI)
  fix key m
  assume "m \<in> set (idle_sockets key (p\<lparr>sp_sockets := (sp_sockets p)[ht_conn x := s]\<rparr>))"
  then have m: "m \<in> set (idle_sockets key p)" by simp
  then have "m \<noteq> ht_conn x" using held_not_idle [OF assms, of key] by auto
  then show "m < length (sp_sockets (p\<lparr>sp_sockets := (sp_sockets p)[ht_conn x := s]\<rparr>)) \<and>
      so_key (sp_sockets (p\<lparr>sp_sockets := (sp_sockets p)[ht_conn x := s]\<rparr>) ! m) = key \<and>
      so_unread (sp_sockets (p\<lparr>sp_sockets := (sp_sockets p)[ht_conn x := s]\<rparr>) ! m) = []"
    using pool_okD(2) [OF assms(1) m] by (simp add: nth_update)
qed (use pool_okD(1) [OF assms(1)] in simp)

lemma pool_ok_push:
  assumes "pool_ok p" "n < length (sp_sockets p)" "so_key (sp_sockets p ! n) = key" "so_unread (sp_sockets p ! n) = []"
    and "n \<notin> set (idle_sockets key p)"
  shows "pool_ok (p\<lparr>sp_idle := push_idle key n (sp_idle p)\<rparr>)"
proof (rule pool_okI)
  let ?p = "p\<lparr>sp_idle := push_idle key n (sp_idle p)\<rparr>"
  have i: "idle_sockets key' ?p = (if key' = key then idle_sockets key p @ [n] else idle_sockets key' p)" for key'
    by (simp add: push_idle_def idle_sockets_def [symmetric])
  show "distinct (idle_sockets key' ?p)" for key' using pool_okD(1) [OF assms(1)] assms(5) by (simp add: i)
  show "m < length (sp_sockets ?p) \<and> so_key (sp_sockets ?p ! m) = key' \<and> so_unread (sp_sockets ?p ! m) = []"
    if "m \<in> set (idle_sockets key' ?p)" for key' m
  proof (cases "m = n \<and> key' = key")
    case True
    then show ?thesis using assms(2-4) by simp
  next
    case False
    then have "m \<in> set (idle_sockets key' p)" using that by (auto simp: i split: if_splits)
    then show ?thesis using pool_okD(2) [OF assms(1)] by simp
  qed
qed

text \<open>An answer from a socket to the host of the post, for the post's own request, is the client's own.\<close>

lemma post_answer_own:
  assumes "pending k backends c rest" "hc_post c = Some x" "s \<in> set (sp_sockets p)" "so_key s = target_key (ht_target x)"
    and "(post_text x, answer) \<in> set (so_log s)"
  shows "\<exists>body. read_message rest = (Inr (Some (body, ht_accept x)), hc_in c) \<and>
    own_answer k backends p body (answer_text k answer)"
proof -
  obtain body message original where m: "read_message rest = (Inr (Some (body, ht_accept x)), hc_in c)"
      "c_dec k body = Inr message" "http_target_of backends message = Some (ht_target x, original)"
      "ht_body x = c_enc k (http_forwarded original message)"
    using assms(1,2) by (auto simp: pending_def)
  have "own_answer k backends p body (answer_text k answer)"
    using assms(3-5) m(2,3) by (auto simp: own_answer_def post_text_def m(4))
  then show ?thesis using m(1) by blast
qed

lemma post_answered_ok:
  assumes "client_ok k backends p c" "hc_post c = Some x" "grown p p'" "n < length (sp_sockets p')"
    and "so_key (sp_sockets p' ! n) = target_key (ht_target x)" "(post_text x, answer) \<in> set (so_log (sp_sockets p' ! n))"
  shows "client_ok k backends p' (answer_client (ht_accept x) (answer_text k answer) c)"
proof (cases "hc_lost c")
  case True
  obtain replies rest where r: "hc_out c = replies_text replies"
      "replies_to (own_answer k backends p') (hc_sends c) replies rest"
    by (rule client_okE [OF assms(1,3)])
  then show ?thesis
    using True by (intro client_okI [where replies = replies and rest = rest]) (simp_all add: answer_client_def)
next
  case False
  obtain replies rest where r: "hc_out c = replies_text replies"
      "replies_to (own_answer k backends p') (hc_sends c) replies rest" "hc_lost c \<or> pending k backends c rest"
    by (rule client_okE [OF assms(1,3)])
  then have "pending k backends c rest" using False by simp
  then obtain body where m: "read_message rest = (Inr (Some (body, ht_accept x)), hc_in c)"
      "own_answer k backends p' body (answer_text k answer)"
    using post_answer_own [OF _ assms(2) nth_mem [OF assms(4)] assms(5,6)] by blast
  have "\<not> hc_over c" using assms(1,2) by (simp add: client_ok_def)
  then show ?thesis
    using False r(1) replies_snoc [OF r(2) m]
    by (intro client_okI [where replies = "replies @ [(ht_accept x, answer_text k answer)]" and rest = "hc_in c"])
      (simp_all add: answer_client_def replies_text_def pending_def)
qed

lemma write_turn_ok:
  assumes "pool_ok p" "client_ok k backends p c" "hc_post c = Some x" "\<not> ht_written x"
  shows "turned_ok k backends p (ht_conn x) (write_turn k answer x c p)"
proof -
  let ?n = "ht_conn x" and ?s = "sp_sockets p ! ht_conn x"
  have x: "post_ok p x" "\<not> hc_over c" using assms(2,3) by (simp_all add: client_ok_def)
  have n: "?n < length (sp_sockets p)" "so_key ?s = target_key (ht_target x)" "so_unread ?s = []"
      "?n \<notin> set (idle_sockets (target_key (ht_target x)) p)"
    using x(1) assms(4) by (simp_all add: post_ok_def Let_def)
  have at: "pool_ok (p\<lparr>sp_sockets := (sp_sockets p)[?n := s]\<rparr>)" "only_at ?n p (p\<lparr>sp_sockets := (sp_sockets p)[?n := s]\<rparr>)" for s
    using pool_ok_update [OF assms(1) x(1)] by (simp, intro only_at_update) simp_all
  have g: "grown p (p\<lparr>sp_sockets := (sp_sockets p)[?n := s]\<rparr>)"
    if "so_key s = so_key ?s" "prefix (so_log ?s) (so_log s)" for s
    using that by (rule grown_update)
  show ?thesis
  proof (cases answer)
    case (Inl e)
    let ?t = "?s\<lparr>so_log := so_log ?s @ [(post_text x, answer)]\<rparr>"
    have "client_ok k backends (p\<lparr>sp_sockets := (sp_sockets p)[?n := ?t]\<rparr>) (answer_client (ht_accept x) (answer_text k answer) c)"
      by (rule post_answered_ok [OF assms(2,3) g, of _ ?n]) (use n in simp_all)
    then show ?thesis using at by (simp add: turned_ok_def write_turn_def Let_def Inl answer_text_def)
  next
    case (Inr bytes)
    let ?t = "?s\<lparr>so_log := so_log ?s @ [(post_text x, answer)], so_unread := so_unread ?s @ bytes\<rparr>"
    let ?p = "p\<lparr>sp_sockets := (sp_sockets p)[?n := ?t]\<rparr>" and ?x = "x\<lparr>ht_written := True\<rparr>"
    have gp: "grown p ?p" by (rule g) simp_all
    obtain replies rest where o: "hc_out c = replies_text replies"
        "replies_to (own_answer k backends ?p) (hc_sends c) replies rest" "hc_lost c \<or> pending k backends c rest"
      by (rule client_okE [OF assms(2) gp])
    have "post_ok ?p ?x" using n by (simp add: post_ok_def post_text_def Inr)
    moreover have "hc_lost c \<or> pending k backends (c\<lparr>hc_post := Some ?x\<rparr>) rest"
      using o(3) assms(3) by (auto simp: pending_def)
    ultimately have "client_ok k backends ?p (c\<lparr>hc_post := Some ?x\<rparr>)"
      using o(1,2) x(2) by (intro client_okI [where replies = replies and rest = rest]) simp_all
    moreover have "?s\<lparr>so_log := so_log ?s @ [(post_text x, answer)]\<rparr>\<lparr>so_unread := so_unread ?s @ bytes\<rparr> = ?t" by simp
    ultimately show ?thesis using at by (simp add: turned_ok_def write_turn_def Let_def Inr)
  qed
qed

lemma read_turn_ok:
  assumes "pool_ok p" "client_ok k backends p c" "hc_post c = Some x" "ht_written x" "all_delimited p"
  shows "turned_ok k backends p (ht_conn x) (read_turn k x c p)"
proof -
  let ?n = "ht_conn x" and ?s = "sp_sockets p ! ht_conn x" and ?key = "target_key (ht_target x)"
  have x: "post_ok p x" using assms(2,3) by (simp add: client_ok_def)
  then obtain bytes where n: "?n < length (sp_sockets p)" "so_key ?s = ?key" "so_unread ?s = bytes"
      "?n \<notin> set (idle_sockets ?key p)" "(post_text x, Inr bytes) \<in> set (so_log ?s)"
    using assms(4) by (auto simp: post_ok_def Let_def)
  have d: "delimited (Inr bytes)"
    using assms(5) n(5) nth_mem [OF n(1)] unfolding all_delimited_def list_all_iff by fastforce
  have ans: "client_ok k backends p' (answer_client (ht_accept x) (answer_text k (Inr bytes)) c)"
    if "grown p p'" "?n < length (sp_sockets p')" "so_key (sp_sockets p' ! ?n) = ?key"
      "(post_text x, Inr bytes) \<in> set (so_log (sp_sockets p' ! ?n))" for p'
    using post_answered_ok [OF assms(2,3) that] .
  obtain r rest where r: "read_message bytes = (r, rest)" by force
  show ?thesis
  proof (cases "\<exists>response a. r = Inr (Some (response, a))")
    case False
    then have "read_turn k x c p = (answer_client (ht_accept x) (answer_text k (Inr bytes)) c, p)"
      using r by (auto simp: read_turn_def n(3) answer_text_def Let_def split: sum.splits option.splits)
    then show ?thesis using ans [OF grown_refl] n assms(1) by (simp add: turned_ok_def only_at_refl)
  next
    case True
    then obtain response a where m: "r = Inr (Some (response, a))" by blast
    then have "rest = []" using d r by (simp add: delimited_def)
    let ?t = "?s\<lparr>so_unread := []\<rparr>"
    let ?q = "p\<lparr>sp_sockets := (sp_sockets p)[?n := ?t]\<rparr>"
    let ?p = "p\<lparr>sp_sockets := (sp_sockets p)[?n := ?t], sp_idle := push_idle ?key ?n (sp_idle p)\<rparr>"
    have q: "?p = ?q\<lparr>sp_idle := push_idle ?key ?n (sp_idle ?q)\<rparr>" by simp
    have "pool_ok ?p"
      unfolding q using n by (intro pool_ok_push pool_ok_update [OF assms(1) x]) simp_all
    moreover have "only_at ?n p ?p" by (rule only_at_update [where s = ?t]) (auto split: if_splits)
    moreover have "client_ok k backends ?p (answer_client (ht_accept x) (answer_text k (Inr bytes)) c)"
      using n by (intro ans grown_update) simp_all
    moreover have "read_turn k x c p = (answer_client (ht_accept x) (answer_text k (Inr bytes)) c, ?p)"
      by (simp add: read_turn_def n(3) r m \<open>rest = []\<close> answer_text_def Let_def)
    ultimately show ?thesis by (simp add: turned_ok_def)
  qed
qed

section \<open>One connection by itself\<close>

text \<open>The sockets of the server as the pool of \<open>ServeHttp\<close>, which has no others at work on it.\<close>

definition conn_of :: "socket_pool \<Rightarrow> nat \<Rightarrow> backend_conn" where
  "conn_of p n =
     \<lparr>kc_serial = n, kc_sent = map fst (so_log (sp_sockets p ! n)), kc_unread = so_unread (sp_sockets p ! n)\<rparr>"

definition same_pool :: "socket_pool \<Rightarrow> http_pool \<Rightarrow> bool" where
  "same_pool p q \<longleftrightarrow> (\<forall>key. idle_of key q = map (conn_of p) (idle_sockets key p)) \<and> hp_opened q = length (sp_sockets p)"

lemma same_pool_idle: "same_pool p q \<Longrightarrow> idle_of key q = map (conn_of p) (idle_sockets key p)"
  by (simp add: same_pool_def)

lemma take_same:
  assumes "pool_ok p" "same_pool p q" "take_socket (hn_connect net key (length (sp_sockets p))) key p = (r, p')"
    and "take_conn net key q = (r', q')"
  shows "same_pool p' q' \<and> r' = (case r of Inl e \<Rightarrow> Inl e | Inr n \<Rightarrow> Inr (conn_of p' n))"
  using assms(3)
proof (cases rule: take_socket_cases)
  case (idle ns n)
  have "conn_of p' = conn_of p" by (rule ext) (simp add: conn_of_def idle(3))
  moreover have "idle_of key q = map (conn_of p) ns @ [conn_of p n]" by (simp add: same_pool_idle [OF assms(2)] idle(1))
  then have "take_conn net key q =
      (Inr (conn_of p n), q\<lparr>hp_idle := smap_put key (map (conn_of p) ns) (hp_idle q)\<rparr>)"
    by (simp add: take_conn_eq)
  ultimately show ?thesis
    using assms(2,4) by (simp add: same_pool_def idle(2,3) idle_of_put split: if_splits)
next
  case (refused e)
  have "idle_sockets key p = []" "hn_connect net key (length (sp_sockets p)) = Some e"
    using assms(3) refused
    by (auto simp: take_socket_def pop_idle_eq idle_sockets_def Let_def split: option.splits if_splits)
  moreover have "conn_of p' = conn_of p" by (rule ext) (simp add: conn_of_def refused(2))
  ultimately show ?thesis
    using assms(2,4) refused by (simp add: take_conn_eq same_pool_def)
next
  case opened
  have last: "last (idle_sockets key p) \<noteq> length (sp_sockets p)" if "idle_sockets key p \<noteq> []"
    using pool_okD(2) [OF assms(1) last_in_set [OF that]] by simp
  have "idle_sockets key p = []" "hn_connect net key (length (sp_sockets p)) = None"
    using assms(3) opened last
    by (auto simp: take_socket_def pop_idle_eq idle_sockets_def Let_def split: option.splits if_splits)
  moreover have "map (conn_of p') (idle_sockets key' p) = map (conn_of p) (idle_sockets key' p)" for key'
    using pool_okD(2) [OF assms(1)] by (simp add: conn_of_def opened(2) nth_append)
  ultimately show ?thesis
    using assms(2,4) opened by (auto simp: take_conn_eq same_pool_def idle_of_def) (simp add: conn_of_def)
qed

lemma update_same:
  assumes "same_pool p q" "\<And>key. n \<notin> set (idle_sockets key p)"
  shows "same_pool (p\<lparr>sp_sockets := (sp_sockets p)[n := s]\<rparr>) (q\<lparr>hp_wire := wire\<rparr>)"
proof -
  have "conn_of (p\<lparr>sp_sockets := (sp_sockets p)[n := s]\<rparr>) m = conn_of p m" if "m \<in> set (idle_sockets key p)" for m key
    using that assms(2) [of key] by (cases "m = n") (simp_all add: conn_of_def)
  then have "map (conn_of (p\<lparr>sp_sockets := (sp_sockets p)[n := s]\<rparr>)) (idle_sockets key p) = map (conn_of p) (idle_sockets key p)" for key
    by (intro map_cong) auto
  then show ?thesis using assms(1) by (simp add: same_pool_def)
qed

lemma push_same:
  assumes "same_pool p q" "conn_of p n = conn"
  shows "same_pool (p\<lparr>sp_idle := push_idle key n (sp_idle p)\<rparr>) (put_conn key conn q)"
proof -
  let ?p = "p\<lparr>sp_idle := push_idle key n (sp_idle p)\<rparr>"
  have i: "idle_sockets key' ?p = (if key' = key then idle_sockets key p @ [n] else idle_sockets key' p)" for key'
    by (simp add: push_idle_def idle_sockets_def [symmetric])
  have "conn_of ?p = conn_of p" by (rule ext) (simp add: conn_of_def)
  then have "idle_of key' (put_conn key conn q) = map (conn_of ?p) (idle_sockets key' ?p)" for key'
    using same_pool_idle [OF assms(1)] assms(2) by (simp only: i idle_of_put_conn) simp
  then show ?thesis using assms(1) by (simp add: same_pool_def put_conn_def)
qed

text \<open>A turn with nothing in between is one iteration of \<open>http_connection\<close>.\<close>

lemma lone_turn:
  assumes "pool_ok p" "same_pool p q" "read_message (hc_in c) = (Inr (Some (body, accept)), t)"
    and "c_dec k body = Inr message" "http_target_of backends message = Some (target, original)"
    and "begin_turn k backends (hn_connect net (target_key target) (length (sp_sockets p))) c p = (c1, p1)"
    and "hc_post c = None" "route k net backends body q = (out, q')"
  shows "case hc_post c1 of
      None \<Rightarrow> c1 = answer_client accept out (c\<lparr>hc_in := t\<rparr>) \<and> same_pool p1 q'
    | Some x \<Rightarrow>
        (let sent = map fst (so_log (sp_sockets p1 ! ht_conn x)) @ [post_text x];
             (c2, p2) = write_turn k (hn_answer net (target_key target) (ht_conn x) sent) x c1 p1;
             (c3, p3) = (case hc_post c2 of None \<Rightarrow> (c2, p2) | Some y \<Rightarrow> read_turn k y c2 p2)
         in c3 = answer_client accept out (c\<lparr>hc_in := t\<rparr>) \<and> same_pool p3 q')"
proof -
  let ?key = "target_key target" and ?body = "c_enc k (http_forwarded original message)"
  obtain r p0 where take: "take_socket (hn_connect net ?key (length (sp_sockets p))) ?key p = (r, p0)" by force
  obtain r' q0 where conn: "take_conn net ?key q = (r', q0)" by force
  note same = take_same [OF assms(1,2) take conn]
  show ?thesis
  proof (cases r)
    case (Inl e)
    then show ?thesis
      using assms(6,8) same by (auto simp: begin_turn_def route_def backend_post_def and_then_def assms(3-5) take conn)
  next
    case (Inr n)
    note ok = take_socket_ok [OF assms(1) take [unfolded Inr]]
    define x where "x = \<lparr>ht_accept = accept, ht_target = target, ht_body = ?body, ht_conn = n, ht_written = False\<rparr>"
    have x: "ht_accept x = accept" "ht_target x = target" "ht_conn x = n" "post_text x = post_request target ?body"
      by (simp_all add: x_def post_text_def)
    have c1: "c1 = c\<lparr>hc_in := t, hc_post := Some x\<rparr>" "p1 = p0"
      using assms(6) by (auto simp: begin_turn_def assms(3-5) take Inr x_def)
    have "post_ok p0 x" using ok by (simp add: post_ok_def x_def)
    then have free: "n \<notin> set (idle_sockets key p0)" for key using held_not_idle [of p0 x key] ok by (simp add: x_def)
    have n: "n < length (sp_sockets p0)" using ok by blast
    have r': "r' = Inr (conn_of p0 n)" "same_pool p0 q0" using same Inr by simp_all
    let ?sent = "map fst (so_log (sp_sockets p0 ! n)) @ [post_text x]" and ?wire = "hp_wire q0 @ [(?key, post_text x)]"
    have upd: "same_pool (p0\<lparr>sp_sockets := (sp_sockets p0)[n := s]\<rparr>) (q0\<lparr>hp_wire := w\<rparr>)" for s w
      by (rule update_same [OF r'(2) free])
    show ?thesis
    proof (cases "hn_answer net ?key n ?sent")
      case e: (Inl e)
      then have "out = http_error_body k SERVER_NOT_AVAILABLE" "q' = q0\<lparr>hp_wire := ?wire\<rparr>"
        using assms(8) by (auto simp: route_def assms(4,5) backend_post_def and_then_def conn r' Let_def post_on_def conn_of_def x)
      then show ?thesis
        using upd by (simp add: c1 x write_turn_def Let_def e [simplified x] answer_client_def)
    next
      case b: (Inr bytes)
      let ?unread = "so_unread (sp_sockets p0 ! n) @ bytes"
      obtain m rest where m: "read_message ?unread = (m, rest)" by force
      define s where "s = (sp_sockets p0 ! n)\<lparr>so_log := so_log (sp_sockets p0 ! n) @ [(post_text x, Inr bytes)], so_unread := ?unread\<rparr>"
      define p2 where "p2 = p0\<lparr>sp_sockets := (sp_sockets p0)[n := s]\<rparr>"
      define y where "y = x\<lparr>ht_written := True\<rparr>"
      have w: "write_turn k (hn_answer net ?key n ?sent) x c1 p0 = (c1\<lparr>hc_post := Some y\<rparr>, p2)"
        unfolding b by (simp add: write_turn_def Let_def x(3) s_def p2_def y_def)
      have sn: "sp_sockets p2 ! n = s" "so_unread s = ?unread" "ht_conn y = n" "ht_accept y = accept" "ht_target y = target"
        using n by (simp_all add: p2_def s_def y_def x)
      have ans: "answer_client accept z (c1\<lparr>hc_post := Some y\<rparr>) = answer_client accept z (c\<lparr>hc_in := t\<rparr>)" for z
        using assms(7) by (simp add: answer_client_def c1)
      show ?thesis
      proof (cases "\<exists>response a. m = Inr (Some (response, a))")
        case False
        then have rd: "read_turn k y (c1\<lparr>hc_post := Some y\<rparr>) p2 = (answer_client accept out (c\<lparr>hc_in := t\<rparr>), p2)"
          "q' = q0\<lparr>hp_wire := ?wire\<rparr>"
          using assms(8) m ans
          by (auto simp: read_turn_def sn Let_def route_def assms(4,5) backend_post_def and_then_def conn r' post_on_def conn_of_def
              b [unfolded x] x split: sum.splits option.splits)
        then show ?thesis using upd by (simp add: c1 x(3) w [unfolded c1] p2_def)
      next
        case True
        then obtain response a where resp: "m = Inr (Some (response, a))" by blast
        let ?p = "p2\<lparr>sp_sockets := (sp_sockets p2)[n := s\<lparr>so_unread := rest\<rparr>], sp_idle := push_idle ?key n (sp_idle p2)\<rparr>"
        have rd: "read_turn k y (c1\<lparr>hc_post := Some y\<rparr>) p2 = (answer_client accept response (c\<lparr>hc_in := t\<rparr>), ?p)"
          using m resp ans by (simp add: read_turn_def sn Let_def)
        let ?q = "q0\<lparr>hp_wire := ?wire\<rparr>" and ?r = "p0\<lparr>sp_sockets := (sp_sockets p0)[n := s\<lparr>so_unread := rest\<rparr>]\<rparr>"
        let ?conn = "(conn_of p0 n)\<lparr>kc_sent := ?sent, kc_unread := rest\<rparr>"
        have q': "out = response" "q' = put_conn ?key ?conn ?q"
          using assms(8) m resp
          by (auto simp: route_def assms(4,5) backend_post_def and_then_def conn r' post_on_def conn_of_def Let_def b [unfolded x] x)
        have p: "?p = ?r\<lparr>sp_idle := push_idle ?key n (sp_idle ?r)\<rparr>"
          by (simp add: p2_def)
        have same0: "same_pool ?r ?q" by (rule upd)
        have "conn_of ?r n = ?conn" using n by (simp add: conn_of_def s_def)
        then have "same_pool ?p q'" unfolding q'(2) p by (rule push_same [OF same0])
        then show ?thesis using rd by (simp add: c1 x(3) w [unfolded c1] q'(1))
      qed
    qed
  qed
qed

section \<open>Lemmas: the server\<close>

definition serving_ok :: "codec \<Rightarrow> (str, http_target) smap \<Rightarrow> http_server \<Rightarrow> bool" where
  "serving_ok k backends w \<longleftrightarrow>
     pool_ok (hs_pool w) \<and> (\<forall>c \<in> set (hs_clients w). client_ok k backends (hs_pool w) c) \<and>
     (\<forall>i j x y. i < length (hs_clients w) \<longrightarrow> j < length (hs_clients w) \<longrightarrow> i \<noteq> j \<longrightarrow>
        hc_post (hs_clients w ! i) = Some x \<longrightarrow> hc_post (hs_clients w ! j) = Some y \<longrightarrow> ht_conn x \<noteq> ht_conn y)"

lemma serving_okD:
  assumes "serving_ok k backends w" "i < length (hs_clients w)"
  shows "client_ok k backends (hs_pool w) (hs_clients w ! i)"
    and "\<lbrakk>j < length (hs_clients w); i \<noteq> j; hc_post (hs_clients w ! i) = Some x; hc_post (hs_clients w ! j) = Some y\<rbrakk>
      \<Longrightarrow> ht_conn x \<noteq> ht_conn y"
  using assms unfolding serving_ok_def by (simp, metis)

text \<open>An unheld socket is held by no post.\<close>

lemma unheld_not_held:
  assumes "serving_ok k backends w" "i < length (hs_clients w)" "unheld n (hs_pool w)" "hc_post (hs_clients w ! i) = Some x"
  shows "ht_conn x \<noteq> n"
proof
  assume n: "ht_conn x = n"
  have "post_ok (hs_pool w) x" using serving_okD(1) [OF assms(1,2)] assms(4) by (simp add: client_ok_def)
  then show False using assms(3) n by (auto simp: unheld_def post_ok_def Let_def)
qed

text \<open>A turn of one client on a socket that no other client holds.\<close>

lemma turn_serving_ok:
  assumes "serving_ok k backends w" "i < length (hs_clients w)" "turned_ok k backends (hs_pool w) n out"
    and "grown (hs_pool w) (snd out)"
    and "\<And>j x. j < length (hs_clients w) \<Longrightarrow> j \<noteq> i \<Longrightarrow> hc_post (hs_clients w ! j) = Some x \<Longrightarrow> ht_conn x \<noteq> n"
  shows "serving_ok k backends (client_turned i out w)"
proof -
  let ?w = "client_turned i out w" and ?cs = "hs_clients w"
  have t: "pool_ok (snd out)" "only_at n (hs_pool w) (snd out)" "client_ok k backends (snd out) (fst out)"
      "\<And>x. hc_post (fst out) = Some x \<Longrightarrow> ht_conn x = n"
    using assms(3) by (auto simp: turned_ok_def)
  have cl: "hs_clients ?w ! j = (if j = i then fst out else ?cs ! j)" if "j < length ?cs" for j
    using that by (simp add: client_turned_def nth_update)
  have len: "length (hs_clients ?w) = length ?cs" by (simp add: client_turned_def)
  have "client_ok k backends (snd out) (hs_clients ?w ! j)" if j: "j < length ?cs" for j
  proof (cases "j = i")
    case True
    then show ?thesis using t(3) cl [OF j] by simp
  next
    case False
    then show ?thesis
      using client_ok_other [OF serving_okD(1) [OF assms(1) j] assms(4) t(2)] assms(5) [OF j] cl [OF j] by auto
  qed
  moreover have "hs_pool ?w = snd out" by (simp add: client_turned_def)
  ultimately have "\<forall>c \<in> set (hs_clients ?w). client_ok k backends (hs_pool ?w) c"
    using len by (metis in_set_conv_nth)
  moreover have "ht_conn x \<noteq> ht_conn y"
    if "a < length ?cs" "b < length ?cs" "a \<noteq> b" "hc_post (hs_clients ?w ! a) = Some x" "hc_post (hs_clients ?w ! b) = Some y"
    for a b x y
    using that cl t(4) assms(5) serving_okD(2) [OF assms(1)] by (metis (full_types))
  ultimately show ?thesis using t(1) len \<open>hs_pool ?w = snd out\<close> unfolding serving_ok_def by auto
qed

lemma serving_invariant:
  assumes "http_serving k backends w" "all_delimited (hs_pool w)"
  shows "serving_ok k backends w"
  using assms
proof induction
  case start
  then show ?case by (simp add: serving_ok_def http_server_start_def pool_ok_def idle_sockets_def)
next
  case (accept w s)
  then have ok: "serving_ok k backends w" by (simp add: http_accept_def)
  have "client_ok k backends (hs_pool w) \<lparr>hc_sends = s, hc_in = s, hc_out = [], hc_post = None, hc_over = False, hc_lost = False\<rparr>"
    by (rule client_okI [where replies = "[]" and rest = s]) (simp_all add: replies_text_def pending_def)
  moreover have "(hs_clients w @ [c]) ! i = (if i < length (hs_clients w) then hs_clients w ! i else c)"
    if "i < Suc (length (hs_clients w))" for i c
    using that by (simp add: nth_append)
  ultimately show ?case
    using ok unfolding serving_ok_def by (auto simp: http_accept_def split: if_splits)
next
  case (lost w i c)
  then have ok: "serving_ok k backends w" by (simp add: client_turned_def)
  have c: "client_ok k backends (hs_pool w) c" using serving_okD(1) [OF ok lost.hyps(2)] lost.hyps(3) by simp
  then obtain replies rest where "hc_out c = replies_text replies"
      "replies_to (own_answer k backends (hs_pool w)) (hc_sends c) replies rest"
    by (rule client_okE [OF _ grown_refl])
  then have "client_ok k backends (hs_pool w) (c\<lparr>hc_lost := True\<rparr>)"
    using c by (intro client_okI [where replies = replies and rest = rest]) (simp_all add: client_ok_def split: option.splits)
  then show ?case
    using ok lost.hyps(2,3)
    by (auto simp: serving_ok_def client_turned_def nth_update dest!: subsetD [OF set_update_subset_insert])
next
  case (reads w i c connect)
  have ok: "serving_ok k backends w"
    using reads.IH reads.prems grown_delimited [OF begin_grown] by (simp add: client_turned_def)
  have "pool_ok (hs_pool w)" "client_ok k backends (hs_pool w) c"
    using ok serving_okD(1) [OF ok reads.hyps(2)] reads.hyps(3) by (simp_all add: serving_ok_def)
  then obtain n where "unheld n (hs_pool w)"
      "turned_ok k backends (hs_pool w) n (begin_turn k backends connect c (hs_pool w))"
    using begin_turn_ok reads.hyps(4,5) by blast
  then show ?case
    using unheld_not_held [OF ok] by (intro turn_serving_ok [OF ok reads.hyps(2) _ begin_grown]) auto
next
  case (writes w i c x answer)
  have ok: "serving_ok k backends w"
    using writes.IH writes.prems grown_delimited [OF write_grown] by (simp add: client_turned_def)
  have "pool_ok (hs_pool w)" "client_ok k backends (hs_pool w) c"
    using ok serving_okD(1) [OF ok writes.hyps(2)] writes.hyps(3) by (simp_all add: serving_ok_def)
  then show ?case
    using serving_okD(2) [OF ok _ writes.hyps(2)] writes.hyps
    by (intro turn_serving_ok [OF ok writes.hyps(2) write_turn_ok write_grown]) auto
next
  case (answered w i c x)
  have del: "all_delimited (hs_pool w)"
    using answered.prems grown_delimited [OF read_grown] by (simp add: client_turned_def)
  then have ok: "serving_ok k backends w" by (rule answered.IH)
  have "pool_ok (hs_pool w)" "client_ok k backends (hs_pool w) c"
    using ok serving_okD(1) [OF ok answered.hyps(2)] answered.hyps(3) by (simp_all add: serving_ok_def)
  then show ?case
    using serving_okD(2) [OF ok _ answered.hyps(2)] answered.hyps del
    by (intro turn_serving_ok [OF ok answered.hyps(2) read_turn_ok read_grown]) auto
qed

section \<open>Properties\<close>

text \<open>C21: However the connections of the clients interleave on the shared sockets, and whichever
  connections and writes fail: as long as every answer a backend gave ends where the server takes
  it to end (it says its length, or its connection closed on it), what each client has been sent
  is, in order, one reply to each of the messages it sent first, and to all of them once its
  connection has ended. Each reply is the error of a message that goes nowhere, the error of a
  host that refused a connection, or what came of the request made from that very message on
  a socket to the host it is for.\<close>
theorem http_clients_isolated:
  assumes "http_serving k backends w" "all_delimited (hs_pool w)" "c \<in> set (hs_clients w)"
  shows "\<exists>replies rest. hc_out c = replies_text replies \<and>
    replies_to (own_answer k backends (hs_pool w)) (hc_sends c) replies rest \<and>
    (if hc_over c \<and> \<not> hc_lost c then no_message rest else True)"
proof -
  have "client_ok k backends (hs_pool w) c"
    using serving_invariant [OF assms(1,2)] assms(3) by (simp add: serving_ok_def)
  then have c: "client_ok k backends (hs_pool w) c" .
  obtain replies rest where r: "hc_out c = replies_text replies"
      "replies_to (own_answer k backends (hs_pool w)) (hc_sends c) replies rest" "hc_lost c \<or> pending k backends c rest"
    by (rule client_okE [OF c grown_refl])
  have "no_message rest" if "hc_over c" "\<not> hc_lost c"
    using that r(3) c by (auto simp: pending_def client_ok_def split: option.splits)
  then show ?thesis using r(1,2) by auto
qed

text \<open>Two clients whose posts overlap; the second to ask is the first to be answered.\<close>

definition echo_codec :: codec where
  "echo_codec = \<lparr>c_enc = called_name,
     c_dec = (\<lambda>s. Inr (jobj [(''params'', jobj [(''name'', JStr (''git__'' @ s))])]))\<rparr>"

definition http_ask :: "str \<Rightarrow> str" where
  "http_ask body = framed_response [''POST /mcp HTTP/1.1''] body"

definition git_only :: "(str, http_target) smap" where
  "git_only = [(''git'', tool_target)]"

definition asking :: "str \<Rightarrow> http_client" where
  "asking body = \<lparr>hc_sends = http_ask body, hc_in = http_ask body, hc_out = [], hc_post = None, hc_over = False, hc_lost = False\<rparr>"

lemma ask_begins:
  assumes "body \<noteq> []" "length body \<le> MAX_FRAME_BYTES"
    and "take_socket None (target_key tool_target) p = (Inr n, p')"
  shows "\<exists>a. begin_turn echo_codec git_only None (asking body) p =
    (asking body\<lparr>hc_in := [], hc_post := Some \<lparr>ht_accept = a, ht_target = tool_target, ht_body = body, ht_conn = n,
       ht_written = False\<rparr>\<rparr>, p')"
proof -
  have "plain_line ''POST /mcp HTTP/1.1''" by (rule ascii_plain_line) simp_all
  then obtain a where a: "read_message (http_ask body) = (Inr (Some (body, a)), [])"
    using read_framed [of "[''POST /mcp HTTP/1.1'']" body "[]"] assms by (auto simp: http_ask_def)
  let ?m = "jobj [(''params'', jobj [(''name'', JStr (''git__'' @ body))])]"
  have "called_name ?m = ''git__'' @ body" "called_name (http_forwarded body ?m) = body"
    by (simp_all add: called_name_def http_forwarded_def json_simps)
  moreover from this have "http_target_of git_only ?m = Some (tool_target, body)"
    using assms(1) by (simp add: http_target_of_def ns_split_def DELIMITER_def git_only_def)
  ultimately show ?thesis
    using assms(3) by (simp add: begin_turn_def a echo_codec_def asking_def)
qed

theorem http_clients_isolated_witness:
  "\<exists>w c1 c2. http_serving echo_codec git_only w \<and> hs_clients w = [c1, c2] \<and>
     hc_sends c1 = http_ask ''a'' \<and> hc_out c1 = [] \<and> hc_sends c2 = http_ask ''log'' \<and> hc_out c2 \<noteq> [] \<and>
     (\<exists>replies rest. hc_out c2 = replies_text replies \<and>
        replies_to (own_answer echo_codec git_only (hs_pool w)) (hc_sends c2) replies rest)"
proof -
  let ?run = "http_serving echo_codec git_only" and ?key = "target_key tool_target"
  define idle where "idle = \<lparr>so_key = ?key, so_log = [], so_unread = []\<rparr>"
  define pool where "pool = (\<lambda>ss. \<lparr>sp_sockets = ss, sp_idle = [], sp_refused = []\<rparr>)"
  define w0 where "w0 = http_accept (http_ask ''log'') (http_accept (http_ask ''a'') http_server_start)"
  have r0: "?run w0" unfolding w0_def by (intro http_serving.accept http_serving.start)
  have w0: "w0 = \<lparr>hs_pool = pool [], hs_clients = [asking ''a'', asking ''log'']\<rparr>"
    by (simp add: w0_def http_accept_def http_server_start_def asking_def pool_def)
  have t0: "take_socket None ?key (pool []) = (Inr 0, pool [idle])"
    and t1: "take_socket None ?key (pool [idle]) = (Inr 1, pool [idle, idle])"
    by (simp_all add: take_socket_def pop_idle_def pool_def idle_def)
  have "\<exists>a. begin_turn echo_codec git_only None (asking ''a'') (pool []) =
      (asking ''a''\<lparr>hc_in := [], hc_post := Some \<lparr>ht_accept = a, ht_target = tool_target, ht_body = ''a'', ht_conn = 0,
         ht_written = False\<rparr>\<rparr>, pool [idle])"
    by (rule ask_begins [OF _ _ t0]) (simp_all add: MAX_FRAME_BYTES_def)
  then obtain d1 where d1: "begin_turn echo_codec git_only None (asking ''a'') (pool []) = (d1, pool [idle])"
      "hc_out d1 = []" "hc_sends d1 = http_ask ''a''"
    by (auto simp: asking_def)
  have ask: "hc_post (asking s) = None" "\<not> hc_over (asking s)" for s by (simp_all add: asking_def)
  define w1 where "w1 = \<lparr>hs_pool = pool [idle], hs_clients = [d1, asking ''log'']\<rparr>"
  have "?run (client_turned 0 (begin_turn echo_codec git_only None (asking ''a'') (hs_pool w0)) w0)"
    by (rule http_serving.reads [OF r0]) (simp_all add: w0 ask)
  moreover have "client_turned 0 (begin_turn echo_codec git_only None (asking ''a'') (hs_pool w0)) w0 = w1"
    by (simp add: w0 w1_def client_turned_def d1(1))
  ultimately have r1: "?run w1" by (simp only:)
  have "\<exists>b. begin_turn echo_codec git_only None (asking ''log'') (pool [idle]) =
      (asking ''log''\<lparr>hc_in := [], hc_post := Some \<lparr>ht_accept = b, ht_target = tool_target, ht_body = ''log'', ht_conn = 1,
         ht_written = False\<rparr>\<rparr>, pool [idle, idle])"
    by (rule ask_begins [OF _ _ t1]) (simp_all add: MAX_FRAME_BYTES_def)
  then obtain d2 x where d2: "begin_turn echo_codec git_only None (asking ''log'') (pool [idle]) = (d2, pool [idle, idle])"
      "hc_post d2 = Some x" "ht_conn x = 1" "\<not> ht_written x" "hc_out d2 = []" "hc_sends d2 = http_ask ''log''" "\<not> hc_lost d2"
    by (auto simp: asking_def)
  define w2 where "w2 = \<lparr>hs_pool = pool [idle, idle], hs_clients = [d1, d2]\<rparr>"
  have "?run (client_turned 1 (begin_turn echo_codec git_only None (asking ''log'') (hs_pool w1)) w1)"
    by (rule http_serving.reads [OF r1]) (simp_all add: w1_def ask)
  moreover have "client_turned 1 (begin_turn echo_codec git_only None (asking ''log'') (hs_pool w1)) w1 = w2"
    by (simp add: w1_def w2_def client_turned_def d2(1))
  ultimately have r2: "?run w2" by (simp only:)
  define bytes where "bytes = framed_response [''HTTP/1.1 200 OK''] ''ok''"
  let ?x = "x\<lparr>ht_written := True\<rparr>"
  let ?d3 = "d2\<lparr>hc_post := Some ?x\<rparr>"
  define busy where "busy = idle\<lparr>so_log := [(post_text x, Inr bytes)], so_unread := bytes\<rparr>"
  define w3 where "w3 = \<lparr>hs_pool = pool [idle, busy], hs_clients = [d1, ?d3]\<rparr>"
  have "?run (client_turned 1 (write_turn echo_codec (Inr bytes) x d2 (hs_pool w2)) w2)"
    by (rule http_serving.writes [OF r2]) (simp_all add: w2_def d2)
  moreover have "client_turned 1 (write_turn echo_codec (Inr bytes) x d2 (hs_pool w2)) w2 = w3"
    by (simp add: w2_def w3_def client_turned_def write_turn_def busy_def d2(3)) (simp add: pool_def idle_def)
  ultimately have r3: "?run w3" by (simp only:)
  have ok: "list_all plain_line [''HTTP/1.1 200 OK'']" by (simp add: ascii_plain_line)
  then obtain e where read: "read_message bytes = (Inr (Some (''ok'', e)), [])"
    using read_framed [of "[''HTTP/1.1 200 OK'']" "''ok''" "[]"] by (auto simp: bytes_def MAX_FRAME_BYTES_def)
  define w4 where "w4 = client_turned 1 (read_turn echo_codec ?x ?d3 (hs_pool w3)) w3"
  have run: "?run w4"
    unfolding w4_def by (rule http_serving.answered [OF r3]) (simp_all add: w3_def)
  have unread: "so_unread busy = bytes" by (simp add: busy_def)
  obtain d4 where w4: "hs_clients w4 = [d1, d4]" "hc_sends d4 = http_ask ''log''" "hc_out d4 \<noteq> []"
    using d2(3,6,7)
    by (simp add: w4_def w3_def client_turned_def read_turn_def pool_def unread read answer_client_def reply_head_def)
  have "sp_sockets (hs_pool w4) = [idle, busy\<lparr>so_unread := []\<rparr>]"
    by (simp add: w4_def w3_def client_turned_def read_turn_def pool_def unread read d2(3))
  moreover have "delimited (Inr bytes)" using framed_delimited [OF ok] by (simp add: bytes_def MAX_FRAME_BYTES_def)
  ultimately have "all_delimited (hs_pool w4)" by (simp add: all_delimited_def busy_def idle_def)
  then have "\<exists>replies rest. hc_out d4 = replies_text replies \<and>
      replies_to (own_answer echo_codec git_only (hs_pool w4)) (hc_sends d4) replies rest"
    using http_clients_isolated [OF run, of d4] w4(1) by auto
  then show ?thesis
    using run w4 d1(2,3) by (intro exI [of _ w4] exI [of _ d1] exI [of _ d4]) simp
qed

end
