(* ===== verification/Streamable.thy ===== *)
theory Streamable
  imports ServeHttp Doctor RouterSession
begin

text \<open>
  The server \<open>yamp-serve-streamable\<close> (\<open>src/src/bin/yamp-serve-streamable.rs\<close>): its
  arguments and start, the reading of an HTTP request, the sessions, the handling of one
  request, the loop of a connection and the reload of the configuration. A session is the
  router it is built with and its pipe to that router: what the router will answer on it is a
  script, as of every connection of the message-level servers. One request is one step; the
  requests of all connections and the reloads arrive in any order, an arbitrary list of events.
  What a client is sent is taken to arrive; sockets, tasks and signals are tokio.
\<close>

section \<open>Arguments and start\<close>

text \<open>The arguments are read in pairs until \<open>--config\<close>; a \<open>--backend\<close> without \<open>=\<close> panics.\<close>

fun stream_args ::
  "(str \<Rightarrow> str + json) \<Rightarrow> (str \<Rightarrow> io_error + str) \<Rightarrow> str list \<Rightarrow> str \<Rightarrow> json \<Rightarrow> (io_error + proxy_config) option" where
  "stream_args parse files (x # v # rest) listen backends =
     (if x = ''--config'' then Some (load_config parse (files v))
      else if x = ''--listen'' then stream_args parse files rest v backends
      else if x = ''--backend''
      then (case split_once ''='' v of
              None \<Rightarrow> None
            | Some (i, addr) \<Rightarrow>
                stream_args parse files rest listen (jput i (jobj [(''address'', JStr addr)]) backends))
      else stream_args parse files rest listen backends)"
| "stream_args parse files _ listen backends =
     Some (from_value (jobj [(''listen'', JStr listen), (''backends'', backends)]))"

definition config_from_args ::
  "(str \<Rightarrow> str + json) \<Rightarrow> (str \<Rightarrow> io_error + str) \<Rightarrow> str list \<Rightarrow> (io_error + proxy_config) option" where
  "config_from_args parse files args = stream_args parse files (drop 1 args) [] (jobj [])"

text \<open>The path of \<open>--config\<close> for the reload: the argument after its first occurrence.\<close>

fun config_path :: "str list \<Rightarrow> str option" where
  "config_path (x # v # rest) = (if x = ''--config'' then Some v else config_path (v # rest))"
| "config_path _ = None"

datatype stream_start =
    StreamRefused str
  | StreamFailed io_error
  | StreamServing "str \<times> nat" proxy_config bool "str option"

definition stream_startup ::
  "(str \<Rightarrow> str + json) \<Rightarrow> (str \<Rightarrow> io_error + str) \<Rightarrow> str list \<Rightarrow> stream_start option" where
  "stream_startup parse files args =
     (case config_from_args parse files args of
        None \<Rightarrow> None
      | Some (Inl e) \<Rightarrow> Some (StreamFailed e)
      | Some (Inr c) \<Rightarrow>
          (case guard_bind (pcf_listen c) (pcf_client_tokens c \<noteq> []) (''--insecure'' \<in> set args) of
             Some refusal \<Rightarrow> Some (StreamRefused (''error: '' @ refusal))
           | None \<Rightarrow>
               (case parse_address (pcf_listen c) of
                  Inl e \<Rightarrow> Some (StreamFailed e)
                | Inr address \<Rightarrow> Some (StreamServing address c (''--tap'' \<in> set args) (config_path args)))))"

section \<open>Reading a request\<close>

record http_request =
  hr_verb :: str
  hr_path :: str
  hr_headers :: headers
  hr_body :: str

text \<open>The lines of the head, \<open>None\<close> at end of stream.\<close>

function head_lines :: "str \<Rightarrow> str list \<Rightarrow> str list option \<times> str" where
  "head_lines s acc =
     (let (line, rest) = read_until NL s
      in if line = [] then (None, rest)
         else if chomp line = [] then (Some acc, rest)
         else head_lines rest (acc @ [chomp line]))"
  by pat_completeness auto
termination
  by (relation "measure (\<lambda>(s, acc). length s)") (auto dest: read_until_rest)

declare head_lines.simps [simp del]

text \<open>
  One header line. A length that is no number is none; one over the bound gives up. \<open>lower\<close> is
  \<open>to_lowercase\<close>, which is Unicode's.
\<close>

definition request_header :: "(str \<Rightarrow> str) \<Rightarrow> str \<Rightarrow> headers \<times> nat \<Rightarrow> (headers \<times> nat) option" where
  "request_header lower raw acc =
     (let (hs, n) = acc
      in case split_once '':'' (utf8_lossy raw) of
           None \<Rightarrow> Some (hs, n)
         | Some (name, value) \<Rightarrow>
             (let key = lower (trim_str name); v = trim_str value;
                  n = (if key = ''content-length'' then unwrap_or (parse_unsigned (2 ^ 64 - 1) v) 0 else n)
              in if key = ''content-length'' \<and> MAX_FRAME_BYTES < n then None
                 else Some (smap_put key v hs, n)))"

fun request_headers :: "(str \<Rightarrow> str) \<Rightarrow> str list \<Rightarrow> headers \<times> nat \<Rightarrow> (headers \<times> nat) option" where
  "request_headers lower [] acc = Some acc"
| "request_headers lower (raw # lines) acc = Option.bind (request_header lower raw acc) (request_headers lower lines)"

definition part_at :: "nat \<Rightarrow> str list \<Rightarrow> str" where
  "part_at i parts = (if i < length parts then parts ! i else [])"

definition read_request :: "(str \<Rightarrow> str) \<Rightarrow> str \<Rightarrow> (io_error + http_request option) \<times> str" where
  "read_request lower s =
     (case head_lines s [] of
        (None, rest) \<Rightarrow> (Inr None, rest)
      | (Some [], rest) \<Rightarrow> (Inr None, rest)
      | (Some (line # lines), rest) \<Rightarrow>
          (case request_headers lower lines ([], 0) of
             None \<Rightarrow> (Inr None, rest)
           | Some (hs, n) \<Rightarrow>
               (let parts = split_on (CHR '' '') (utf8_lossy line)
                in case read_exact n rest of
                     (Inl e, rest) \<Rightarrow> (Inl e, rest)
                   | (Inr body, rest) \<Rightarrow>
                       (Inr (Some \<lparr>hr_verb = part_at 0 parts, hr_path = part_at 1 parts,
                                   hr_headers = hs, hr_body = body\<rparr>), rest))))"

section \<open>Sessions\<close>

record stream_session =
  ss_router :: router
  ss_chan :: chan
  ss_outbound :: "json list option"

text \<open>
  The environment of a request: text of JSON, \<open>to_lowercase\<close>, the addresses that can be
  reached, and what the router of a new session will write, to its pipe and to its sink.
\<close>

record stream_env =
  se_codec :: codec
  se_lower :: "str \<Rightarrow> str"
  se_reach :: "str \<Rightarrow> bool"
  se_router :: "router \<Rightarrow> chan \<times> json list"

definition connect_failover :: "(str \<Rightarrow> bool) \<Rightarrow> str list \<Rightarrow> str option" where
  "connect_failover reach addresses = List.find reach addresses"

text \<open>\<open>Duration::from_secs_f64\<close> panics on what is no duration.\<close>

definition duration_ok :: "f64 \<Rightarrow> bool" where
  "duration_ok x \<longleftrightarrow> f64_le (Fin 0) x \<and> f64_lt x (Fin (2 ^ 64))"

definition durations_ok :: "f64 option \<Rightarrow> bool" where
  "durations_ok x = (case x of Some d \<Rightarrow> duration_ok d | None \<Rightarrow> True)"

definition session_backend :: "resilience_config \<Rightarrow> str \<Rightarrow> (io_error + backend) option" where
  "session_backend rs i =
     (if resilience_enabled rs
      then (if durations_ok (rs_request_timeout rs)
            then Some (backend_new i (Some (breaker_new (unat (rs_failure_threshold rs)) (rs_reset_timeout rs))))
            else None)
      else Some (backend_new i None))"

text \<open>The loop over the configured backends; \<open>None\<close> is a panic.\<close>

fun session_backends ::
  "(str \<Rightarrow> bool) \<Rightarrow> resilience_config \<Rightarrow> backend_config list \<Rightarrow> (io_error + backend list) option" where
  "session_backends reach rs [] = Some (Inr [])"
| "session_backends reach rs (c # cs) =
     (case connect_failover reach (bc_addresses c) of
        None \<Rightarrow>
          if resilience_enabled rs then session_backends reach rs cs
          else Some (Inl (IoError NotConnected (''backend '' @ bc_id c @ '': all addresses failed'')))
      | Some addr \<Rightarrow>
          (case session_backend rs (bc_id c) of
             None \<Rightarrow> None
           | Some (Inl e) \<Rightarrow> Some (Inl e)
           | Some (Inr b) \<Rightarrow>
               map_option (map_sum (\<lambda>e. e) (\<lambda>bs. b # bs)) (session_backends reach rs cs)))"

definition session_create :: "stream_env \<Rightarrow> proxy_config \<Rightarrow> (io_error + stream_session) option" where
  "session_create env c =
     (case session_backends (se_reach env) (pcf_resilience c) (pcf_backends c) of
        None \<Rightarrow> None
      | Some (Inl e) \<Rightarrow> Some (Inl e)
      | Some (Inr bs) \<Rightarrow>
          if resilience_enabled (pcf_resilience c) \<and> \<not> durations_ok (rs_health_interval (pcf_resilience c)) then None
          else (let r = configure bs
                in Some (Inr \<lparr>ss_router = r, ss_chan = fst (se_router env r), ss_outbound = Some (snd (se_router env r))\<rparr>)))"

text \<open>Every error of the pipe is an empty answer, \<open>unwrap_or_default\<close>.\<close>

definition session_request :: "str \<Rightarrow> stream_session \<Rightarrow> str \<times> stream_session" where
  "session_request body ss =
     (let (r, c) = and_then (send_message_to body) (\<lambda>_. recv) (ss_chan ss)
      in (case r of Inl e \<Rightarrow> [] | Inr x \<Rightarrow> unwrap_or x [], ss\<lparr>ss_chan := c\<rparr>))"

definition session_notify :: "str \<Rightarrow> stream_session \<Rightarrow> stream_session" where
  "session_notify body ss = ss\<lparr>ss_chan := snd (send_message_to body (ss_chan ss))\<rparr>"

record stream_server =
  sv_sessions :: "(str, stream_session) smap"
  sv_counter :: u64
  sv_tapped :: "json list"

definition server_start :: stream_server where
  "server_start = \<lparr>sv_sessions = [], sv_counter = 1, sv_tapped = []\<rparr>"

definition session_id :: "u64 \<Rightarrow> str" where
  "session_id n = hex_pad 16 (unat n)"

definition new_session_id :: "stream_server \<Rightarrow> str \<times> stream_server" where
  "new_session_id sv = (session_id (sv_counter sv), sv\<lparr>sv_counter := sv_counter sv + 1\<rparr>)"

definition update_session :: "str \<Rightarrow> stream_session \<Rightarrow> stream_server \<Rightarrow> stream_server" where
  "update_session i ss sv = sv\<lparr>sv_sessions := smap_put i ss (sv_sessions sv)\<rparr>"

section \<open>Handling a request\<close>

text \<open>A response, or the event stream that ends the connection.\<close>

datatype stream_reply = Reply str "(str \<times> str) list" str | EventStream "json list"

definition write_response :: "str \<Rightarrow> (str \<times> str) list \<Rightarrow> str \<Rightarrow> str" where
  "write_response status extra body =
     ''HTTP/1.1 '' @ status @ CRLF @ concat (map (\<lambda>(k, v). k @ '': '' @ v @ CRLF) extra) @
     ''Content-Length: '' @ show_nat (length body) @ CRLF @ ''Connection: keep-alive'' @ CRLF @ CRLF @ body"

definition event_text :: "codec \<Rightarrow> json \<Rightarrow> str" where
  "event_text k message = ''data: '' @ c_enc k message @ [NL, NL]"

definition EVENT_STREAM_HEAD :: str where
  "EVENT_STREAM_HEAD =
     ''HTTP/1.1 200 OK'' @ CRLF @ ''Content-Type: text/event-stream'' @ CRLF @
     ''Cache-Control: no-cache'' @ CRLF @ ''Connection: keep-alive'' @ CRLF @ CRLF"

fun reply_text :: "codec \<Rightarrow> stream_reply \<Rightarrow> str" where
  "reply_text k (Reply status extra body) = write_response status extra body"
| "reply_text k (EventStream messages) = EVENT_STREAM_HEAD @ concat (map (event_text k) messages)"

definition JSON_CONTENT :: "str \<times> str" where
  "JSON_CONTENT = (''Content-Type'', ''application/json'')"

definition coded_body :: "int \<Rightarrow> str \<Rightarrow> str" where
  "coded_body code message =
     ''{\"error\":{\"code\":'' @ show_int code @ '',\"message\":\"'' @ message @ ''\"}}''"

definition not_found :: stream_reply where "not_found = Reply ''404 Not Found'' [] []"

definition bad_request :: "int \<Rightarrow> str \<Rightarrow> stream_reply" where
  "bad_request code message = Reply ''400 Bad Request'' [JSON_CONTENT] (coded_body code message)"

text \<open>The bearer check of an \<open>initialize\<close>.\<close>

definition client_policy :: "proxy_config \<Rightarrow> policy_layer" where
  "client_policy c =
     \<lparr>backend_tokens = [], forward_headers = [], authenticator = Some (bearer_authenticate (pcf_client_tokens c))\<rparr>"

definition authorized :: "proxy_config \<Rightarrow> http_request \<Rightarrow> bool" where
  "authorized c req \<longleftrightarrow> pcf_client_tokens c = [] \<or>
     authorize_client (client_policy c)
       [(AUTHORIZATION, unwrap_or (smap_get ''authorization'' (hr_headers req)) [])]"

definition sid_of :: "http_request \<Rightarrow> str option" where
  "sid_of req = smap_get ''mcp-session-id'' (hr_headers req)"

definition session_of :: "http_request \<Rightarrow> stream_server \<Rightarrow> (str \<times> stream_session) option" where
  "session_of req sv =
     (case sid_of req of
        None \<Rightarrow> None
      | Some i \<Rightarrow> map_option (Pair i) (smap_get i (sv_sessions sv)))"

text \<open>The \<open>initialize\<close> that opens a session. An \<open>Inl\<close> ends the connection.\<close>

definition open_session ::
  "stream_env \<Rightarrow> proxy_config \<Rightarrow> http_request \<Rightarrow> stream_server \<Rightarrow> ((io_error + stream_reply) \<times> stream_server) option" where
  "open_session env c req sv =
     (if \<not> authorized c req
      then Some (Inr (Reply ''401 Unauthorized'' [JSON_CONTENT] (coded_body UNAUTHORIZED ''unauthorized'')), sv)
      else case session_create env c of
        None \<Rightarrow> None
      | Some (Inl e) \<Rightarrow> Some (Inl e, sv)
      | Some (Inr ss) \<Rightarrow>
          (let (i, sv) = new_session_id sv; (resp, ss) = session_request (hr_body req) ss
           in Some (Inr (Reply ''200 OK'' [JSON_CONTENT, (''Mcp-Session-Id'', i)] resp), update_session i ss sv)))"

definition in_session :: "json \<Rightarrow> http_request \<Rightarrow> stream_server \<Rightarrow> stream_reply \<times> stream_server" where
  "in_session message req sv =
     (case session_of req sv of
        None \<Rightarrow> (bad_request NO_SESSION ''no session'', sv)
      | Some (i, ss) \<Rightarrow>
          if jget ''id'' message \<noteq> None \<and> jget ''method'' message \<noteq> None
          then (let (resp, ss) = session_request (hr_body req) ss
                in (Reply ''200 OK'' [JSON_CONTENT] resp, update_session i ss sv))
          else (Reply ''202 Accepted'' [] [], update_session i (session_notify (hr_body req) ss) sv))"

definition parse_body :: "codec \<Rightarrow> str \<Rightarrow> json option" where
  "parse_body k body =
     (case c_dec k body of Inr v \<Rightarrow> Some v | Inl e \<Rightarrow> if body = [] then Some JNull else None)"

definition post_message ::
  "stream_env \<Rightarrow> proxy_config \<Rightarrow> bool \<Rightarrow> http_request \<Rightarrow> stream_server \<Rightarrow> ((io_error + stream_reply) \<times> stream_server) option" where
  "post_message env c tap req sv =
     (case parse_body (se_codec env) (hr_body req) of
        None \<Rightarrow> Some (Inr (bad_request INVALID_PARAMS ''invalid JSON''), sv)
      | Some message \<Rightarrow>
          (let sv = (if tap then sv\<lparr>sv_tapped := sv_tapped sv @ [capture ''c2s'' message]\<rparr> else sv)
           in if sid_of req = None \<and> get_str ''method'' message = Some ''initialize''
              then open_session env c req sv
              else (let (reply, sv) = in_session message req sv in Some (Inr reply, sv))))"

definition get_events :: "http_request \<Rightarrow> stream_server \<Rightarrow> stream_reply \<times> stream_server" where
  "get_events req sv =
     (case session_of req sv of
        None \<Rightarrow> (not_found, sv)
      | Some (i, ss) \<Rightarrow>
          (EventStream (unwrap_or (ss_outbound ss) []), update_session i (ss\<lparr>ss_outbound := None\<rparr>) sv))"

definition handle_request ::
  "stream_env \<Rightarrow> proxy_config \<Rightarrow> bool \<Rightarrow> http_request \<Rightarrow> stream_server \<Rightarrow> ((io_error + stream_reply) \<times> stream_server) option" where
  "handle_request env c tap req sv =
     (let text = c_enc (se_codec env)
      in if hr_verb req = ''GET'' \<and> hr_path req = ''/.well-known/mcp''
         then Some (Inr (Reply ''200 OK'' [JSON_CONTENT] (text server_card)), sv)
         else if hr_verb req = ''GET'' \<and> hr_path req = ''/status''
         then Some (Inr (Reply ''200 OK'' [JSON_CONTENT]
                      (text (status_snapshot (map bc_id (pcf_backends c)) (length (sv_sessions sv))))), sv)
         else if hr_path req \<noteq> ''/mcp'' then Some (Inr not_found, sv)
         else if hr_verb req = ''GET'' then (let (reply, sv) = get_events req sv in Some (Inr reply, sv))
         else if hr_verb req = ''DELETE''
         then Some (Inr (Reply ''200 OK'' [] []),
                (case sid_of req of
                   Some i \<Rightarrow> sv\<lparr>sv_sessions := smap_del i (sv_sessions sv)\<rparr> | None \<Rightarrow> sv))
         else post_message env c tap req sv)"

section \<open>A connection\<close>

lemma head_lines_le: "head_lines s acc = (Some ls, rest) \<Longrightarrow> length rest < length s"
proof (induction s acc rule: head_lines.induct)
  case (1 s acc)
  obtain line t where l: "read_until NL s = (line, t)" by force
  show ?case
  proof (cases "line = []")
    case True
    then show ?thesis using "1.prems" l by (simp add: head_lines.simps [of s acc])
  next
    case False
    then have "length t < length s" using l read_until_shorter by blast
    then show ?thesis
      using "1.prems" "1.IH" l False by (fastforce simp: head_lines.simps [of s acc] split: if_splits)
  qed
qed

lemma read_request_le: "read_request lower s = (Inr (Some req), rest) \<Longrightarrow> length rest < length s"
  by (auto simp: read_request_def Let_def split: prod.splits option.splits sum.splits list.splits
      dest!: head_lines_le read_exact_le)

text \<open>
  The loop of a connection on the bytes of the client: how it ends, what it has written and the
  shared state, \<open>None\<close> when its task panics. The event stream is the last thing written.
\<close>

function stream_connection ::
  "stream_env \<Rightarrow> proxy_config \<Rightarrow> bool \<Rightarrow> str \<Rightarrow> str \<Rightarrow> stream_server \<Rightarrow> ((io_error + unit) \<times> str \<times> stream_server) option" where
  "stream_connection env c tap s written sv =
     (case read_request (se_lower env) s of
        (Inl e, _) \<Rightarrow> Some (Inl e, written, sv)
      | (Inr None, _) \<Rightarrow> Some (Inr (), written, sv)
      | (Inr (Some req), rest) \<Rightarrow>
          (case handle_request env c tap req sv of
             None \<Rightarrow> None
           | Some (Inl e, sv) \<Rightarrow> Some (Inl e, written, sv)
           | Some (Inr (EventStream ms), sv) \<Rightarrow>
               Some (Inr (), written @ reply_text (se_codec env) (EventStream ms), sv)
           | Some (Inr reply, sv) \<Rightarrow>
               stream_connection env c tap rest (written @ reply_text (se_codec env) reply) sv))"
  by pat_completeness auto
termination
  by (relation "measure (\<lambda>(env, c, tap, s, written, sv). length s)") (auto dest: read_request_le [OF sym])

declare stream_connection.simps [simp del]

section \<open>Reload, and the events of the server\<close>

text \<open>On a hang-up: the line that is printed, and the configuration for new requests.\<close>

definition reload :: "json option \<Rightarrow> proxy_config \<Rightarrow> str \<times> proxy_config" where
  "reload file c =
     (case file of
        None \<Rightarrow> (''reload rejected: config unreadable or not JSON'', c)
      | Some raw \<Rightarrow>
          (case diagnose raw of
             Some diagnosis \<Rightarrow>
               (''reload rejected: '' @ str_at diagnosis ''slug'' @ '': '' @ str_at diagnosis ''message'', c)
           | None \<Rightarrow> (case from_value raw of Inr c' \<Rightarrow> (''config reloaded'', c') | Inl e \<Rightarrow> ([], c))))"

datatype stream_event = Incoming stream_env http_request | Hangup "json option"

text \<open>A request whose task panics leaves the shared state as it was.\<close>

fun stream_step :: "bool \<Rightarrow> stream_event \<Rightarrow> proxy_config \<times> stream_server \<Rightarrow> proxy_config \<times> stream_server" where
  "stream_step tap (Hangup file) (c, sv) = (snd (reload file c), sv)"
| "stream_step tap (Incoming env req) (c, sv) =
     (c, case handle_request env c tap req sv of Some (_, sv') \<Rightarrow> sv' | None \<Rightarrow> sv)"

definition stream_run :: "bool \<Rightarrow> stream_event list \<Rightarrow> proxy_config \<times> stream_server \<Rightarrow> proxy_config \<times> stream_server" where
  "stream_run tap events st = fold (stream_step tap) events st"

section \<open>Lemmas\<close>

text \<open>Session ids are distinct.\<close>

lemma read_zeros: "read_hex_digits 0 (replicate k (CHR ''0'') @ s) = read_hex_digits 0 s"
  by (induction k) (simp_all add: to_digit16_def Let_def)

lemma session_id_inject: "session_id m = session_id n \<longleftrightarrow> m = n"
proof
  assume "session_id m = session_id n"
  then have "read_hex_digits 0 (session_id m) = read_hex_digits 0 (session_id n)" by simp
  then have "unat m = unat n" by (simp add: session_id_def hex_pad_def read_zeros read_show_hex)
  then show "m = n" by (simp add: word_unat_eq_iff)
qed simp

lemma bearer_token:
  assumes "bearer_authenticate valid hs"
  shows "\<exists>token \<in> set valid. smap_get AUTHORIZATION hs = Some (''Bearer '' @ token)"
proof -
  obtain h where h: "smap_get AUTHORIZATION hs = Some h"
    using assms by (cases "smap_get AUTHORIZATION hs") (auto simp: bearer_authenticate_def)
  obtain token where t: "strip_prefix ''Bearer '' h = Some token"
    using assms h by (cases "strip_prefix ''Bearer '' h") (auto simp: bearer_authenticate_def)
  then show ?thesis using assms h by (auto simp: bearer_authenticate_def strip_prefix_Some)
qed

lemma authorized_token:
  assumes "authorized c req" "pcf_client_tokens c \<noteq> []"
  shows "\<exists>token \<in> set (pcf_client_tokens c). smap_get ''authorization'' (hr_headers req) = Some (''Bearer '' @ token)"
proof -
  have "\<exists>token \<in> set (pcf_client_tokens c). unwrap_or (smap_get ''authorization'' (hr_headers req)) [] = ''Bearer '' @ token"
    using assms bearer_token by (fastforce simp: authorized_def authorize_client_def client_policy_def)
  then show ?thesis by (cases "smap_get ''authorization'' (hr_headers req)") auto
qed

text \<open>What a request does to the sessions.\<close>

definition live_ids :: "stream_server \<Rightarrow> str set" where
  "live_ids sv = set (smap_keys (sv_sessions sv))"

lemma live_ids_simps:
  "live_ids (sv\<lparr>sv_tapped := t\<rparr>) = live_ids sv"
  "live_ids (sv\<lparr>sv_counter := n\<rparr>) = live_ids sv"
  "live_ids (update_session i ss sv) = insert i (live_ids sv)"
  "live_ids (sv\<lparr>sv_sessions := smap_del i (sv_sessions sv)\<rparr>) = live_ids sv - {i}"
  using smap_keys_put [of i ss "sv_sessions sv"] smap_keys_del [of i "sv_sessions sv"]
  by (simp_all add: live_ids_def update_session_def)

lemma counter_update [simp]: "sv_counter (update_session i ss sv) = sv_counter sv"
  by (simp add: update_session_def)

definition keeps_sessions :: "stream_server \<Rightarrow> stream_server \<Rightarrow> bool" where
  "keeps_sessions sv sv' \<longleftrightarrow>
     sv_counter sv' = sv_counter sv \<and> live_ids sv' \<subseteq> live_ids sv"

text \<open>The body is an \<open>initialize\<close> message.\<close>

definition initializes :: "codec \<Rightarrow> http_request \<Rightarrow> bool" where
  "initializes k req \<longleftrightarrow>
     (\<exists>message. parse_body k (hr_body req) = Some message \<and> get_str ''method'' message = Some ''initialize'')"

definition opens_session ::
  "proxy_config \<Rightarrow> stream_env \<Rightarrow> http_request \<Rightarrow> stream_server \<Rightarrow> stream_server \<Rightarrow> bool" where
  "opens_session c env req sv sv' \<longleftrightarrow>
     sv_counter sv' = sv_counter sv + 1 \<and>
     live_ids sv' = insert (session_id (sv_counter sv)) (live_ids sv) \<and>
     authorized c req \<and> sid_of req = None \<and> initializes (se_codec env) req"

lemma session_of_in: "session_of req sv = Some (i, ss) \<Longrightarrow> i \<in> live_ids sv"
  unfolding live_ids_def
  by (auto simp: session_of_def split: option.splits) (metis fst_conv imageI smap_get_in)

lemma update_keeps: "i \<in> live_ids sv \<Longrightarrow> keeps_sessions sv (update_session i ss sv)"
  by (simp add: keeps_sessions_def live_ids_simps)

lemma keeps_refl: "keeps_sessions sv sv" "keeps_sessions sv (sv\<lparr>sv_tapped := t\<rparr>)"
  by (simp_all add: keeps_sessions_def live_ids_simps)

lemma in_session_keeps: "in_session message req sv = (reply, sv') \<Longrightarrow> keeps_sessions sv sv'"
  by (auto simp: in_session_def Let_def keeps_refl intro: update_keeps session_of_in
      split: option.splits if_splits prod.splits)

lemma get_events_keeps: "get_events req sv = (reply, sv') \<Longrightarrow> keeps_sessions sv sv'"
  by (auto simp: get_events_def keeps_refl intro: update_keeps session_of_in split: option.splits)

lemma open_session_effect:
  assumes "open_session env c req sv = Some (r, sv')" "sid_of req = None" "initializes (se_codec env) req"
  shows "keeps_sessions sv sv' \<or> opens_session c env req sv sv'"
proof (cases "authorized c req \<and> (\<exists>ss. session_create env c = Some (Inr ss))")
  case True
  then show ?thesis
    using assms
    by (auto simp: open_session_def new_session_id_def opens_session_def live_ids_simps split: prod.splits)
next
  case False
  then have "sv' = sv" using assms(1) by (auto simp: open_session_def split: if_splits option.splits sum.splits)
  then show ?thesis by (simp add: keeps_refl)
qed

lemma keeps_tapped:
  "keeps_sessions (sv\<lparr>sv_tapped := t\<rparr>) sv' = keeps_sessions sv sv'"
  "opens_session c env req (sv\<lparr>sv_tapped := t\<rparr>) sv' = opens_session c env req sv sv'"
  by (simp_all add: keeps_sessions_def opens_session_def live_ids_simps)

lemma handle_request_effect:
  assumes "handle_request env c tap req sv = Some (r, sv')"
  shows "keeps_sessions sv sv' \<or> opens_session c env req sv sv'"
proof -
  have post: "keeps_sessions sv sv' \<or> opens_session c env req sv sv'"
    if p: "post_message env c tap req sv = Some (r, sv')"
  proof (cases "parse_body (se_codec env) (hr_body req)")
    case None
    then show ?thesis using p by (auto simp: post_message_def keeps_refl)
  next
    case (Some message)
    define sv1 where "sv1 = (if tap then sv\<lparr>sv_tapped := sv_tapped sv @ [capture ''c2s'' message]\<rparr> else sv)"
    have "keeps_sessions sv1 sv' \<or> opens_session c env req sv1 sv'"
    proof (cases "sid_of req = None \<and> get_str ''method'' message = Some ''initialize''")
      case True
      then have "initializes (se_codec env) req" using Some by (auto simp: initializes_def)
      then show ?thesis using True p Some open_session_effect by (auto simp: post_message_def Let_def sv1_def [symmetric])
    next
      case False
      then show ?thesis
        using p Some in_session_keeps
        by (auto simp: post_message_def Let_def sv1_def [symmetric] split: prod.splits if_splits)
    qed
    then show ?thesis by (simp add: sv1_def keeps_tapped split: if_splits)
  qed
  show ?thesis
  proof (cases "hr_verb req = ''DELETE'' \<and> hr_path req = ''/mcp''")
    case True
    then show ?thesis
      using assms
      by (auto simp: handle_request_def keeps_sessions_def live_ids_simps split: option.splits)
  next
    case False
    then show ?thesis
      using assms post get_events_keeps
      by (auto simp: handle_request_def Let_def keeps_refl split: if_splits prod.splits)
  qed
qed

section \<open>Lemmas: reading back a request\<close>

text \<open>The text of a request, as a client writes it.\<close>

definition header_text :: "str \<times> str \<Rightarrow> str" where
  "header_text h = fst h @ '': '' @ snd h"

definition request_text :: "str \<Rightarrow> str \<Rightarrow> headers \<Rightarrow> str \<Rightarrow> str" where
  "request_text verb path hs body =
     header_block ((verb @ '' '' @ path @ '' HTTP/1.1'') # map header_text hs @ [length_line (length body)]) @ body"

definition header_ok :: "(str \<Rightarrow> str) \<Rightarrow> str \<times> str \<Rightarrow> bool" where
  "header_ok lower h \<longleftrightarrow>
     utf8_valid (header_text h) \<and> NL \<notin> set (header_text h) \<and> CHR '':'' \<notin> set (fst h) \<and>
     trimmed (fst h) \<and> trimmed (snd h) \<and> lower (fst h) \<noteq> ''content-length''"

definition word_ok :: "str \<Rightarrow> bool" where
  "word_ok w \<longleftrightarrow> list_all (\<lambda>c. (of_char c :: nat) < 128 \<and> c \<noteq> NL \<and> c \<noteq> CHR '' '') w"

lemma head_lines_block:
  assumes "list_all (\<lambda>l. l \<noteq> [] \<and> NL \<notin> set l) ls"
  shows "head_lines (header_block ls @ s) acc = (Some (acc @ ls), s)"
  using assms
proof (induction ls arbitrary: acc)
  case Nil
  have "read_until NL ([CR] @ NL # s) = ([CR] @ [NL], s)" by (rule read_until_line) simp
  then show ?case
    by (simp add: header_block_def CRLF_def head_lines.simps [of "CR # NL # s"] chomp_def strip_cr_def)
next
  case (Cons l ls)
  let ?s = "header_block ls @ s"
  have "read_until NL ((l @ [CR]) @ NL # ?s) = ((l @ [CR]) @ [NL], ?s)"
    by (rule read_until_line) (use Cons.prems in simp)
  then have u: "read_until NL (l @ CRLF @ ?s) = (l @ CRLF, ?s)" by (simp add: CRLF_def)
  have "head_lines (l @ CRLF @ ?s) acc = head_lines ?s (acc @ [l])"
    using Cons.prems u by (simp add: head_lines.simps [of "l @ CRLF @ ?s"] chomp_line)
  then show ?case using Cons by (simp add: header_block_def)
qed

lemma request_header_ok:
  assumes "header_ok lower h"
  shows "request_header lower (header_text h) (hs, n) = Some (smap_put (lower (fst h)) (snd h) hs, n)"
proof -
  have "utf8_lossy (header_text h) = header_text h"
    using assms by (simp add: header_ok_def utf8_lossy_valid)
  moreover have "split_once '':'' (header_text h) = Some (fst h, '' '' @ snd h)"
    using assms by (simp add: header_text_def header_ok_def split_once_single)
  moreover have "trim_str (fst h) = fst h" "trim_str ('' '' @ snd h) = snd h"
    using assms unfolding header_ok_def by (blast intro: trim_str_trimmed trim_space)+
  moreover have "lower (fst h) \<noteq> ''content-length''" using assms by (simp add: header_ok_def)
  ultimately show ?thesis by (simp add: request_header_def del: append.simps split_once.simps)
qed

lemma request_headers_append:
  "request_headers lower (as @ bs) acc = Option.bind (request_headers lower as acc) (request_headers lower bs)"
  by (induction as arbitrary: acc) (simp_all split: Option.bind_split)

lemma request_headers_ok:
  assumes "list_all (header_ok lower) hs"
  shows "request_headers lower (map header_text hs) (acc, n) =
    Some (smap_puts acc (map (\<lambda>h. (lower (fst h), snd h)) hs), n)"
  using assms by (induction hs arbitrary: acc) (simp_all add: request_header_ok smap_puts_def)

lemma request_length:
  assumes "n \<le> MAX_FRAME_BYTES" "lower ''Content-Length'' = ''content-length''"
  shows "request_header lower (length_line n) (hs, k) = Some (smap_put ''content-length'' (show_nat n) hs, n)"
proof -
  have "\<forall>c \<in> set (length_line n). (of_char c :: nat) < 128"
    using digits_plain by (auto simp: length_line_def plain_char_def Let_def)
  then have "utf8_lossy (length_line n) = length_line n" by (intro utf8_lossy_valid ascii_valid)
  moreover have "split_once '':'' (length_line n) = Some (''Content-Length'', '' '' @ show_nat n)"
    by (simp add: length_line_def colon_space)
  moreover have "trim_str ''Content-Length'' = ''Content-Length''"
    by (rule trim_str_trimmed) (simp add: trimmed_eval of_char_def)
  moreover have "parse_unsigned (2 ^ 64 - 1) (show_nat n) = Some n"
    using assms by (intro parse_show_nat) (simp add: MAX_FRAME_BYTES_def)
  ultimately show ?thesis
    using assms by (simp add: request_header_def trim_digits del: append.simps split_once.simps)
qed

lemma request_line_parts:
  assumes "word_ok verb" "word_ok path"
  shows "utf8_lossy (verb @ '' '' @ path @ '' HTTP/1.1'') = verb @ '' '' @ path @ '' HTTP/1.1''"
    and "NL \<notin> set (verb @ '' '' @ path @ '' HTTP/1.1'')"
    and "split_on (CHR '' '') (verb @ '' '' @ path @ '' HTTP/1.1'') = [verb, path, ''HTTP/1.1'']"
proof -
  show "utf8_lossy (verb @ '' '' @ path @ '' HTTP/1.1'') = verb @ '' '' @ path @ '' HTTP/1.1''"
    by (intro utf8_lossy_valid ascii_valid) (use assms in \<open>auto simp: word_ok_def list_all_iff\<close>)
  show "NL \<notin> set (verb @ '' '' @ path @ '' HTTP/1.1'')"
    using assms by (auto simp: word_ok_def list_all_iff)
  have "CHR '' '' \<notin> set verb" "CHR '' '' \<notin> set path"
    using assms by (auto simp: word_ok_def list_all_iff)
  then show "split_on (CHR '' '') (verb @ '' '' @ path @ '' HTTP/1.1'') = [verb, path, ''HTTP/1.1'']"
    by (simp add: split_on_append_sep)
qed

section \<open>Concrete runs\<close>

text \<open>A codec in which the text of a request is its method, a router that answers twice, and a
  configuration with a token and no backends.\<close>

definition method_codec :: codec where
  "method_codec = \<lparr>c_enc = (\<lambda>_. []), c_dec = (\<lambda>s. Inr (jobj [(''method'', JStr s)]))\<rparr>"

definition quiet_env :: stream_env where
  "quiet_env = \<lparr>se_codec = method_codec, se_lower = ascii_lower, se_reach = (\<lambda>_. True),
     se_router = (\<lambda>_. (\<lparr>ch_in = [Inr ''hello'', Inr ''again''], ch_out = [], ch_faults = []\<rparr>, []))\<rparr>"

definition token_config :: proxy_config where
  "token_config = \<lparr>pcf_listen = ''127.0.0.1:1'', pcf_backends = [], pcf_resilience = resilience_default,
     pcf_client_tokens = [''t''], pcf_namespacing = namespacing_default,
     pcf_handlers = \<lparr>hc_meta_tools = False, hc_rest = []\<rparr>, pcf_audit_secret = None\<rparr>"

definition post_of :: "headers \<Rightarrow> str \<Rightarrow> http_request" where
  "post_of hs body = \<lparr>hr_verb = ''POST'', hr_path = ''/mcp'', hr_headers = hs, hr_body = body\<rparr>"

lemma first_session_id: "session_id 1 = ''0000000000000001''"
proof -
  have "show_hex 1 = ''1''" by (subst show_hex.simps) (simp add: hex_digit_def char_of_eq_iff take_bit_nat_def)
  then show ?thesis by (simp add: session_id_def hex_pad_def) (simp add: eval_nat_numeral)
qed

section \<open>Properties\<close>

text \<open>The sessions opened by a run: the id, with the configuration then in force, the surroundings
  of the request and the request.\<close>

definition opened_by :: "bool \<Rightarrow> stream_event \<Rightarrow> proxy_config \<times> stream_server \<Rightarrow> (str \<times> proxy_config \<times> stream_env \<times> http_request) list" where
  "opened_by tap event st =
     (case event of
        Hangup f \<Rightarrow> []
      | Incoming env req \<Rightarrow>
          if sv_counter (snd (stream_step tap event st)) = sv_counter (snd st) then []
          else [(session_id (sv_counter (snd st)), fst st, env, req)])"

fun opened_in :: "bool \<Rightarrow> stream_event list \<Rightarrow> proxy_config \<times> stream_server \<Rightarrow> (str \<times> proxy_config \<times> stream_env \<times> http_request) list" where
  "opened_in tap [] st = []"
| "opened_in tap (event # events) st =
     opened_by tap event st @ opened_in tap events (stream_step tap event st)"

text \<open>One event: the counter is the number of the next session, whichever it opens is authorised.\<close>

lemma step_effect:
  assumes "stream_step tap event st = st'"
  shows "\<exists>new. map fst (opened_by tap event st) = map session_id new \<and>
    (new = [] \<and> sv_counter (snd st') = sv_counter (snd st) \<or>
     new = [sv_counter (snd st)] \<and> sv_counter (snd st') = sv_counter (snd st) + 1) \<and>
    live_ids (snd st') \<subseteq> live_ids (snd st) \<union> session_id ` set new \<and>
    (\<forall>(i, c, env, req) \<in> set (opened_by tap event st). authorized c req \<and> sid_of req = None \<and> initializes (se_codec env) req)"
proof -
  obtain c sv where st: "st = (c, sv)" by force
  show ?thesis
  proof (cases event)
    case (Hangup f)
    then show ?thesis using assms st by (auto simp: opened_by_def)
  next
    case (Incoming env req)
    show ?thesis
    proof (cases "handle_request env c tap req sv")
      case None
      then show ?thesis using assms st Incoming by (auto simp: opened_by_def)
    next
      case (Some x)
      obtain r sv' where x: "x = (r, sv')" by force
      have st': "st' = (c, sv')" using assms st Incoming Some x by simp
      consider "keeps_sessions sv sv'" | "opens_session c env req sv sv'"
        using handle_request_effect Some x by blast
      then show ?thesis
      proof cases
        case 1
        then have "opened_by tap event st = []" using assms st st' Incoming by (simp add: opened_by_def keeps_sessions_def)
        then show ?thesis using 1 st st' by (auto simp: keeps_sessions_def)
      next
        case 2
        then have "opened_by tap event st = [(session_id (sv_counter sv), c, env, req)]"
          using assms st st' Incoming by (simp add: opened_by_def opens_session_def)
        then show ?thesis using 2 st st' by (auto simp: opens_session_def intro!: exI [of _ "[sv_counter sv]"])
      qed
    qed
  qed
qed

lemma run_effect:
  assumes "stream_run tap events st = st'"
  shows "map fst (opened_in tap events st) =
      map (\<lambda>i. session_id (sv_counter (snd st) + of_nat i)) [0..<length (opened_in tap events st)] \<and>
    live_ids (snd st') \<subseteq> live_ids (snd st) \<union> fst ` set (opened_in tap events st) \<and>
    length (opened_in tap events st) \<le> length events \<and>
    (\<forall>(i, c, env, req) \<in> set (opened_in tap events st). authorized c req \<and> sid_of req = None \<and> initializes (se_codec env) req)"
  using assms
proof (induction events arbitrary: st)
  case (Cons event events)
  let ?st1 = "stream_step tap event st"
  obtain new where new: "map fst (opened_by tap event st) = map session_id new"
      "new = [] \<and> sv_counter (snd ?st1) = sv_counter (snd st) \<or>
       new = [sv_counter (snd st)] \<and> sv_counter (snd ?st1) = sv_counter (snd st) + 1"
      "live_ids (snd ?st1) \<subseteq> live_ids (snd st) \<union> session_id ` set new"
      "\<forall>(i, c, env, req) \<in> set (opened_by tap event st). authorized c req \<and> sid_of req = None \<and> initializes (se_codec env) req"
    using step_effect [OF refl, of tap event st] by (elim exE conjE) (rule that, assumption+)
  note IH = Cons.IH [of ?st1]
  have st': "stream_run tap events ?st1 = st'" using Cons.prems by (simp add: stream_run_def)
  have ids: "session_id ` set new = fst ` set (opened_by tap event st)" using new(1) by (metis set_map)
  show ?case
  proof (cases "new = []")
    case True
    then have "opened_by tap event st = []" using new(1) by simp
    then show ?thesis using IH [OF st'] new True by auto
  next
    case False
    then obtain x where x: "opened_by tap event st = [x]" "fst x = session_id (sv_counter (snd st))"
        "sv_counter (snd ?st1) = sv_counter (snd st) + 1"
      using new(1,2) by auto
    let ?n = "length (opened_in tap events ?st1)"
    have "map (\<lambda>i. session_id (sv_counter (snd st) + of_nat i)) [0..<Suc ?n] =
        session_id (sv_counter (snd st)) # map (\<lambda>i. session_id (sv_counter (snd st) + of_nat (Suc i))) [0..<?n]"
      by (subst map_upt_Suc) simp
    also have "\<dots> = map fst (opened_in tap (event # events) st)"
      using IH [OF st'] x by (simp add: add.assoc)
    finally have "map fst (opened_in tap (event # events) st) =
        map (\<lambda>i. session_id (sv_counter (snd st) + of_nat i)) [0..<length (opened_in tap (event # events) st)]"
      using x(1) by simp
    then show ?thesis using IH [OF st'] new(3,4) ids x(1) by auto
  qed
qed (simp add: stream_run_def)

text \<open>
  C30: A request as a client writes it is read back as it was: its verb and path, its
  headers under their lower-case names, the length among them, the body byte for byte, and what
  follows on the connection is left unread.
\<close>

theorem request_roundtrip:
  assumes "word_ok verb" "word_ok path" "list_all (header_ok lower) hs"
    and "lower ''Content-Length'' = ''content-length''" "length body \<le> MAX_FRAME_BYTES"
  shows "read_request lower (request_text verb path hs body @ rest) =
    (Inr (Some \<lparr>hr_verb = verb, hr_path = path,
                hr_headers = smap_put ''content-length'' (show_nat (length body))
                  (smap_puts [] (map (\<lambda>h. (lower (fst h), snd h)) hs)),
                hr_body = body\<rparr>), rest)"
proof -
  let ?line = "verb @ '' '' @ path @ '' HTTP/1.1''" and ?ls = "map header_text hs @ [length_line (length body)]"
  have "list_all (\<lambda>l. l \<noteq> [] \<and> NL \<notin> set l) (?line # ?ls)"
    using assms(3) length_line_text request_line_parts(2) [OF assms(1, 2)]
    by (auto simp: list_all_iff header_ok_def header_text_def)
  then have head: "head_lines (request_text verb path hs body @ rest) [] = (Some (?line # ?ls), body @ rest)"
    unfolding request_text_def append_assoc using head_lines_block by fastforce
  have "request_headers lower ?ls ([], 0) =
      Some (smap_put ''content-length'' (show_nat (length body))
              (smap_puts [] (map (\<lambda>h. (lower (fst h), snd h)) hs)), length body)"
    using assms(4, 5) by (simp add: request_headers_append request_headers_ok [OF assms(3)] request_length)
  then show ?thesis
    using request_line_parts(1, 3) [OF assms(1, 2)]
    by (simp add: read_request_def head part_at_def read_exact_def del: append.simps split_on.simps)
qed

theorem request_roundtrip_witness:
  "read_request ascii_lower (request_text ''POST'' ''/mcp'' [(''Mcp-Session-Id'', ''0001'')] ''{}'' @ ''GET'') =
    (Inr (Some \<lparr>hr_verb = ''POST'', hr_path = ''/mcp'',
                hr_headers = smap_put ''content-length'' (show_nat 2) [(''mcp-session-id'', ''0001'')],
                hr_body = ''{}''\<rparr>), ''GET'')"
proof -
  have "utf8_valid (header_text (''Mcp-Session-Id'', ''0001''))"
    by (rule ascii_valid) (simp add: header_text_def)
  then have "list_all (header_ok ascii_lower) [(''Mcp-Session-Id'', ''0001'')]"
    by (simp add: header_ok_def header_text_def trimmed_eval ascii_lower_def lower_char_def of_char_def)
  moreover have "ascii_lower ''Content-Length'' = ''content-length''" "ascii_lower ''Mcp-Session-Id'' = ''mcp-session-id''"
    by code_simp+
  moreover have "word_ok ''POST''" "word_ok ''/mcp''" "length ''{}'' \<le> MAX_FRAME_BYTES"
    by (simp_all add: word_ok_def MAX_FRAME_BYTES_def)
  moreover have "smap_puts [] [(k :: str, v :: str)] = [(k, v)]" for k v by (simp add: smap_puts_def)
  ultimately show ?thesis
    using request_roundtrip [of "''POST''" "''/mcp''" ascii_lower "[(''Mcp-Session-Id'', ''0001'')]" "''{}''" "''GET''"]
    by (simp add: numeral_2_eq_2 del: append.simps smap_put.simps)
qed

text \<open>C12: Whatever requests and reloads arrive, in whatever order, every live session was opened
  by a request whose body is an \<open>initialize\<close> message, that names no session and that carried a bearer token of the configuration then
  in force, or that configuration asks for none; and no session id is given out twice before
  the counter wraps.\<close>
theorem sessions_authorised:
  assumes "stream_run tap events (c, server_start) = (c', sv)" "length events < 2 ^ 64"
  shows "live_ids sv \<subseteq> fst ` set (opened_in tap events (c, server_start)) \<and>
    distinct (map fst (opened_in tap events (c, server_start))) \<and>
    (\<forall>(i, conf, env, req) \<in> set (opened_in tap events (c, server_start)).
       sid_of req = None \<and> initializes (se_codec env) req \<and>
       (pcf_client_tokens conf = [] \<or>
        (\<exists>token \<in> set (pcf_client_tokens conf).
           smap_get ''authorization'' (hr_headers req) = Some (''Bearer '' @ token))))"
proof -
  let ?o = "opened_in tap events (c, server_start)"
  note r = run_effect [OF assms(1)]
  have "inj_on (\<lambda>i. session_id (1 + of_nat i)) {0..<length ?o}"
  proof (rule inj_onI)
    fix i j assume ij: "i \<in> {0..<length ?o}" "j \<in> {0..<length ?o}" "session_id (1 + of_nat i) = session_id (1 + of_nat j)"
    then have "unat (of_nat i :: u64) = unat (of_nat j :: u64)" by (simp only: session_id_inject add_left_cancel)
    moreover have "i < 2 ^ 64" "j < 2 ^ 64" using ij r assms(2) by auto
    ultimately show "i = j" by (simp add: unat_of_nat)
  qed
  then have d: "distinct (map fst ?o)"
    using r by (simp add: distinct_map server_start_def)
  have "pcf_client_tokens conf = [] \<or> (\<exists>token \<in> set (pcf_client_tokens conf).
      smap_get ''authorization'' (hr_headers req) = Some (''Bearer '' @ token))"
    if "authorized conf req" for conf req
    using authorized_token [OF that] by blast
  then have "\<forall>(i, conf, env, req) \<in> set ?o. sid_of req = None \<and> initializes (se_codec env) req \<and> (pcf_client_tokens conf = [] \<or>
      (\<exists>token \<in> set (pcf_client_tokens conf).
         smap_get ''authorization'' (hr_headers req) = Some (''Bearer '' @ token)))"
    using r [THEN conjunct2, THEN conjunct2, THEN conjunct2, THEN bspec] by fast
  moreover have "live_ids server_start = {}" by (simp add: live_ids_def server_start_def)
  ultimately show ?thesis using r d by simp
qed

theorem sessions_authorised_witness:
  "let events = [Incoming quiet_env (post_of [(''authorization'', ''Bearer t'')] ''initialize'')];
       (c, sv) = stream_run False events (token_config, server_start)
   in live_ids sv = {''0000000000000001''} \<and> live_ids sv \<subseteq> fst ` set (opened_in False events (token_config, server_start))"
proof -
  let ?req = "post_of [(''authorization'', ''Bearer t'')] ''initialize''"
  let ?ev = "[Incoming quiet_env ?req]"
  obtain c sv where r: "stream_run False ?ev (token_config, server_start) = (c, sv)" by force
  have a: "authorized token_config ?req"
    by (simp add: authorized_def authorize_client_def client_policy_def bearer_authenticate_def post_of_def token_config_def)
  obtain ss where "session_create quiet_env token_config = Some (Inr ss)"
    by (simp add: session_create_def token_config_def resilience_default_def durations_ok_def Let_def)
  then have "live_ids sv = {session_id 1}"
    using r a
    by (auto simp: stream_run_def handle_request_def post_message_def parse_body_def quiet_env_def method_codec_def
        post_of_def sid_of_def open_session_def new_session_id_def server_start_def live_ids_simps get_str_def json_simps
        split: prod.splits) (auto simp: live_ids_def)
  moreover have "live_ids sv \<subseteq> fst ` set (opened_in False ?ev (token_config, server_start))"
    using sessions_authorised [OF r] by simp
  ultimately show ?thesis using r by (simp add: first_session_id)
qed

text \<open>C40: Once a session is open nothing but its id is asked for: a request that names a session, live
  or not, is handled the same whatever credential it carries, or none, and whatever tokens the
  configuration asks for. The ids count up from 1 (\<open>session_id\<close>).\<close>
theorem session_id_is_credential:
  assumes "sid_of req \<noteq> None"
  shows "handle_request env (c\<lparr>pcf_client_tokens := tokens\<rparr>) tap
      (req\<lparr>hr_headers := smap_put ''authorization'' bearer_value (hr_headers req)\<rparr>) sv = handle_request env c tap req sv"
proof -
  let ?r = "req\<lparr>hr_headers := smap_put ''authorization'' bearer_value (hr_headers req)\<rparr>"
  have sid: "sid_of ?r = sid_of req" by (simp add: sid_of_def store_simps)
  then have ses: "session_of ?r sv = session_of req sv" for sv by (simp add: session_of_def)
  have "in_session m ?r sv = in_session m req sv" "get_events ?r sv = get_events req sv" for m sv
    by (simp_all add: in_session_def get_events_def ses split: option.split)
  moreover obtain i where i: "sid_of req = Some i" using assms by blast
  ultimately have "post_message env (c\<lparr>pcf_client_tokens := tokens\<rparr>) tap ?r sv = post_message env c tap req sv"
    by (cases "parse_body (se_codec env) (hr_body req)") (simp_all add: post_message_def sid Let_def)
  then show ?thesis
    by (simp add: handle_request_def sid i Let_def \<open>\<And>sv. get_events ?r sv = get_events req sv\<close>)
qed

theorem session_id_is_credential_witness:
  "handle_request quiet_env token_config False
     (post_of [(''authorization'', ''Bearer t''), (''mcp-session-id'', ''0000000000000001'')] ''ping'') server_start =
   handle_request quiet_env token_config False (post_of [(''mcp-session-id'', ''0000000000000001'')] ''ping'') server_start"
  using session_id_is_credential [where req = "post_of [(''mcp-session-id'', ''0000000000000001'')] ''ping''" and
      c = token_config and tokens = "[''t'']" and bearer_value = "''Bearer t''" and env = quiet_env and
      tap = False and sv = server_start]
  by (simp add: post_of_def sid_of_def token_config_def)

text \<open>Opening a session: a configured backend is part of it exactly when one of its addresses
  can be reached, in the configured order. With resilience off, the first that cannot be
  reached ends the connection with an error that names it. With resilience on, a timeout that
  is no duration panics as soon as one backend is reached.\<close>
theorem session_backends_decided:
  assumes "list_all (\<lambda>b. valid_backend_id (bc_id b)) cs"
  shows "session_backends reach rs cs =
    (let live = filter (\<lambda>b. connect_failover reach (bc_addresses b) \<noteq> None) cs;
         new = (\<lambda>b. \<lparr>b_id = bc_id b, b_next_id = 0,
           b_breaker = (if resilience_enabled rs
                        then Some (breaker_new (unat (rs_failure_threshold rs)) (rs_reset_timeout rs)) else None),
           b_token = None, b_keywords = [], b_capabilities = jobj [], b_server_info = None\<rparr>)
     in if resilience_enabled rs
        then (if live \<noteq> [] \<and> \<not> durations_ok (rs_request_timeout rs) then None else Some (Inr (map new live)))
        else case List.find (\<lambda>b. connect_failover reach (bc_addresses b) = None) cs of
               Some b \<Rightarrow> Some (Inl (IoError NotConnected (''backend '' @ bc_id b @ '': all addresses failed'')))
             | None \<Rightarrow> Some (Inr (map new cs)))"
  using assms
  by (induction cs) (auto simp: Let_def session_backend_def backend_new_def split: option.splits)

theorem session_backends_decided_witness:
  "session_backends (\<lambda>a. a = ''up'') resilience_default
     [\<lparr>bc_id = ''a'', bc_addresses = [''up''], bc_token = None\<rparr>, \<lparr>bc_id = ''b'', bc_addresses = [''down''], bc_token = None\<rparr>] =
   Some (Inl (IoError NotConnected ''backend b: all addresses failed''))"
proof -
  have "valid_backend_id ''a'' \<and> valid_backend_id ''b''"
    by (simp add: valid_backend_id_def DELIMITER_def contains_str_def is_ascii_alphanumeric_def)
  moreover have "\<not> resilience_enabled resilience_default"
    by (simp add: resilience_enabled_def resilience_default_def f64_eq_def)
  ultimately show ?thesis
    by (subst session_backends_decided) (simp_all add: connect_failover_def Let_def)
qed

end
