(* ===== verification/RouterShutdown.thy ===== *)
theory RouterShutdown
  imports RouterTheorems
begin

text \<open>
  The shutdown of the forward router (\<open>serve\<close>, \<open>drain\<close> and \<open>Backend::close\<close> of
  \<open>src/src/router.rs\<close>). The route loop has ended, and the readers, the pool, the tasks, the pings
  and the publishers still run beside the drain, which polls for an end of the work every five
  milliseconds of its window and aborts what is left. A pooled call ends in two steps: it removes
  its handle, and only then writes its answer; \<open>cl_unsent\<close> holds the answers in between.
\<close>

section \<open>The drain window\<close>

record closing =
  cl_router :: router
  cl_unsent :: "json list"

text \<open>The end of a pooled call up to the write of its answer.\<close>

definition retire_call :: "env \<Rightarrow> pool_call \<Rightarrow> router \<Rightarrow> router" where
  "retire_call env j r =
     (let r = abort_call (pc_handle j) r
      in r\<lparr>rt_inflight := snd (if_remove (\<lambda>v. str_of_bytes (e_enc env v)) (pc_id j) (rt_inflight r)),
           rt_pool_tasks := smap_del (request_key env (pc_id j)) (rt_pool_tasks r),
           rt_pool_tokens := (case call_token (pc_message j) of
              Some token \<Rightarrow> smap_del (request_key env token) (rt_pool_tokens r)
            | None \<Rightarrow> rt_pool_tokens r)\<rparr>)"

lemma finish_call_retires: "finish_call env j response r = emit (ToClient response) (retire_call env j r)"
  by (simp add: finish_call_def retire_call_def Let_def)

inductive closing_step :: "env \<Rightarrow> event \<Rightarrow> closing \<Rightarrow> closing \<Rightarrow> bool" for env where
  spawned: "spawned_step env (cl_router c) r' \<Longrightarrow> closing_step env Spawned c (c\<lparr>cl_router := r'\<rparr>)"
| retires: "\<lbrakk>j \<in> set (rt_pool_calls (cl_router c)); pc_running j;
      run_pooled env (pc_message j) (pc_id j) (cl_router c) = (response, r')\<rbrakk>
    \<Longrightarrow> closing_step env Spawned c \<lparr>cl_router = retire_call env j r', cl_unsent = cl_unsent c @ [response]\<rparr>"
| expires: "\<lbrakk>j \<in> set (rt_pool_calls (cl_router c)); pc_running j; rt_pool_idle (cl_router c) \<noteq> 0\<rbrakk>
    \<Longrightarrow> closing_step env Spawned c
          \<lparr>cl_router = retire_call env j (cl_router c), cl_unsent = cl_unsent c @ [idle_reply (pc_id j)]\<rparr>"
| writes: "cl_unsent c = xs @ m # ys
    \<Longrightarrow> closing_step env Spawned c \<lparr>cl_router = emit (ToClient m) (cl_router c), cl_unsent = xs @ ys\<rparr>"
| backend: "closing_step env (FromBackend i m) c (c\<lparr>cl_router := receive_backend pending i m (cl_router c)\<rparr>)"
| ping: "\<lbrakk>rt_resilient (cl_router c); i < length (rt_backends (cl_router c));
      request env i ''ping'' (jobj []) (cl_router c) = (res, r')\<rbrakk>
    \<Longrightarrow> closing_step env (Ping i) c (c\<lparr>cl_router := emit_if_changed env r'\<rparr>)"
| publish: "closing_step env (Publish u) c (c\<lparr>cl_router := snd (RouterRoute.publish u (cl_router c))\<rparr>)"

inductive closing_run :: "env \<Rightarrow> event list \<Rightarrow> closing \<Rightarrow> closing \<Rightarrow> bool" for env where
  stays: "closing_run env [] c c"
| moves: "closing_step env e c c' \<Longrightarrow> closing_run env es c' c'' \<Longrightarrow> closing_run env (e # es) c c''"

definition work_in_flight :: "router \<Rightarrow> bool" where
  "work_in_flight r \<longleftrightarrow> rt_pool_tasks r \<noteq> [] \<or> rt_task_handles r \<noteq> []"

text \<open>The polls of the window: how many sleeps there were, what the clock read at each poll, what
  happened meanwhile, and whether the window ended because nothing was in flight. The clock is
  that of the system, which may be set back; the code reads it anew at every poll, unless nothing is in
  flight.\<close>

inductive drain_window :: "env \<Rightarrow> u64 \<Rightarrow> nat \<Rightarrow> u64 list \<Rightarrow> event list \<Rightarrow> bool \<Rightarrow> closing \<Rightarrow> closing \<Rightarrow> bool"
  for env limit where
  moves: "closing_step env e c c' \<Longrightarrow> drain_window env limit n ts es settled c' c''
    \<Longrightarrow> drain_window env limit n ts (e # es) settled c c''"
| settled: "\<not> work_in_flight (cl_router c) \<Longrightarrow> drain_window env limit 0 [] [] True c c"
| over: "\<lbrakk>work_in_flight (cl_router c); now_ms env (cl_router c) = (now, r); expired limit now\<rbrakk>
    \<Longrightarrow> drain_window env limit 0 [now] [] False c (c\<lparr>cl_router := r\<rparr>)"
| sleeps: "\<lbrakk>work_in_flight (cl_router c); now_ms env (cl_router c) = (now, r); \<not> expired limit now;
      drain_window env limit n ts es settled (c\<lparr>cl_router := r\<rparr>) c'\<rbrakk>
    \<Longrightarrow> drain_window env limit (Suc n) (now # ts) es settled c c'"

text \<open>\<open>drain\<close> with its window, \<open>drain_ms\<close> being the field \<open>set_drain_timeout\<close> sets; the first reading
  of the clock is the one the deadline is computed from. What runs beside it runs on until the
  abort.\<close>

inductive drained :: "env \<Rightarrow> u64 \<Rightarrow> nat \<Rightarrow> u64 list \<Rightarrow> event list \<Rightarrow> bool \<Rightarrow> closing \<Rightarrow> closing \<Rightarrow> bool"
  for env drain_ms where
  at_once: "\<lbrakk>drain_ms = 0; closing_run env es c c1\<rbrakk>
    \<Longrightarrow> drained env drain_ms 0 [] es False c (c1\<lparr>cl_router := drain (cl_router c1)\<rparr>)"
| windowed: "\<lbrakk>drain_ms \<noteq> 0; closing_run env es c c1; now_ms env (cl_router c1) = (now, r);
      drain_window env (deadline now drain_ms) n ts es' settled (c1\<lparr>cl_router := r\<rparr>) c2;
      closing_run env es'' c2 c3\<rbrakk>
    \<Longrightarrow> drained env drain_ms n (now # ts) (es @ es' @ es'') settled c (c3\<lparr>cl_router := drain (cl_router c3)\<rparr>)"

text \<open>The end of \<open>serve\<close>: every backend in turn is sent the end of the stream, up to the first
  one that fails.\<close>

fun close_backends :: "(str \<Rightarrow> io_error option) \<Rightarrow> backend list \<Rightarrow> str list \<times> io_error option" where
  "close_backends eof [] = ([], None)"
| "close_backends eof (b # bs) =
     (case eof (b_id b) of
        Some e \<Rightarrow> ([b_id b], Some e)
      | None \<Rightarrow> (let (closed, out) = close_backends eof bs in (b_id b # closed, out)))"

text \<open>The backends after the first failure are never told.\<close>

lemma close_backends_spec:
  "close_backends eof bs =
     (let ids = map b_id bs; closed = takeWhile (\<lambda>i. eof i = None) ids
      in case drop (length closed) ids of [] \<Rightarrow> (ids, None) | i # _ \<Rightarrow> (closed @ [i], eof i))"
  by (induction bs) (auto simp: Let_def split: option.splits list.splits)

section \<open>The handles of the pooled calls\<close>

text \<open>The map of the abort handles has those of the calls of the pool, under their ids.\<close>

definition registered :: "env \<Rightarrow> (str, nat) smap \<Rightarrow> pool_call list \<Rightarrow> nat \<Rightarrow> bool" where
  "registered env ts calls n \<longleftrightarrow>
     (\<forall>k h. smap_get k ts = Some h \<longleftrightarrow> (\<exists>j \<in> set calls. request_key env (pc_id j) = k \<and> pc_handle j = h))"

lemma registered_unique:
  assumes "registered env ts calls n" "distinct (map pc_handle calls)" "j \<in> set calls" "j' \<in> set calls"
    and "request_key env (pc_id j) = request_key env (pc_id j')"
  shows "j = j'"
proof -
  have "smap_get (request_key env (pc_id j)) ts = Some (pc_handle j)"
    "smap_get (request_key env (pc_id j)) ts = Some (pc_handle j')"
    using assms(1,3-5) unfolding registered_def by fastforce+
  then show ?thesis using assms(2-4) by (auto simp: distinct_map inj_on_def)
qed

lemma registered_dropped:
  assumes "registered env ts calls n" "distinct (map pc_handle calls)" "j \<in> set calls"
  shows "registered env (smap_del (request_key env (pc_id j)) ts) (filter (\<lambda>x. pc_handle x \<noteq> pc_handle j) calls) n"
proof -
  have "pc_handle x \<noteq> pc_handle j \<longleftrightarrow> request_key env (pc_id x) \<noteq> request_key env (pc_id j)"
    if "x \<in> set calls" for x
    using registered_unique [OF assms that] that assms(2,3) by (auto simp: distinct_map inj_on_def)
  then show ?thesis using assms(1) unfolding registered_def smap_get_del by auto
qed

interpretation tracked: handle_law env "registered env"
proof
  fix ts calls n k h
  assume r: "registered env ts calls n" "distinct (map pc_handle calls)"
    and "smap_get k ts = Some h \<or> (\<exists>j \<in> set calls. pc_handle j = h \<and> request_key env (pc_id j) = k)"
  then obtain j where "j \<in> set calls" "pc_handle j = h" "request_key env (pc_id j) = k"
    unfolding registered_def by blast
  then show "registered env (smap_del k ts) (filter (\<lambda>j. pc_handle j \<noteq> h) calls) n"
    using registered_dropped [OF r] by blast
next
  fix ts calls n h
  let ?mark = "\<lambda>x :: pool_call. if pc_handle x = h then x\<lparr>pc_running := True\<rparr> else x"
  have "(\<exists>x \<in> set (map ?mark xs). request_key env (pc_id x) = k \<and> pc_handle x = h') \<longleftrightarrow>
      (\<exists>x \<in> set xs. request_key env (pc_id x) = k \<and> pc_handle x = h')" for xs k h'
    by (induction xs) auto
  then show "registered env ts calls n \<Longrightarrow> registered env ts (map ?mark calls) n"
    by (simp only: registered_def simp_thms)
qed

lemma registered_spawn:
  assumes "pool_law (registered env) r" "\<forall>j \<in> set (rt_pool_calls r). request_key env (pc_id j) \<noteq> request_key env rid"
  shows "pool_law (registered env) (spawn_pooled_call env m rid r)"
proof -
  have "rt_pool_tasks (spawn_pooled_call env m rid r) = smap_put (request_key env rid) (rt_call_seq r) (rt_pool_tasks r)"
    "rt_pool_calls (spawn_pooled_call env m rid r) =
       rt_pool_calls r @ [\<lparr>pc_handle = rt_call_seq r, pc_message = m, pc_id = rid, pc_running = False\<rparr>]"
    by (simp_all add: spawn_pooled_call_def Let_def split: option.splits)
  then show ?thesis using assms by (auto simp: pool_law_def registered_def smap_get_put)
qed

lemma registered_retire:
  assumes "pool_law (registered env) r" "pool_ok r" "j \<in> set (rt_pool_calls r)"
  shows "pool_law (registered env) (retire_call env j r)"
  using tracked.kept_finish [OF assms, of JNull] by (simp add: finish_call_retires)

section \<open>The account at shutdown\<close>

text \<open>The ids of the requests of the connection, \<open>initialize\<close> included, have keys of their own.\<close>

definition own_keys :: "env \<Rightarrow> json multiset \<Rightarrow> bool" where
  "own_keys env ids \<longleftrightarrow> (\<forall>k. count (image_mset (request_key env) ids) k \<le> 1)"

lemma own_keys_less: "own_keys env (A + B) \<Longrightarrow> own_keys env A"
  by (simp add: own_keys_def) (meson add_leD1)

lemma own_keys_fresh:
  assumes "own_keys env (A + {#i#})" "k \<in># A"
  shows "request_key env k \<noteq> request_key env i"
proof
  assume same: "request_key env k = request_key env i"
  have "request_key env i \<in># image_mset (request_key env) A" using assms(2) by (auto simp flip: same)
  then have "Suc 0 \<le> count (image_mset (request_key env) A) (request_key env i)" by (simp add: Suc_le_eq)
  moreover have "count (image_mset (request_key env) (A + {#i#})) (request_key env i) \<le> 1"
    using assms(1) unfolding own_keys_def by blast
  ultimately show False by (simp add: count_eq_zero_iff)
qed

lemma session_registered:
  assumes "session env se r0 es r" "wf_router r0" "rt_pool_calls r0 = []" "rt_pool_tasks r0 = []"
    and "own_keys env (asked_by es)"
  shows "pool_law (registered env) r"
  using assms
proof (induction rule: session.induct)
  case init
  then show ?case by (simp add: pool_law_def registered_def)
next
  case (client es r m r')
  have a: "wf_router r" "pool_ok r" "mset (map pc_id (rt_pool_calls r)) \<subseteq># asked_by es"
    using session_accounts [OF client.hyps(1) client.prems(1-3)] by (auto simp: accounts_def)
  have keys: "own_keys env (asked_by es + asked m)" using client.prems(4) by (simp add: by_append)
  then have reg: "pool_law (registered env) r" using client.IH client.prems own_keys_less by blast
  have "pool_law (registered env) (spawn_pooled_call env m rid r)" if "asked m = {#rid#}" for rid
  proof (intro registered_spawn [OF reg] ballI)
    fix j
    assume "j \<in> set (rt_pool_calls r)"
    then have "pc_id j \<in># asked_by es" by (intro mset_subset_eqD [OF a(3)]) simp
    then show "request_key env (pc_id j) \<noteq> request_key env rid"
      using own_keys_fresh [of env "asked_by es" rid] keys that by simp
  qed
  then show ?case using tracked.kept_message [OF reg a(1,2) client.hyps(2)] by blast
next
  case (spawned es r r')
  then show ?case
    using session_accounts [OF spawned.hyps(1) spawned.prems(1-3)] tracked.kept_spawned
    by (auto simp: by_append accounts_def)
qed (auto simp: by_append tracked.kept_receive tracked.kept_publish intro: tracked.kept_ping)

text \<open>The answers on their way out count as what the client is owed.\<close>

definition owed :: "closing \<Rightarrow> json multiset" where
  "owed c = account (cl_router c) + mset (reply_ids (map ToClient (cl_unsent c)))"

definition closing_ok :: "env \<Rightarrow> closing \<Rightarrow> bool" where
  "closing_ok env c \<longleftrightarrow> wf_router (cl_router c) \<and> pool_ok (cl_router c) \<and> pool_law (registered env) (cl_router c)"

lemma quiet_owed:
  "quiet (cl_router c) r' \<Longrightarrow> pool_law (registered env) r' \<Longrightarrow> closing_ok env c \<Longrightarrow>
     closing_ok env (c\<lparr>cl_router := r'\<rparr>) \<and> owed (c\<lparr>cl_router := r'\<rparr>) = owed c"
  using quiet_balanced [of "cl_router c" r'] by (auto simp: closing_ok_def owed_def balanced_def)

lemma tick_owed: "closing_ok env c \<Longrightarrow> now_ms env (cl_router c) = (now, r) \<Longrightarrow>
    closing_ok env (c\<lparr>cl_router := r\<rparr>) \<and> owed (c\<lparr>cl_router := r\<rparr>) = owed c"
  by (rule quiet_owed) (auto simp: now_ms_def closing_ok_def)

lemma retire_owed:
  assumes "closing_ok env c" "quiet (cl_router c) r'" "pool_law (registered env) r'" "j \<in> set (rt_pool_calls r')"
    and "is_reply (pc_id j) response" "c' = \<lparr>cl_router = retire_call env j r', cl_unsent = cl_unsent c @ [response]\<rparr>"
  shows "closing_ok env c' \<and> owed c' = owed c"
proof -
  have q: "wf_router r'" "pool_ok r'" "account r' = account (cl_router c)"
    using quiet_balanced [OF assms(2)] assms(1) by (auto simp: balanced_def closing_ok_def)
  have "balanced r' (finish_call env j response r') {#} {#}" by (rule finish_balanced [OF assms(4) q(2) assms(5)])
  then have "wf_router (retire_call env j r')" "pool_ok (retire_call env j r')"
      "account (retire_call env j r') + {#pc_id j#} = account r'"
    using q assms(5) by (simp_all add: balanced_def finish_call_retires emit_def wf_router_def pool_ok_def running_calls_def account_def)
  then show ?thesis
    using registered_retire [OF assms(3) q(2) assms(4)] q(3) assms(5,6) by (simp add: closing_ok_def owed_def add_ac)
qed

lemma closing_step_owed:
  assumes "closing_step env e c c'" "closing_ok env c"
  shows "closing_ok env c' \<and> (\<exists>s. owed c' = owed c + s \<and> s \<subseteq># strays [e])"
  using assms(1)
proof cases
  case (spawned r')
  then show ?thesis
    using spawned_balanced [OF spawned(3)] tracked.kept_spawned [OF spawned(3)] assms(2)
    by (auto simp: closing_ok_def owed_def balanced_def)
next
  case (retires j response r')
  note f = run_pooled_frame [OF retires(5)]
  have "is_reply (pc_id j) response"
    using f(2) assms(2) retires(3) by (auto simp: closing_ok_def pool_ok_def list_all_iff)
  then have "closing_ok env c' \<and> owed c' = owed c"
    using retires(2,3) assms(2) served_quiet [OF f(1)] tracked.kept_served [OF f(1)]
    by (intro retire_owed [OF assms(2), of r' j response]) (auto simp: closing_ok_def quiet_def)
  then show ?thesis by simp
next
  case (expires j)
  then have "closing_ok env c' \<and> owed c' = owed c" using assms(2)
    by (intro retire_owed [OF assms(2), of "cl_router c" j "idle_reply (pc_id j)"]) (auto simp: closing_ok_def idle_reply_def)
  then show ?thesis by simp
next
  case (writes xs m ys)
  have "map ToClient (cl_unsent c) = map ToClient xs @ [ToClient m] @ map ToClient ys" using writes(3) by simp
  then have "mset (reply_ids (map ToClient (cl_unsent c))) = mset (reply_ids (map ToClient (xs @ ys))) + mset (reply_ids [ToClient m])"
    by (simp only: reply_ids_simps map_append mset_append) (simp add: add_ac)
  then show ?thesis
    using writes(2) assms(2)
    by (simp add: closing_ok_def owed_def account_def emit_def wf_router_def pool_ok_def running_calls_def pool_law_def add_ac)
next
  case (backend i m pending)
  obtain s where "balanced (cl_router c) (receive_backend pending i m (cl_router c)) s {#}" "s \<subseteq># stray m"
    using receive_balanced by blast
  then show ?thesis
    using backend assms(2) tracked.kept_receive by (auto simp: closing_ok_def owed_def balanced_def add_ac)
next
  case (ping i res r')
  have "quiet (cl_router c) (emit_if_changed env r')" by (rule quiet_ping [OF ping(4,5)])
  then show ?thesis
    using quiet_owed tracked.kept_ping [OF _ ping(4,5)] assms(2) ping(2) by (auto simp: closing_ok_def)
next
  case (publish u)
  then show ?thesis
    using quiet_owed [OF quiet_publish tracked.kept_publish assms(2)] assms(2) by (auto simp: closing_ok_def)
qed

text \<open>What a closing router has relayed beside what it owed.\<close>

definition owes :: "env \<Rightarrow> closing \<Rightarrow> event list \<Rightarrow> closing \<Rightarrow> bool" where
  "owes env c es c' \<longleftrightarrow> closing_ok env c' \<and> (\<exists>s. owed c' = owed c + s \<and> s \<subseteq># strays es)"

lemma owes_trans: "owes env c es c' \<Longrightarrow> owes env c' es' c'' \<Longrightarrow> owes env c (es @ es') c''"
proof -
  assume a: "owes env c es c'" "owes env c' es' c''"
  obtain s s' where "owed c' = owed c + s" "s \<subseteq># strays es" "owed c'' = owed c' + s'" "s' \<subseteq># strays es'"
    using a by (auto simp: owes_def)
  then have "owed c'' = owed c + (s + s')" "s + s' \<subseteq># strays (es @ es')"
    by (simp_all only: by_append subset_mset.add_mono add.assoc)
  then show ?thesis using a(2) unfolding owes_def by blast
qed

lemma owes_step: "closing_step env e c c' \<Longrightarrow> closing_ok env c \<Longrightarrow> owes env c [e] c'"
  unfolding owes_def by (rule closing_step_owed)

lemma owes_same: "closing_ok env c' \<and> owed c' = owed c \<Longrightarrow> owes env c [] c'"
  by (auto simp: owes_def)

lemma owes_ok: "owes env c es c' \<Longrightarrow> closing_ok env c'"
  by (simp add: owes_def)

lemma closing_run_owes: "closing_run env es c c' \<Longrightarrow> closing_ok env c \<Longrightarrow> owes env c es c'"
proof (induction rule: closing_run.induct)
  case (moves e c c' es c'')
  note s = owes_step [OF moves.hyps(1) moves.prems]
  show ?case using owes_trans [OF s moves.IH [OF owes_ok [OF s]]] by simp
qed (simp add: owes_same)

lemma drain_window_owes:
  assumes "drain_window env limit n ts es settled c c'" "closing_ok env c"
  shows "owes env c es c' \<and> (settled \<longrightarrow> \<not> work_in_flight (cl_router c'))"
  using assms
proof (induction rule: drain_window.induct)
  case (moves e c c' n ts es settled c'')
  note s = owes_step [OF moves.hyps(1) moves.prems]
  show ?case using owes_trans [OF s] moves.IH [OF owes_ok [OF s]] by fastforce
next
  case (over c now r)
  then show ?case using tick_owed owes_same by blast
next
  case (sleeps c now r n ts es settled c')
  have s: "owes env c [] (c\<lparr>cl_router := r\<rparr>)" by (rule owes_same [OF tick_owed [OF sleeps.prems sleeps.hyps(2)]])
  show ?case using owes_trans [OF s] sleeps.IH [OF owes_ok [OF s]] by fastforce
qed (simp add: owes_same)

lemma no_calls_stay:
  assumes "closing_step env e c c'" "rt_pool_calls (cl_router c) = []"
  shows "rt_pool_calls (cl_router c') = []"
  using assms(1)
proof cases
  case (spawned r')
  from spawned(3) show ?thesis
  proof cases
    case (run j response r1)
    then show ?thesis
      using served_quiet [OF run_pooled_frame(1) [OF run(3)]] spawned(2) assms(2)
      by (auto simp: finish_run_def abort_run_def quiet_def Let_def)
  qed (use assms(2) in auto)
next
  case (ping i res r')
  then show ?thesis using quiet_ping [OF ping(4,5)] assms(2) by (simp add: quiet_def)
next
  case (publish u)
  then show ?thesis using quiet_publish [of "cl_router c" u] assms(2) by (simp add: quiet_def)
qed (use assms(2) in \<open>auto simp: calls_receive emit_def\<close>)

lemma no_calls_run: "closing_run env es c c' \<Longrightarrow> rt_pool_calls (cl_router c) = [] \<Longrightarrow> rt_pool_calls (cl_router c') = []"
  by (induction rule: closing_run.induct) (auto dest: no_calls_stay)

lemma idle_no_calls: "closing_ok env c \<Longrightarrow> \<not> work_in_flight (cl_router c) \<Longrightarrow> rt_pool_calls (cl_router c) = []"
  by (cases "rt_pool_calls (cl_router c)") (auto simp: closing_ok_def pool_law_def registered_def work_in_flight_def)

lemma drain_owed:
  assumes "closing_ok env c"
  shows "owed (c\<lparr>cl_router := drain (cl_router c)\<rparr>) + mset (map pc_id (rt_pool_calls (cl_router c))) = owed c \<and>
    rt_pool_calls (drain (cl_router c)) = []"
proof -
  have "pc_handle j \<in> snd ` set (rt_pool_tasks (cl_router c))" if "j \<in> set (rt_pool_calls (cl_router c))" for j
  proof -
    have "smap_get (request_key env (pc_id j)) (rt_pool_tasks (cl_router c)) = Some (pc_handle j)"
      using assms that by (auto simp: closing_ok_def pool_law_def registered_def)
    then show ?thesis using smap_get_in by force
  qed
  then have "rt_pool_calls (drain (cl_router c)) = []" by (auto simp: drain_def filter_empty_conv)
  moreover have "rt_wire (drain (cl_router c)) = rt_wire (cl_router c)" by (simp add: drain_def)
  ultimately show ?thesis by (simp add: owed_def account_def add_ac)
qed

lemma drained_owes:
  assumes "drained env drain_ms n ts es settled c c'" "closing_ok env c"
  shows "\<exists>c1. owes env c es c1 \<and> c' = c1\<lparr>cl_router := drain (cl_router c1)\<rparr> \<and>
    (settled \<longrightarrow> rt_pool_calls (cl_router c1) = [])"
  using assms(1)
proof cases
  case (at_once c1)
  then show ?thesis using closing_run_owes assms(2) by blast
next
  case (windowed es1 c1 now r ts' es2 c2 es3 c3)
  have 1: "owes env c es1 c1" by (rule closing_run_owes [OF windowed(5) assms(2)])
  have 2: "owes env c1 [] (c1\<lparr>cl_router := r\<rparr>)" by (rule owes_same [OF tick_owed [OF owes_ok [OF 1] windowed(6)]])
  have 3: "owes env (c1\<lparr>cl_router := r\<rparr>) es2 c2" "settled \<longrightarrow> \<not> work_in_flight (cl_router c2)"
    using drain_window_owes [OF windowed(7) owes_ok [OF 2]] by simp_all
  have 4: "owes env c2 es3 c3" by (rule closing_run_owes [OF windowed(8) owes_ok [OF 3(1)]])
  have "settled \<longrightarrow> rt_pool_calls (cl_router c3) = []"
    using no_calls_run [OF windowed(8)] idle_no_calls [OF owes_ok [OF 3(1)]] 3(2) by blast
  then show ?thesis
    using owes_trans [OF owes_trans [OF owes_trans [OF 1 2] 3(1)] 4] windowed(2,3) by auto
qed

lemma window_polls:
  "drain_window env limit n ts es settled c c' \<Longrightarrow> limit \<noteq> 0 \<Longrightarrow>
     n \<le> length ts \<and> (\<forall>i < n. unat (ts ! i) < unat limit)"
proof (induction rule: drain_window.induct)
  case (sleeps c now r n ts es settled c')
  then have "unat now < unat limit" by (auto simp: expired_def word_le_nat_alt)
  then show ?case using sleeps by (auto simp: nth_Cons split: nat.split)
qed simp_all

section \<open>A pooled call at shutdown\<close>

lemma local_call_retires:
  "\<exists>r c response. session demo_env se pooled_router [FromClient local_call] r \<and>
     closing_run demo_env [Spawned, Spawned] \<lparr>cl_router = r, cl_unsent = []\<rparr> c \<and> \<not> work_in_flight (cl_router c) \<and>
     cl_unsent c = [response] \<and> is_reply (JStr ''x'') response \<and> reply_ids (rt_wire (cl_router c)) = []"
proof -
  let ?j = "\<lparr>pc_handle = 0, pc_message = local_call, pc_id = JStr ''x'', pc_running = False\<rparr>"
  define r1 where "r1 = spawn_pooled_call demo_env local_call (JStr ''x'') pooled_router"
  define r2 where "r2 = start_call demo_env ?j r1"
  have run: "session demo_env se pooled_router [FromClient local_call] r1"
    unfolding r1_def using session.client [OF session.init local_call_spawned] by simp
  have r1: "rt_pool_calls r1 = [?j]" "rt_pool_permits r1 = Some 1" "rt_task_handles r1 = []" "rt_wire r1 = []"
    "rt_pool_tasks r1 = [(request_key demo_env (JStr ''x''), 0)]"
    by (auto simp: r1_def spawn_pooled_call_def Let_def pooled_router_def set_worker_pool_def set_registry_def
        configure_def split: option.splits)
  then have "permit_free r1" by (simp add: permit_free_def running_calls_def)
  with r1 have "spawned_step demo_env r1 r2" unfolding r2_def by (intro spawned_step.start) simp_all
  then have 1: "closing_step demo_env Spawned \<lparr>cl_router = r1, cl_unsent = []\<rparr> \<lparr>cl_router = r2, cl_unsent = []\<rparr>"
    using closing_step.spawned [of demo_env "\<lparr>cl_router = r1, cl_unsent = []\<rparr>" r2] by simp
  have r2: "rt_pool_calls r2 = [?j\<lparr>pc_running := True\<rparr>]" "rt_task_handles r2 = []" "rt_wire r2 = []"
    "rt_pool_tasks r2 = [(request_key demo_env (JStr ''x''), 0)]" "rt_filters r2 = None"
    by (simp_all add: r2_def start_call_def now_ms_def r1)
      (auto simp: r1_def spawn_pooled_call_def Let_def pooled_router_def set_worker_pool_def set_registry_def
        configure_def split: option.splits)
  obtain response r3 where 3: "run_pooled demo_env local_call (JStr ''x'') r2 = (response, r3)" by force
  then have r3: "r3 = r2" using r2(5) by (auto simp: run_pooled_def Let_def split: option.splits)
  let ?c = "\<lparr>cl_router = retire_call demo_env (?j\<lparr>pc_running := True\<rparr>) r3, cl_unsent = [] @ [response]\<rparr>"
  have "closing_step demo_env Spawned \<lparr>cl_router = r2, cl_unsent = []\<rparr> ?c"
    using closing_step.retires [of "?j\<lparr>pc_running := True\<rparr>" "\<lparr>cl_router = r2, cl_unsent = []\<rparr>" demo_env response r3] r2 3
    by simp
  then have "closing_run demo_env [Spawned, Spawned] \<lparr>cl_router = r1, cl_unsent = []\<rparr> ?c"
    using 1 closing_run.moves closing_run.stays by blast
  moreover have "is_reply (JStr ''x'') response"
    using run_pooled_frame(2) [OF 3] by (simp add: local_call_def json_simps)
  moreover have "\<not> work_in_flight (cl_router ?c)" "reply_ids (rt_wire (cl_router ?c)) = []"
    using r2 by (simp_all add: r3 work_in_flight_def retire_call_def abort_call_def smap_del_def Let_def)
  ultimately show ?thesis using run by (intro exI [of _ r1] exI [of _ ?c] exI [of _ response]) simp
qed

text \<open>Once the call has retired, the drain ends at its first poll.\<close>

lemma drained_at_first_poll:
  assumes "closing_run env es c c1" "\<not> work_in_flight (cl_router c1)" "drain_ms \<noteq> 0"
    and "closing_run env es' (c1\<lparr>cl_router := (cl_router c1)\<lparr>rt_ticks := Suc (rt_ticks (cl_router c1))\<rparr>\<rparr>) c2"
  shows "\<exists>t. drained env drain_ms 0 [t] (es @ es') True c (c2\<lparr>cl_router := drain (cl_router c2)\<rparr>)"
proof -
  let ?c = "c1\<lparr>cl_router := (cl_router c1)\<lparr>rt_ticks := Suc (rt_ticks (cl_router c1))\<rparr>\<rparr>"
  have "\<not> work_in_flight (cl_router ?c)" using assms(2) by (simp add: work_in_flight_def)
  from drained.windowed [OF assms(3,1) now_ms_def drain_window.settled [OF this] assms(4)] show ?thesis by auto
qed

text \<open>A call that never starts, under a clock that reads \<open>f\<close>.\<close>

definition stuck_router :: router where
  "stuck_router = spawn_pooled_call demo_env local_call (JStr ''x'') pooled_router"

definition stuck_at :: "nat \<Rightarrow> closing" where
  "stuck_at k = \<lparr>cl_router = stuck_router\<lparr>rt_ticks := k\<rparr>, cl_unsent = []\<rparr>"

definition clocked :: "(nat \<Rightarrow> u64) \<Rightarrow> env" where
  "clocked f = demo_env\<lparr>e_now := f\<rparr>"

lemma stuck_fields: "work_in_flight (cl_router (stuck_at k))" "rt_pool_calls (cl_router (stuck_at k)) \<noteq> []"
  "rt_pool_calls (drain (cl_router (stuck_at k))) = []"
  "now_ms (clocked f) (cl_router (stuck_at k)) = (f k, cl_router (stuck_at (Suc k)))"
  "(stuck_at k)\<lparr>cl_router := cl_router (stuck_at m)\<rparr> = stuck_at m"
  by (auto simp: stuck_at_def stuck_router_def work_in_flight_def now_ms_def clocked_def drain_def filter_empty_conv
      spawn_pooled_call_def Let_def pooled_router_def set_worker_pool_def set_registry_def configure_def split: option.splits)

lemma stuck_window:
  assumes "\<forall>i < n. \<not> expired limit (f (k + i))" "expired limit (f (k + n))"
  shows "drain_window (clocked f) limit n (map f [k..<Suc (k + n)]) [] False (stuck_at k) (stuck_at (Suc (k + n)))"
  using assms
proof (induction n arbitrary: k)
  case 0
  then show ?case using drain_window.over [OF stuck_fields(1,4), of limit f k] by (simp add: stuck_fields(5))
next
  case (Suc n)
  have "drain_window (clocked f) limit n (map f [Suc k..<Suc (Suc k + n)]) [] False (stuck_at (Suc k)) (stuck_at (Suc (Suc k + n)))"
    using Suc.prems by (intro Suc.IH) auto
  moreover have "\<not> expired limit (f k)" using Suc.prems(1) by (auto dest: spec [of _ 0])
  ultimately have "drain_window (clocked f) limit (Suc n) (f k # map f [Suc k..<Suc (Suc k + n)]) [] False (stuck_at k) (stuck_at (Suc (Suc k + n)))"
    using drain_window.sleeps [OF stuck_fields(1,4)] by (simp add: stuck_fields(5))
  then show ?case by (simp add: upt_conv_Cons del: upt_Suc)
qed

lemma stuck_drained:
  assumes "drain_ms \<noteq> 0" "\<forall>i < n. \<not> expired (deadline (f 0) drain_ms) (f (Suc i))" "expired (deadline (f 0) drain_ms) (f (Suc n))"
  shows "drained (clocked f) drain_ms n (map f [0..<n + 2]) [] False (stuck_at 0)
    ((stuck_at (n + 2))\<lparr>cl_router := drain (cl_router (stuck_at (n + 2)))\<rparr>)"
proof -
  have "drain_window (clocked f) (deadline (f 0) drain_ms) n (map f [1..<n + 2]) [] False (stuck_at 1) (stuck_at (n + 2))"
    using stuck_window [of n "deadline (f 0) drain_ms" f 1] assms(2,3) by simp
  then show ?thesis
    using drained.windowed [OF assms(1) closing_run.stays stuck_fields(4) _ closing_run.stays, of f 0 n "map f [1..<n + 2]" "[]" False]
    by (simp add: stuck_fields(5) upt_conv_Cons del: upt_Suc)
qed

section \<open>Properties\<close>

text \<open>C6: When the requests of the client have ids of their own, then whatever runs beside the drain, no
  pooled call outlives it, and each request has been answered, has its answer on the way out,
  was dropped by a cancellation of its own, or was aborted by the drain. None was aborted when
  the window ended with nothing in flight. What else reaches the client as a reply is a reply of a
  backend that no request waits for.\<close>
theorem shutdown_accounts_for_requests:
  assumes "session env se r0 es r" "wf_router r0" "rt_pool_calls r0 = []" "rt_pool_tasks r0 = []"
    and "own_keys env (asked_by es)"
    and "drained env drain_ms n ts es' settled \<lparr>cl_router = r, cl_unsent = []\<rparr> c"
  shows "rt_pool_calls (cl_router c) = [] \<and>
    (\<exists>aborted dropped relayed.
        mset (reply_ids (rt_wire (cl_router c))) + mset (reply_ids (map ToClient (cl_unsent c))) + aborted + dropped =
          mset (reply_ids (rt_wire r0)) + asked_by es + relayed \<and>
        (settled \<longrightarrow> aborted = {#}) \<and> image_mset (request_key env) dropped \<subseteq># cancelled_by env es \<and>
        relayed \<subseteq># strays (es @ es'))"
proof -
  obtain dropped relayed where r: "wf_router r" "pool_ok r" "account r + dropped = account r0 + asked_by es + relayed"
      "image_mset (request_key env) dropped \<subseteq># cancelled_by env es" "relayed \<subseteq># strays es"
    using session_accounts [OF assms(1-4)] by (auto simp: accounts_def)
  let ?c0 = "\<lparr>cl_router = r, cl_unsent = []\<rparr>"
  have "closing_ok env ?c0" using r(1,2) session_registered [OF assms(1-5)] by (simp add: closing_ok_def)
  from drained_owes [OF assms(6) this] obtain c1 s where c1: "closing_ok env c1" "owed c1 = owed ?c0 + s"
      "s \<subseteq># strays es'" "c = c1\<lparr>cl_router := drain (cl_router c1)\<rparr>" "settled \<longrightarrow> rt_pool_calls (cl_router c1) = []"
    by (auto simp: owes_def)
  let ?aborted = "mset (map pc_id (rt_pool_calls (cl_router c1)))"
  have d: "owed c + ?aborted = owed c1" "rt_pool_calls (cl_router c) = []" using drain_owed [OF c1(1)] c1(4) by simp_all
  have "owed c + ?aborted + dropped = account r + dropped + s" unfolding d(1) c1(2) by (simp add: owed_def add_ac)
  then have "owed c + ?aborted + dropped = account r0 + asked_by es + (relayed + s)" using r(3) by (simp add: add_ac)
  moreover have "relayed + s \<subseteq># strays (es @ es')" using r(5) c1(3) by (simp add: by_append subset_mset.add_mono)
  ultimately show ?thesis
    using d(2) c1(5) r(4) assms(3)
    by (intro conjI exI [of _ ?aborted] exI [of _ dropped] exI [of _ "relayed + s"]) (auto simp: owed_def account_def)
qed

text \<open>A pooled call that ends, and writes its answer, before the first poll.\<close>

theorem shutdown_accounts_for_requests_witness:
  "\<exists>r ts c. drained demo_env 5000 0 ts [Spawned, Spawned, Spawned] True \<lparr>cl_router = r, cl_unsent = []\<rparr> c \<and>
     rt_pool_calls (cl_router c) = [] \<and> cl_unsent c = [] \<and> mset (reply_ids (rt_wire (cl_router c))) = {#JStr ''x''#}"
proof -
  obtain r c1 response where 1: "session demo_env (\<lambda>_. []) pooled_router [FromClient local_call] r"
      "closing_run demo_env [Spawned, Spawned] \<lparr>cl_router = r, cl_unsent = []\<rparr> c1"
      "\<not> work_in_flight (cl_router c1)" "cl_unsent c1 = [response]"
    using local_call_retires by blast
  let ?c = "c1\<lparr>cl_router := (cl_router c1)\<lparr>rt_ticks := Suc (rt_ticks (cl_router c1))\<rparr>\<rparr>"
  obtain c2 where c2: "closing_run demo_env [Spawned] ?c c2" "cl_unsent c2 = []"
    using closing_step.writes [of ?c "[]" response "[]"] 1(4) closing_run.moves closing_run.stays by fastforce
  obtain t where d: "drained demo_env 5000 0 [t] [Spawned, Spawned, Spawned] True \<lparr>cl_router = r, cl_unsent = []\<rparr>
      (c2\<lparr>cl_router := drain (cl_router c2)\<rparr>)"
    using drained_at_first_poll [OF 1(2,3) _ c2(1), of 5000] by auto
  have "rt_pool_calls pooled_router = []" "wf_router pooled_router" "rt_wire pooled_router = []" "rt_pool_tasks pooled_router = []"
    by (simp_all add: pooled_router_def set_worker_pool_def set_registry_def configure_def wf_router_def)
  moreover have "asked_by [FromClient local_call] = {#JStr ''x''#}" "cancelled_by demo_env [FromClient local_call] = {#}"
    by (simp_all add: cancelled_key_def cancel_request_id_def asked_def is_request_def local_call_def method_of_def get_str_def json_simps)
  ultimately show ?thesis
    using shutdown_accounts_for_requests [OF 1(1) _ _ _ _ d] d c2(2)
    by (intro exI [of _ r] exI [of _ "[t]"] exI [of _ "c2\<lparr>cl_router := drain (cl_router c2)\<rparr>"]) (auto simp: own_keys_def)
qed

text \<open>The readings of a clock that is never set back, and gains the five milliseconds of each sleep.\<close>

definition paced :: "u64 list \<Rightarrow> bool" where
  "paced ts \<longleftrightarrow> (\<forall>i. Suc i < length ts \<longrightarrow> unat (ts ! i) + (if i = 0 then 0 else 5) \<le> unat (ts ! Suc i))"

lemma paced_polls:
  assumes "paced (t0 # ts)" "n \<le> length ts" "\<forall>i < n. unat (ts ! i) < unat t0 + w"
  shows "5 * n \<le> w + 4"
proof (cases n)
  case (Suc k)
  have "unat t0 + 5 * i \<le> unat (ts ! i)" if "i < n" for i
    using that
  proof (induction i)
    case 0
    then show ?case using assms(1,2) by (auto simp: paced_def dest: spec [of _ 0])
  next
    case (Suc i)
    have "unat (ts ! i) + 5 \<le> unat (ts ! Suc i)"
      using assms(1,2) Suc.prems by (auto simp: paced_def dest: spec [of _ "Suc i"])
    then show ?case using Suc by simp
  qed
  then have "unat t0 + 5 * k < unat t0 + w" using assms(3) Suc by (meson lessI order_le_less_trans)
  then show ?thesis using Suc by simp
qed simp

text \<open>C38: A drain sleeps only at readings of the clock before its deadline. So it wakes up at most once for
  each five milliseconds of its window, as long as the clock is not set back meanwhile and does
  not reach the end of the 64-bit range within the window.\<close>
theorem drain_polls_bounded:
  assumes "drained env drain_ms n ts es settled c c'" "ts = t0 # ts'" "unat t0 + unat drain_ms < 2 ^ 64"
  shows "(\<forall>i < n. unat (ts' ! i) < unat t0 + unat drain_ms) \<and> (paced ts \<longrightarrow> 5 * n \<le> unat drain_ms + 4)"
  using assms(1)
proof cases
  case (windowed es1 c1 now r ts1 es2 c2 es3 c3)
  have ts: "now = t0" "ts1 = ts'" using windowed(1) assms(2) by simp_all
  then have limit: "unat (deadline now drain_ms) = unat t0 + unat drain_ms"
    using windowed(4) assms(3) by (simp add: deadline_def unat_word_ariths(1))
  then have "deadline now drain_ms \<noteq> 0" using windowed(4) by (auto simp: unat_eq_0)
  from window_polls [OF windowed(7) this] have w: "n \<le> length ts'" "\<forall>i < n. unat (ts' ! i) < unat t0 + unat drain_ms"
    using limit by (simp_all add: ts)
  then show ?thesis using paced_polls assms(2) by blast
qed (use assms(2) in simp)

text \<open>A call that never starts, under a clock that gains ten milliseconds at each reading: the
  second poll finds a window of twelve over.\<close>

theorem drain_polls_bounded_witness:
  "\<exists>env ts c c'. drained env 12 1 ts [] False c c' \<and> paced ts \<and> rt_pool_calls (cl_router c) \<noteq> [] \<and>
     rt_pool_calls (cl_router c') = [] \<and> 5 * 1 \<le> unat (12 :: u64) + 4"
proof -
  let ?f = "\<lambda>k. if k \<le> 1 then 0 else if k = 2 then 20 else 30 :: u64"
  have ts: "map ?f [0..<1 + 2] = [0, 0, 20]" by (simp add: upt_rec)
  have d: "drained (clocked ?f) 12 1 [0, 0, 20] [] False (stuck_at 0) ((stuck_at (1 + 2))\<lparr>cl_router := drain (cl_router (stuck_at (1 + 2)))\<rparr>)"
    using stuck_drained [of 12 1 ?f] unfolding ts by (simp add: deadline_def expired_def)
  have p: "paced [0, 0, 20 :: u64]" by (auto simp: paced_def nth_Cons less_Suc_eq split: nat.splits)
  then have "5 * 1 \<le> unat (12 :: u64) + 4" using drain_polls_bounded [OF d, of 0 "[0, 20]"] by simp
  then show ?thesis using d p stuck_fields(2,3) by (intro exI [of _ "clocked ?f"] exI [of _ "[0, 0, 20]"] exI conjI) auto
qed

text \<open>The window is measured on the clock of the system: when that is set back, the drain goes on for
  as long as the clock takes to come forward again.\<close>
theorem drain_outlasts_window:
  "\<exists>env ts c c'. drained env 12 n ts [] False c c'"
  using stuck_drained [of 12 n "\<lambda>k. if k = 0 then 100 else if k \<le> n then 0 else 200"] by (auto simp: deadline_def expired_def)

text \<open>The drain takes an answer for sent once the handle of its call is gone: it can return at its
  first poll, with its window unused, while the answer has yet to be written.\<close>
theorem drained_answer_unsent:
  "\<exists>r ts c response. session demo_env se pooled_router [FromClient local_call] r \<and>
     drained demo_env 5000 0 ts [Spawned, Spawned] True \<lparr>cl_router = r, cl_unsent = []\<rparr> c \<and>
     cl_unsent c = [response] \<and> is_reply (JStr ''x'') response \<and> reply_ids (rt_wire (cl_router c)) = []"
proof -
  obtain r c1 response where 1: "session demo_env se pooled_router [FromClient local_call] r"
      "closing_run demo_env [Spawned, Spawned] \<lparr>cl_router = r, cl_unsent = []\<rparr> c1"
      "\<not> work_in_flight (cl_router c1)" "cl_unsent c1 = [response]" "is_reply (JStr ''x'') response"
      "reply_ids (rt_wire (cl_router c1)) = []"
    using local_call_retires by blast
  from drained_at_first_poll [OF 1(2,3) _ closing_run.stays, of 5000]
  obtain ts c where "drained demo_env 5000 0 ts [Spawned, Spawned] True \<lparr>cl_router = r, cl_unsent = []\<rparr> c"
      "cl_unsent c = [response]" "rt_wire (cl_router c) = rt_wire (cl_router c1)"
    using 1(4) by (fastforce simp: drain_def)
  then show ?thesis using 1 by metis
qed

text \<open>A request that reuses the id of a pooled call takes its place in the map of the handles, and
  the first call outlives the drain.\<close>
theorem reused_id_outlives_drain:
  "\<exists>r c. session demo_env se pooled_router [FromClient local_call, FromClient local_call] r \<and>
     drained demo_env 0 0 [] [] False \<lparr>cl_router = r, cl_unsent = []\<rparr> c \<and> rt_pool_calls (cl_router c) \<noteq> []"
proof -
  let ?spawn = "spawn_pooled_call demo_env local_call (JStr ''x'')"
  let ?r = "?spawn (?spawn pooled_router)"
  have "route_message demo_env se local_call (?spawn pooled_router) = (None, ?r)"
    by (rule local_call_spawns) (auto simp: spawn_pooled_call_def Let_def split: option.splits)
  then have "session demo_env se pooled_router [FromClient local_call, FromClient local_call] ?r"
    using session.client [OF session.client [OF session.init local_call_spawned]] by simp
  moreover have "rt_pool_calls (drain ?r) \<noteq> []"
    by (auto simp: drain_def spawn_pooled_call_def Let_def pooled_router_def set_worker_pool_def set_registry_def
        configure_def filter_empty_conv split: option.splits)
  moreover have "drained demo_env 0 0 [] [] False \<lparr>cl_router = ?r, cl_unsent = []\<rparr> \<lparr>cl_router = drain ?r, cl_unsent = []\<rparr>"
    using drained.at_once [OF refl closing_run.stays, of demo_env "\<lparr>cl_router = ?r, cl_unsent = []\<rparr>"] by simp
  ultimately show ?thesis by (intro exI [of _ ?r] exI [of _ "\<lparr>cl_router = drain ?r, cl_unsent = []\<rparr>"]) simp
qed

end
