(* ===== verification/RouterAudit.thy ===== *)
theory RouterAudit
  imports RouterTheorems "HOL-Library.Sublist"
begin

text \<open>
  What every run of the router keeps, proved once. The locale \<open>router_law\<close> states what a relation
  between the router before and after must satisfy: that it holds of the few ways in which the
  code of \<open>src/src/router.rs\<close> writes to a client or a backend, to its audit log, or to its own
  bookkeeping. Its lemmas carry the relation through every operation, up to a run of the relation
  \<open>session\<close> and to \<open>serve\<close>. It is stated in two parts: \<open>router_base\<close> covers everything but calls, which
  is enough to see that no such operation changes a setting of the router; \<open>router_law\<close> adds the law
  of a call, under what the settings say of where a name goes. Three relations are shown to be such
  laws: that serving changes no setting, that the audit log accounts for the calls sent to backends, and
  that the requests of backends are numbered by a counter that only grows.
\<close>

section \<open>Settings and calls\<close>

text \<open>What the builder methods of the router set, and what its backends are set up with.\<close>

definition settings :: "router \<Rightarrow> _" where
  "settings r = (map (\<lambda>b. (b_id b, b_token b, b_keywords b)) (rt_backends r), rt_resilient r, rt_single r,
     rt_trace r, rt_disclose r, rt_threshold r, rt_principal r, rt_strategy r, rt_priority r, rt_overrides r,
     rt_registry r, rt_issuer r, rt_audience r, rt_filters r, rt_directives r, rt_validate r,
     rt_pool_enabled r, rt_pool_idle r, rt_pool_permits r, rt_server_tasks r, rt_subs_enabled r,
     rt_output_limit r)"

text \<open>A request whose method routes to a backend as a call.\<close>

definition CALL_METHODS :: "str list" where
  "CALL_METHODS = map cap_call CAPABILITIES"

definition is_call :: "json \<Rightarrow> bool" where
  "is_call message \<longleftrightarrow> jget ''id'' message \<noteq> None \<and>
     (case method_of message of Some m \<Rightarrow> m \<in> set CALL_METHODS | None \<Rightarrow> False)"

text \<open>What may become of the shared list cache: entries go, and new ones carry the principal of
  this router or none.\<close>

definition cache_from :: "str option \<Rightarrow> list_cache option \<Rightarrow> list_cache option \<Rightarrow> bool" where
  "cache_from who old new \<longleftrightarrow>
     (case (old, new) of
        (None, None) \<Rightarrow> True
      | (Some c, Some c') \<Rightarrow>
          (\<forall>k e. smap_get k (entries c') = Some e \<longrightarrow>
             smap_get k (entries c) = Some e \<or> ce_principal e \<in> {None, who})
      | _ \<Rightarrow> False)"

text \<open>What may become of the reverse map of passed-through names: an entry stays as it is, and a new
  one has the name under which its tool is known at the backend.\<close>

definition reverse_from :: "(str, str \<times> str) smap \<Rightarrow> (str, str \<times> str) smap \<Rightarrow> bool" where
  "reverse_from old new \<longleftrightarrow>
     (\<forall>k v. smap_get k old = Some v \<longrightarrow> smap_get k new = Some v) \<and>
     (\<forall>k bid original. smap_get k new = Some (bid, original) \<longrightarrow>
        smap_get k old = Some (bid, original) \<or> original = k)"

definition own_names :: "(str, str \<times> str) smap \<Rightarrow> bool" where
  "own_names m \<longleftrightarrow> (\<forall>k bid original. smap_get k m = Some (bid, original) \<longrightarrow> original = k)"

text \<open>A step that neither the peers nor the log can see, and that takes up no request of a backend.\<close>

definition unseen :: "router \<Rightarrow> router \<Rightarrow> bool" where
  "unseen r r' \<longleftrightarrow> rt_wire r' = rt_wire r \<and> rt_audit r' = rt_audit r \<and> settings r' = settings r \<and>
     cache_from (rt_principal r) (rt_cache r) (rt_cache r') \<and> reverse_from (rt_reverse r) (rt_reverse r') \<and>
     rt_server_seq r' = rt_server_seq r \<and> rt_server_requests r' = rt_server_requests r"

lemma cache_from_refl [simp]: "cache_from who c c"
  by (simp add: cache_from_def split: option.splits)

lemma cache_from_trans: "cache_from who a b \<Longrightarrow> cache_from who b c \<Longrightarrow> cache_from who a c"
  unfolding cache_from_def by (auto split: option.splits) blast+

lemma cache_from_get: "cache_get b m p now c = (v, c') \<Longrightarrow> cache_from who (Some c) (Some c')"
  by (auto simp: cache_get_def cache_from_def smap_get_del Let_def split: option.splits if_splits)

lemma cache_from_put [simp]: "cache_from who (Some c) (Some (cache_put b m who v now c))"
  by (auto simp: cache_put_def cache_from_def make_entry_def smap_get_del smap_get_put Let_def)

lemma cache_from_invalidate [simp]: "cache_from who (Some c) (Some (invalidate_backend b c))"
  by (auto simp: invalidate_backend_def cache_from_def smap_get_invalidate split: if_splits)

lemma cache_from_invalidate_all [simp]:
  "cache_from who (Some c) (Some (foldl (\<lambda>c d. invalidate_backend d c) c ds))"
  by (induction ds arbitrary: c) (auto intro: cache_from_trans [OF cache_from_invalidate])

lemma reverse_from_refl [simp]: "reverse_from m m"
  by (simp add: reverse_from_def)

lemma reverse_from_trans: "reverse_from a b \<Longrightarrow> reverse_from b c \<Longrightarrow> reverse_from a c"
  unfolding reverse_from_def by blast

lemma reverse_from_insert [simp]: "reverse_from m (entry_or_insert k (bid, k) m)"
  by (auto simp: reverse_from_def entry_or_insert_def smap_get_put split: option.split)

lemma own_names_from: "reverse_from old new \<Longrightarrow> own_names old \<Longrightarrow> own_names new"
  unfolding reverse_from_def own_names_def by blast

lemma own_names_Nil [simp]: "own_names []"
  by (simp add: own_names_def)

lemma settings_principal: "settings s = settings r \<Longrightarrow> rt_principal s = rt_principal r"
  by (simp add: settings_def)

lemma call_methods:
  "CALL_METHODS = [''tools/call'', ''prompts/get'', ''resources/read'']"
  by (simp add: CALL_METHODS_def CAPABILITIES_def)

lemma settings_update [simp]:
  "settings (r\<lparr>rt_ticks := a\<rparr>) = settings r" "settings (r\<lparr>rt_trace_seq := b\<rparr>) = settings r"
  "settings (r\<lparr>rt_cache := c\<rparr>) = settings r" "settings (r\<lparr>rt_tasks := d\<rparr>) = settings r"
  "settings (r\<lparr>rt_subs := e\<rparr>) = settings r" "settings (r\<lparr>rt_reverse := f\<rparr>) = settings r"
  "settings (r\<lparr>rt_audit := g\<rparr>) = settings r" "settings (r\<lparr>rt_surface := h\<rparr>) = settings r"
  "settings (r\<lparr>rt_task_handles := l\<rparr>) = settings r" "settings (r\<lparr>rt_task_runs := m\<rparr>) = settings r"
  "settings (r\<lparr>rt_server_requests := q\<rparr>) = settings r" "settings (r\<lparr>rt_server_seq := t\<rparr>) = settings r"
  "settings (r\<lparr>rt_run_seq := n\<rparr>) = settings r" "settings (r\<lparr>rt_wire := w\<rparr>) = settings r"
  "settings (r\<lparr>rt_pool_calls := u\<rparr>) = settings r" "settings (r\<lparr>rt_call_seq := v\<rparr>) = settings r"
  "settings (r\<lparr>rt_pool_tasks := x\<rparr>) = settings r" "settings (r\<lparr>rt_pool_tokens := y\<rparr>) = settings r"
  "settings (r\<lparr>rt_inflight := z\<rparr>) = settings r" "settings (r\<lparr>rt_variants := k\<rparr>) = settings r"
  by (simp_all add: settings_def)

lemma settings_set_backend:
  assumes "b_id b = b_id (rt_backends r ! i)" "b_token b = b_token (rt_backends r ! i)"
    "b_keywords b = b_keywords (rt_backends r ! i)"
  shows "settings (set_backend i b r) = settings r"
  using roster_set_backend [OF assms] by (simp add: settings_def set_backend_def roster_def)

lemma set_backend_fields [simp]:
  "rt_audit (set_backend i b r) = rt_audit r" "rt_cache (set_backend i b r) = rt_cache r"
  "rt_reverse (set_backend i b r) = rt_reverse r" "rt_server_seq (set_backend i b r) = rt_server_seq r"
  "rt_server_requests (set_backend i b r) = rt_server_requests r"
  by (simp_all add: set_backend_def)

lemma unseen_refl [simp]: "unseen r r"
  by (simp add: unseen_def)

text \<open>The name under which the client sees the \<open>n\<close>-th request of a backend, and the step that takes
  such a request up.\<close>

definition server_id :: "u64 \<Rightarrow> str" where
  "server_id n = ''srv-'' @ show_nat (unat n)"

definition taken_up :: "str \<times> json \<Rightarrow> router \<Rightarrow> router" where
  "taken_up v r = r\<lparr>rt_server_seq := rt_server_seq r + 1,
     rt_server_requests := smap_put (server_id (rt_server_seq r + 1)) v (rt_server_requests r)\<rparr>"

section \<open>The law and what follows from it\<close>

locale router_base =
  fixes env :: env and R :: "router \<Rightarrow> router \<Rightarrow> bool"
  assumes law_trans: "R r s \<Longrightarrow> R s t \<Longrightarrow> R r t"
    and law_unseen: "unseen r s \<Longrightarrow> R r s"
    and law_client: "R r (emit (ToClient message) r)"
    and law_backend: "\<not> is_call message \<Longrightarrow> R r (emit (ToBackend bid message) r)"
    and law_audit: "R r (record_audit env entry r)"
    and law_taken_up: "R r (emit (ToClient message) (taken_up v r))"
    and law_settled: "R r (r\<lparr>rt_server_requests := smap_del k (rt_server_requests r)\<rparr>)"
begin

lemma law_refl: "R r r"
  by (simp add: law_unseen)

lemma law_available: "available env i r = (ok, s) \<Longrightarrow> R r s"
  by (auto simp: available_def Let_def clock_def unseen_def settings_set_backend split: option.splits prod.splits
      intro!: law_unseen)

lemma law_record_breaker: "R r (record_breaker env i ok r)"
  by (auto simp: record_breaker_def Let_def clock_def unseen_def settings_set_backend split: option.splits
      intro!: law_unseen)

lemma law_request:
  assumes "request env i m params r = (x, s)" "m \<notin> set CALL_METHODS"
  shows "R r s"
proof -
  let ?b = "rt_backends r ! i" and ?m = "backend_request_value (rt_backends r ! i) m params"
  let ?r = "set_backend i (?b\<lparr>b_next_id := b_next_id ?b + 1\<rparr>) r"
  have 1: "R r ?r" by (rule law_unseen) (simp add: unseen_def settings_set_backend)
  have "\<not> is_call ?m"
    using assms(2) by (simp add: is_call_def backend_request_value_def method_of_def get_str_def json_simps)
  then have "R ?r (record_breaker env i ok (emit (ToBackend (b_id ?b) ?m) ?r))" for ok
    using law_trans law_backend law_record_breaker by blast
  then have "R r (record_breaker env i ok (emit (ToBackend (b_id ?b) ?m) ?r))" for ok
    using law_trans 1 by blast
  then show ?thesis using assms(1) 1 by (auto simp: request_def Let_def split: delivery.splits)
qed

lemma law_send_message: "\<not> is_call message \<Longrightarrow> R r (snd (send_message env i message r))"
  by (auto simp: send_message_def Let_def law_refl law_backend split: delivery.splits)

lemma law_send_to: "\<not> is_call message \<Longrightarrow> R r (send_to env i message r)"
  by (auto simp: send_to_def law_refl law_send_message split: option.splits)

lemma law_after_unseen: "unseen r s \<Longrightarrow> R s t \<Longrightarrow> R r t"
  using law_trans law_unseen by blast

text \<open>What the client sends without an id, or as a reply.\<close>

lemma law_route_client_reply:
  assumes "method_of message = None"
  shows "R r (route_client_reply env message r)"
proof -
  have "\<not> is_call (jput ''id'' v message)" for v
    using assms by (simp add: is_call_def method_of_def get_str_def json_simps)
  then have "R r (send_to env b (jput ''id'' v message) (r\<lparr>rt_server_requests := smap_del k (rt_server_requests r)\<rparr>))" for b v k
    by (intro law_trans [OF law_settled law_send_to]) simp
  then show ?thesis by (auto simp: route_client_reply_def law_refl split: option.splits)
qed

lemma law_cancellation:
  assumes "jget ''id'' message = None"
  shows "R r (route_client_cancellation env message r)"
proof -
  have "\<not> is_call (jmodify ''params'' f message)" for f
    using assms by (simp add: is_call_def json_simps)
  then have "R r (send_to env b (jmodify ''params'' f message) (r\<lparr>rt_server_requests := smap_del k (rt_server_requests r)\<rparr>))" for b f k
    by (intro law_trans [OF law_settled law_send_to]) simp
  then have "R r (deliver_cancellation env message v r)" for v
    by (auto simp: deliver_cancellation_def law_refl split: option.splits)
  moreover have "R r (abort_call h (r\<lparr>rt_pool_tasks := q\<rparr>))" for h q
    by (rule law_unseen) (simp add: unseen_def abort_call_def)
  ultimately show ?thesis by (auto simp: route_client_cancellation_def law_refl split: option.splits)
qed

lemma law_notification:
  assumes "jget ''id'' message = None"
  shows "R r (forward_client_notification env message r)"
proof -
  have m: "\<not> is_call message" using assms by (simp add: is_call_def)
  have b: "R s (broadcast env message is s)" for "is" s
  proof (induction "is" arbitrary: s)
    case (Cons i "is")
    show ?case unfolding broadcast.simps by (rule law_trans [OF law_send_message [OF m] Cons.IH])
  qed (simp add: law_refl)
  have "unseen s (touch_progress env message s)" for s
    by (auto simp: touch_progress_def now_ms_def unseen_def split: option.splits prod.splits)
  then have "R r (broadcast env message is (touch_progress env message r))" for "is"
    by (rule law_after_unseen [OF _ b])
  then show ?thesis using law_cancellation [OF assms] b by (simp add: forward_client_notification_def Let_def)
qed

lemma law_receive_backend: "R r (receive_backend pending i message r)"
proof -
  obtain out s where 1: "read_backend pending i message r = (out, s)" by force
  have "unseen r s \<or> (\<exists>v m. s = taken_up v r \<and> out = ForClient m)"
    using 1 by (auto simp: read_backend_def taken_up_def server_id_def unseen_def Let_def split: option.splits if_splits)
  then show ?thesis
    using law_taken_up law_after_unseen [OF _ law_client] law_unseen
    by (auto simp: receive_backend_def 1 split: inbound.splits)
qed

text \<open>Lists.\<close>

lemma law_trace_request: "trace_request params r = (p, s) \<Longrightarrow> R r s"
  by (auto simp: trace_request_def trace_ids_def Let_def unseen_def split: if_splits intro!: law_unseen)

lemma law_select_backends: "select_backends env kws restrict is r = (ks, s) \<Longrightarrow> R r s"
proof (induction "is" arbitrary: r ks s)
  case (Cons i "is")
  obtain ok r1 where 1: "(if rt_resilient r then available env i r else (True, r)) = (ok, r1)" by force
  obtain rest r2 where 2: "select_backends env kws restrict is r1 = (rest, r2)" by force
  have "R r r1" using 1 law_available law_refl by (auto split: if_splits)
  then show ?case using Cons.prems Cons.IH [OF 2] 1 2 law_trans by (auto simp: Let_def split: if_splits)
qed (simp add: law_refl)

lemma law_unavailable_ids: "unavailable_ids env is r = (ids, s) \<Longrightarrow> R r s"
proof (induction "is" arbitrary: r ids s)
  case (Cons i "is")
  obtain ok r1 where 1: "available env i r = (ok, r1)" by force
  obtain rest r2 where 2: "unavailable_ids env is r1 = (rest, r2)" by force
  have "s = r2" using Cons.prems 1 2 by (simp add: Let_def split: if_splits)
  then show ?case using law_available [OF 1] Cons.IH [OF 2] law_trans by blast
qed (simp add: law_refl)

lemma unseen_clock: "clock env r = (now, s) \<Longrightarrow> unseen r s"
  by (auto simp: clock_def unseen_def)

lemma unseen_trans: "unseen r s \<Longrightarrow> unseen s t \<Longrightarrow> unseen r t"
  using settings_principal [of s r] by (auto simp: unseen_def intro: cache_from_trans reverse_from_trans)

lemma unseen_cache_hits: "cache_hits env use m is r = (hits, misses, s) \<Longrightarrow> unseen r s"
proof (induction "is" arbitrary: r hits misses s)
  case (Cons i "is")
  define step where "step =
    (case rt_cache r of
       Some c \<Rightarrow>
         if use then
           (let (now, r) = clock env r;
                (v, c) = cache_get (b_id (rt_backends r ! i)) m (rt_principal r) now c
            in (v, r\<lparr>rt_cache := Some c\<rparr>))
         else (None, r)
     | None \<Rightarrow> (None, r))"
  obtain hit r1 where 1: "step = (hit, r1)" by force
  have s1: "unseen r r1"
    using 1 by (auto simp: step_def clock_def unseen_def Let_def split: option.splits if_splits prod.splits
        intro: cache_from_get)
  obtain hits2 misses2 r2 where 2: "cache_hits env use m is r1 = (hits2, misses2, r2)" by (metis prod_cases3)
  have "s = r2"
    using Cons.prems 1 2 unfolding step_def cache_hits.simps Let_def
    by (auto simp: clock_def split: option.splits if_splits prod.splits)
  then show ?case using Cons.IH [OF 2] s1 unseen_trans by blast
qed simp

lemma law_fetch_all: "fetch_all env m pf is r = (rs, s) \<Longrightarrow> m \<notin> set CALL_METHODS \<Longrightarrow> R r s"
proof (induction "is" arbitrary: r rs s)
  case (Cons i "is")
  obtain res r1 where 1: "request env i m (pf (b_id (rt_backends r ! i))) r = (res, r1)" by force
  obtain rest r2 where 2: "fetch_all env m pf is r1 = (rest, r2)" by force
  have "s = r2" using Cons.prems(1) 1 2 by (simp add: Let_def)
  then show ?case using law_request [OF 1 Cons.prems(2)] Cons.IH [OF 2 Cons.prems(2)] law_trans by blast
qed (simp add: law_refl)

lemma unseen_absorb_results: "absorb_results env use m rs per un r = (out, s) \<Longrightarrow> unseen r s"
proof (induction env use m rs per un r rule: absorb_results.induct)
  case (3 env use m bid response rs per un r)
  define r1 where "r1 = (case rt_cache r of
                 Some c \<Rightarrow>
                   if use then
                     (let (now, r) = clock env r
                      in r\<lparr>rt_cache := Some (cache_put bid m (rt_principal r)
                            (unwrap_or (jget ''result'' response) (jobj [])) now c)\<rparr>)
                   else r
               | None \<Rightarrow> r)"
  have "unseen r r1" by (auto simp: r1_def clock_def unseen_def Let_def split: option.splits)
  moreover have "unseen r1 s" using 3(2) by (intro 3(1) [OF refl r1_def]) (simp add: r1_def Let_def)
  ultimately show ?case by (rule unseen_trans)
qed (auto split: if_splits)

lemma unseen_label_items: "label_items cap pats bid items r = (out, s) \<Longrightarrow> unseen r s"
proof (induction items arbitrary: r out s)
  case (Cons item items)
  show ?case
  proof (cases "get_str (cap_field cap) item")
    case (Some v)
    let ?r1 = "if is_passthrough cap r \<and> \<not> rt_single r
      then r\<lparr>rt_reverse := entry_or_insert (exposed_label cap r bid v) (bid, v) (rt_reverse r)\<rparr> else r"
    obtain rest r2 where 2: "label_items cap pats bid items ?r1 = (rest, r2)" by force
    have "s = r2" using Cons.prems Some 2 by (simp add: Let_def split: if_splits)
    moreover have "unseen r ?r1" by (simp add: unseen_def exposed_label_def)
    ultimately show ?thesis using Cons.IH [OF 2] unseen_trans by blast
  qed (use Cons in simp)
qed simp

lemma unseen_compose_items: "compose_items cap pats per bids r = (out, s) \<Longrightarrow> unseen r s"
proof (induction bids arbitrary: r out s)
  case (Cons bid bids)
  show ?case
  proof (cases "smap_get bid per")
    case (Some v)
    obtain here r1 where 1: "label_items cap pats bid (unwrap_or (get_array (cap_collection cap) v) []) r = (here, r1)"
      by force
    obtain rest r2 where 2: "compose_items cap pats per bids r1 = (rest, r2)" by force
    have "s = r2" using Cons.prems Some 1 2 by (simp add: Let_def)
    then show ?thesis using unseen_label_items [OF 1] Cons.IH [OF 2] unseen_trans by blast
  qed (use Cons in simp)
qed simp

lemma law_collect:
  assumes "collect env cap lf cursor variant r = (out, s)" "cap_list cap \<notin> set CALL_METHODS"
  shows "R r s"
proof -
  let ?restrict = "map_option snd (resolve_cursor (e_dec env) cursor)"
  let ?all = "[0..<length (rt_backends r)]"
  let ?v = "effective_variant r variant"
  let ?hf = "case as_object lf of Some ob \<Rightarrow> ob \<noteq> [] | None \<Rightarrow> False"
  let ?use = "\<not> ?hf \<and> \<not> cursor \<noteq> JNull \<and> ?v = None"
  obtain picked r1 where 1: "select_backends env (filter_list ''keywords'' lf) ?restrict ?all r = (picked, r1)" by force
  obtain hits misses r2 where 2: "cache_hits env ?use (cap_list cap) picked r1 = (hits, misses, r2)"
    by (metis prod_cases3)
  let ?pf = "list_params ?hf lf (cursor \<noteq> JNull) cursor ?v ?restrict (rt_single r1)"
  obtain results r3 where 3: "fetch_all env (cap_list cap) ?pf misses r2 = (results, r3)" by force
  obtain un r4 where 4: "(if rt_resilient r3 then unavailable_ids env ?all r3 else ([], r3)) = (un, r4)" by force
  obtain ab r5 where 5: "absorb_results env ?use (cap_list cap) results hits un r4 = (ab, r5)" by force
  have "R r3 r4" using 4 law_unavailable_ids law_refl by (auto split: if_splits)
  then have r5: "R r r5"
    using law_select_backends [OF 1] unseen_cache_hits [OF 2, THEN law_unseen] law_fetch_all [OF 3 assms(2)]
      unseen_absorb_results [OF 5, THEN law_unseen] law_trans by blast
  have "unseen r5 s"
    using assms(1) unfolding collect_def Let_def 1 prod.case 2 3 4 5
    by (auto split: sum.splits prod.splits dest: unseen_compose_items)
  then show ?thesis using r5 law_trans law_unseen by blast
qed

lemma law_aggregate:
  assumes "cap_list cap \<notin> set CALL_METHODS"
  shows "R r (snd (aggregate env se rid cap lf cursor variant r))"
proof -
  obtain out r1 where 1: "collect env cap lf cursor variant r = (out, r1)" by force
  show ?thesis
    using law_collect [OF 1 assms]
    by (auto simp: aggregate_def 1 Let_def law_refl split: option.splits sum.splits prod.splits)
qed

text \<open>Calls.\<close>

lemma law_check_available: "check_available env i r = (ok, s) \<Longrightarrow> R r s"
  by (auto simp: check_available_def law_refl law_available split: if_splits)

lemma law_filter_request: "filter_request env cap message r = (out, s) \<Longrightarrow> R r s"
  by (auto simp: filter_request_def Let_def law_refl law_audit split: option.splits if_splits)

lemma tools_list_no_call: "cap_list (CAPABILITIES ! 0) \<notin> set CALL_METHODS"
  by (simp add: call_methods) (simp add: CAPABILITIES_def)

lemma law_call_target:
  assumes "call_target env cap value r = (out, s)"
  shows "R r s"
proof -
  obtain res r1 where 1: "(if smap_get value (rt_reverse r) = None
      then collect env (CAPABILITIES ! 0) (jobj []) JNull None r else (Inr ([], [], []), r)) = (res, r1)" by force
  have "R r r1" using 1 law_collect tools_list_no_call law_refl by (auto split: if_splits)
  then show ?thesis
    using assms 1 law_refl by (auto simp: call_target_def Let_def split: if_splits sum.splits)
qed

lemma law_serve_search: "R r (snd (serve_search env message rid r))"
proof -
  obtain out r1 where 1: "collect env (CAPABILITIES ! 0) (jobj []) JNull None r = (out, r1)" by force
  show ?thesis
    using law_collect [OF 1 tools_list_no_call] by (auto simp: serve_search_def 1 split: sum.splits)
qed

text \<open>Tasks and subscriptions.\<close>

lemma law_forward_keyed:
  assumes "m \<notin> set CALL_METHODS"
  shows "R r (snd (forward_keyed env m fld shape message rid i original r))"
proof -
  obtain ok r1 where 1: "check_available env i r = (ok, r1)" by force
  obtain params r2 where 2: "trace_request (jput fld (JStr original) (params_or_empty message)) r1 = (params, r2)" by force
  obtain res r3 where 3: "request env i m params r2 = (res, r3)" by force
  have "R r r1" "R r r3"
    using law_check_available [OF 1] law_trace_request [OF 2] law_request [OF 3 assms] law_trans by blast+
  then show ?thesis by (auto simp: forward_keyed_def 1 2 3 Let_def split: sum.splits)
qed

lemma unseen_serve_local_task: "unseen r (snd (serve_local_task rid m tid r))"
  by (auto simp: serve_local_task_def abort_run_def unseen_def Let_def split: option.splits)

lemma law_route_task:
  assumes "is_task_method m"
  shows "R r (snd (route_task env message rid m r))"
proof -
  have "m \<notin> set CALL_METHODS"
    using assms by (auto simp: is_task_method_def TASKS_METHODS_def call_methods)
  note k = law_forward_keyed [OF this]
  show ?thesis
    using k law_unseen [OF unseen_serve_local_task [of r rid m "unwrap_or (param_str ''taskId'' message) []"]]
    by (auto simp: route_task_def Let_def law_refl split: option.splits prod.splits)
qed

lemma law_route_subscription:
  assumes "is_subscribe_method m"
  shows "R r (snd (route_subscription env message rid m r))"
proof -
  have "m \<notin> set CALL_METHODS"
    using assms by (auto simp: is_subscribe_method_def SUBSCRIBE_METHOD_def UNSUBSCRIBE_METHOD_def call_methods)
  note k = law_forward_keyed [OF this]
  have "R r (r\<lparr>rt_subs := q\<rparr>)" for q by (rule law_unseen) (simp add: unseen_def)
  then show ?thesis using k by (auto simp: route_subscription_def Let_def law_refl split: option.splits)
qed

text \<open>The loop.\<close>

lemma found_capability: "List.find p CAPABILITIES = Some cap \<Longrightarrow> cap \<in> set CAPABILITIES"
  by (auto simp: find_Some_iff in_set_conv_nth)

lemma lists_no_calls: "cap \<in> set CAPABILITIES \<Longrightarrow> cap_list cap \<notin> set CALL_METHODS"
  by (simp add: call_methods) (auto simp: CAPABILITIES_def)

lemma unseen_watch: "watch_available env is r = (cur, s) \<Longrightarrow> unseen r s"
proof (induction "is" arbitrary: r cur s)
  case (Cons i "is")
  obtain ok r1 where 1: "available env i r = (ok, r1)" by force
  obtain rest r2 where 2: "watch_available env is r1 = (rest, r2)" by force
  have "unseen r r1"
    using 1 by (auto simp: available_def Let_def clock_def unseen_def settings_set_backend
        split: option.splits prod.splits)
  moreover have "s = r2" using Cons.prems 1 2 by (simp add: Let_def split: if_splits)
  ultimately show ?case using Cons.IH [OF 2] unseen_trans by blast
qed simp

lemma law_emit_if_changed: "R r (emit_if_changed env r)"
proof -
  obtain cur r1 where 1: "watch_available env [0..<length (rt_backends r)] r = (cur, r1)" by force
  note w = unseen_watch [OF 1]
  let ?drop = "\<lambda>c ds. Some (foldl (\<lambda>c d. invalidate_backend d c) c ds)"
  have "unseen r (r1\<lparr>rt_surface := u\<rparr>)" for u using w by (simp add: unseen_def)
  moreover have "unseen r (r1\<lparr>rt_cache := ?drop c ds, rt_surface := u\<rparr>)" if "rt_cache r1 = Some c" for c ds u
    by (rule unseen_trans [OF w]) (use that in \<open>simp add: unseen_def\<close>)
  ultimately show ?thesis
    using law_unseen [OF w] law_after_unseen [OF _ law_client]
    by (auto simp: emit_if_changed_def 1 Let_def split: option.splits)
qed

text \<open>Spawned tasks, and runs.\<close>

lemma law_run_pooled: "run_pooled env message rid r = (reply, s) \<Longrightarrow> R r s"
  by (auto simp: run_pooled_def Let_def law_refl law_audit split: sum.splits option.splits if_splits prod.splits)

lemma unseen_finish:
  "unseen r (abort_call h (r\<lparr>rt_inflight := a, rt_pool_tasks := b, rt_pool_tokens := c\<rparr>))"
  "unseen r ((abort_call h r)\<lparr>rt_inflight := a, rt_pool_tasks := b, rt_pool_tokens := c\<rparr>)"
  by (simp_all add: unseen_def abort_call_def)

lemma law_finish_call: "R r (finish_call env j reply r)"
  unfolding finish_call_def Let_def by (rule law_after_unseen [OF unseen_finish(2) law_client])

lemma law_finish_run: "R r (finish_run j reply r)"
  by (auto simp: finish_run_def abort_run_def unseen_def Let_def intro!: law_unseen)

lemma law_start_call: "R r (start_call env j r)"
  by (auto simp: start_call_def now_ms_def unseen_def intro!: law_unseen)

lemma law_spawned_step:
  assumes "spawned_step env r s"
  shows "R r s"
  using assms
proof cases
  case (finish j reply t)
  then show ?thesis using law_trans law_run_pooled law_finish_call by blast
next
  case (run j reply t)
  then show ?thesis using law_trans law_run_pooled law_finish_run by blast
qed (simp_all add: law_start_call law_finish_call)

lemma law_publish: "R r (snd (publish u r))"
  by (simp add: publish_def law_refl law_client)

text \<open>From the first message of a client to the end of its input.\<close>

lemma law_backend_handshake: "R r (snd (backend_handshake env i r))"
proof -
  obtain res r1 where 1: "request env i ''initialize'' initialize_params r = (res, r1)" by force
  have s: "R r r1" using 1 by (rule law_request) (simp add: call_methods)
  have "\<not> is_call initialized_notification"
    by (simp add: is_call_def initialized_notification_def json_simps)
  then have m: "R t (snd (send_message env i initialized_notification t))" for t by (rule law_send_message)
  have "unseen r1 (set_backend i ((rt_backends r1 ! i)\<lparr>b_capabilities := c, b_server_info := k\<rparr>) r1)" for c k
    by (simp add: unseen_def settings_set_backend)
  then have "R r (snd (send_message env i initialized_notification r1))"
    "R r (snd (send_message env i initialized_notification
       (set_backend i ((rt_backends r1 ! i)\<lparr>b_capabilities := c, b_server_info := k\<rparr>) r1)))" for c k
    using s m law_trans law_after_unseen by blast+
  then show ?thesis using s by (auto simp: backend_handshake_def 1 Let_def split: sum.splits option.splits)
qed

lemma law_handshake_backends: "handshake_backends env is r = (out, s) \<Longrightarrow> R r s"
proof (induction "is" arbitrary: r out s)
  case (Cons i "is")
  obtain err r1 where 1: "backend_handshake env i r = (err, r1)" by force
  have s: "R r r1" using law_backend_handshake [of r i] 1 by simp
  have "R r t" if "handshake_backends env is r1 = (y, t)" for y t
    using s Cons.IH [OF that] law_trans by blast
  moreover have "R r t" if "handshake_backends env is (record_breaker env i False r1) = (y, t)" for y t
    using s law_record_breaker Cons.IH [OF that] law_trans by blast
  ultimately show ?case
    using Cons.prems s 1 by (auto split: option.splits prod.splits sum.splits if_splits)
qed (simp add: law_refl)

lemma law_handshake_init: "handshake_init env message r = (out, s) \<Longrightarrow> R r s"
proof -
  assume h: "handshake_init env message r = (out, s)"
  obtain res r1 where 1: "handshake_backends env [0..<length (rt_backends r)] r = (res, r1)" by force
  obtain surface r2 where 2: "watch_available env [0..<length (rt_backends r1)] r1 = (surface, r2)" by force
  have r1: "R r r1" using law_handshake_backends [OF 1] .
  have "unseen r1 (r2\<lparr>rt_surface := surface, rt_variants := v\<rparr>)" for v
    using unseen_watch [OF 2] by (simp add: unseen_def)
  then have "R r (emit (ToClient m) (r2\<lparr>rt_surface := surface, rt_variants := v\<rparr>))" for m v
    using r1 law_trans law_after_unseen law_client by blast
  then show ?thesis
    using h r1 law_client by (auto simp: handshake_init_def 1 2 Let_def split: if_splits sum.splits)
qed

lemma law_handshake: "handshake env raws r = (out, rest, s) \<Longrightarrow> R r s"
  by (cases raws) (auto simp: law_refl split: sum.splits prod.splits dest: law_handshake_init)

end

section \<open>Serving changes no setting\<close>

text \<open>Nor does it put anything into the shared cache for another principal than its own, or send a
  passed-through name elsewhere than before.\<close>

definition same_setup :: "router \<Rightarrow> router \<Rightarrow> bool" where
  "same_setup r s \<longleftrightarrow> settings s = settings r \<and> cache_from (rt_principal r) (rt_cache r) (rt_cache s) \<and>
     reverse_from (rt_reverse r) (rt_reverse s)"

lemma emit_fields [simp]: "settings (emit w r) = settings r" "rt_cache (emit w r) = rt_cache r"
  "rt_reverse (emit w r) = rt_reverse r" "rt_audit (emit w r) = rt_audit r" "rt_wire (emit w r) = rt_wire r @ [w]"
  "rt_server_seq (emit w r) = rt_server_seq r" "rt_server_requests (emit w r) = rt_server_requests r"
  by (simp_all add: emit_def)

lemma taken_up_fields [simp]: "settings (taken_up v r) = settings r" "rt_cache (taken_up v r) = rt_cache r"
  "rt_reverse (taken_up v r) = rt_reverse r" "rt_audit (taken_up v r) = rt_audit r" "rt_wire (taken_up v r) = rt_wire r"
  by (simp_all add: taken_up_def settings_def)

lemma record_audit_setup [simp]:
  "settings (record_audit env x r) = settings r" "rt_cache (record_audit env x r) = rt_cache r"
  "rt_reverse (record_audit env x r) = rt_reverse r" "rt_server_seq (record_audit env x r) = rt_server_seq r"
  "rt_server_requests (record_audit env x r) = rt_server_requests r"
  by (simp_all add: record_audit_def split: option.splits)

lemma request_setup: "request env i m params r = (x, s) \<Longrightarrow> settings s = settings r \<and> rt_cache s = rt_cache r \<and>
    rt_reverse s = rt_reverse r \<and> rt_server_seq s = rt_server_seq r \<and> rt_server_requests s = rt_server_requests r"
  by (auto simp: request_def record_breaker_def clock_def settings_set_backend Let_def
      split: delivery.splits option.splits if_splits)

lemma same_setup_trans: "same_setup r s \<Longrightarrow> same_setup s t \<Longrightarrow> same_setup r t"
  using settings_principal [of s r] by (auto simp: same_setup_def intro: cache_from_trans reverse_from_trans)

interpretation kept: router_base env same_setup for env
  by unfold_locales (fact same_setup_trans, simp_all add: same_setup_def unseen_def)

section \<open>Calls\<close>

text \<open>To which backend, and under which name there, the settings of the router route a call of the
  exposed name \<open>value\<close>. With passed-through names this is what the reverse map says, which the lists fill.\<close>

definition routes_to :: "router \<Rightarrow> capability \<Rightarrow> str \<Rightarrow> str \<Rightarrow> str \<Rightarrow> bool" where
  "routes_to r cap value bid original \<longleftrightarrow>
     (if rt_single r then bid = b_id (rt_backends r ! 0) \<and> original = value
      else bid \<in> b_id ` set (rt_backends r) \<and>
        (if cap_call cap = ''tools/call'' \<and> rt_strategy r = MANUAL then
           ns_split (case List.find (\<lambda>(_, exposed). exposed = value) (rt_overrides r) of
                       Some (n, _) \<Rightarrow> n | None \<Rightarrow> value) = Some (bid, original)
         else if cap_call cap = ''tools/call'' \<and> rt_strategy r = PASSTHROUGH then
           smap_get value (rt_reverse r) = Some (bid, original)
         else cap_resolve (cap_kind cap) value = Some (bid, original)))"

lemma map_nth_eq: "map f xs = map f ys \<Longrightarrow> f (xs ! i) = f (ys ! i)"
proof (induction xs arbitrary: ys i)
  case (Cons x xs)
  then obtain y zs where "ys = y # zs" "f x = f y" "map f xs = map f zs" by (auto simp: Cons_eq_map_conv)
  then show ?case using Cons.IH [of zs] by (simp add: nth_Cons split: nat.split)
qed simp

lemma settings_ids: "settings s = settings r \<Longrightarrow> map b_id (rt_backends s) = map b_id (rt_backends r)"
  by (drule arg_cong [of _ _ "\<lambda>t. map fst (fst t)"]) (simp add: settings_def o_def)

lemma routes_to_kept:
  assumes "settings s = settings r" "reverse_from (rt_reverse r) (rt_reverse s)" "routes_to r cap value bid original"
  shows "routes_to s cap value bid original"
proof -
  have "map b_id (rt_backends s) = map b_id (rt_backends r)" using assms(1) by (rule settings_ids)
  then have "b_id ` set (rt_backends s) = b_id ` set (rt_backends r)" by (metis list.set_map)
  moreover have "rt_single s = rt_single r" "rt_strategy s = rt_strategy r" "rt_overrides s = rt_overrides r"
    using assms(1) by (simp_all add: settings_def)
  moreover have "smap_get value (rt_reverse r) = Some (bid, original) \<Longrightarrow> smap_get value (rt_reverse s) = Some (bid, original)"
    using assms(2) by (simp add: reverse_from_def)
  ultimately show ?thesis
    using map_nth_eq [OF settings_ids [OF assms(1)], of 0] assms(3) by (auto simp: routes_to_def split: if_splits)
qed

lemma call_target_routes:
  assumes "call_target env cap value r = (Inr (Some (i, og)), s)"
  shows "routes_to s cap value (b_id (rt_backends s ! i)) og"
proof -
  have loc: "x = Some (b_id (rt_backends q ! i), og) \<and> b_id (rt_backends q ! i) \<in> b_id ` set (rt_backends q)"
    if "locate x q = Some (i, og)" for x q
    using that by (auto simp: locate_def dest!: index_of_bound split: option.splits)
  show ?thesis
  proof (cases "\<not> rt_single r \<and> cap_call cap = ''tools/call'' \<and> rt_strategy r = PASSTHROUGH")
    case True
    obtain res r1 where 1: "(if smap_get value (rt_reverse r) = None
        then collect env (CAPABILITIES ! 0) (jobj []) JNull None r else (Inr ([], [], []), r)) = (res, r1)" by force
    have "cap_list (CAPABILITIES ! 0) \<notin> set CALL_METHODS" by code_simp
    then have "settings r1 = settings r"
      using 1 kept.law_collect by (fastforce simp: same_setup_def split: if_splits)
    then have f: "\<not> rt_single r1" "rt_strategy r1 = PASSTHROUGH" using True by (simp_all add: settings_def)
    have "s = r1" "locate (smap_get value (rt_reverse r1)) r1 = Some (i, og)"
      using assms True 1 by (auto simp: call_target_def strategy_defs split: sum.splits)
    then show ?thesis using f loc True by (auto simp: routes_to_def strategy_defs)
  next
    case False
    then show ?thesis
      using assms loc by (auto simp: call_target_def routes_to_def strategy_defs Let_def split: if_splits)
  qed
qed

lemma traced_name:
  assumes "cap \<in> set CAPABILITIES" "trace_request (jput (cap_field cap) (JStr original) p) r = (params, s)"
  shows "get_str (cap_field cap) params \<in> {None, Some original}"
proof -
  have "cap_field cap \<noteq> ''_meta''" using assms(1) by (auto simp: CAPABILITIES_def)
  then have "jget (cap_field cap) params = jget (cap_field cap) (jput (cap_field cap) (JStr original) p)"
    by (rule trace_request_field [OF assms(2)])
  then show ?thesis by (cases p) (simp_all add: get_str_def json_simps store_simps)
qed

text \<open>The law of a call: it is attested under the exposed name, and goes to the backend that name
  routes to, with its name there.\<close>

locale router_law = router_base +
  assumes law_call: "\<lbrakk>cap \<in> set CAPABILITIES; routes_to r cap value (b_id (rt_backends r ! i)) og;
      get_str (cap_field cap) params \<in> {None, Some og};
      request env i (cap_call cap) params (record_audit env (attestation_record p (cap_call cap) (Some value)) r) = (x, s)\<rbrakk>
    \<Longrightarrow> R r s"
begin

lemma law_forward_call:
  assumes "cap \<in> set CAPABILITIES" "routes_to r cap value (b_id (rt_backends r ! i)) original"
  shows "R r (snd (forward_call env cap message rid value i original r))"
proof -
  let ?p = "jput (cap_field cap) (JStr original) (params_or_empty message)"
  obtain params r1 where 1: "trace_request ?p r = (params, r1)" by force
  let ?r2 = "record_audit env (attestation_record (unwrap_or (rt_principal r1) ''anonymous'') (cap_call cap) (Some value)) r1"
  obtain res r3 where 3: "request env i (cap_call cap) params ?r2 = (res, r3)" by force
  have t: "settings r1 = settings r" "rt_backends r1 = rt_backends r" "reverse_from (rt_reverse r) (rt_reverse r1)"
    using 1 by (auto simp: trace_request_def trace_ids_def Let_def split: if_splits)
  have "R r1 r3"
    using assms(2) routes_to_kept [OF t(1,3)] traced_name [OF assms(1) 1] law_call [OF assms(1) _ _ 3, where og = original]
    by (simp add: t(2))
  then have s: "R r r3" using law_trans [OF law_trace_request [OF 1]] by blast
  then have "R r (record_audit env entry r3)" for entry using law_trans law_audit by blast
  then show ?thesis using s by (auto simp: forward_call_def 1 3 Let_def split: sum.splits)
qed

lemma law_serve_target:
  assumes "cap \<in> set CAPABILITIES"
  shows "R r (snd (serve_target env cap message rid value r))"
proof -
  obtain out r1 where 1: "call_target env cap value r = (out, r1)" by force
  note t = law_call_target [OF 1]
  show ?thesis
  proof (cases "\<exists>i og. out = Inr (Some (i, og))")
    case True
    then obtain i og where out: "out = Inr (Some (i, og))" by blast
    obtain ok r2 where 2: "check_available env i r1 = (ok, r2)" by force
    have r2: "R r r2" using law_trans [OF t law_check_available [OF 2]] .
    have k: "settings r2 = settings r1" "reverse_from (rt_reverse r1) (rt_reverse r2)"
      using kept.law_check_available [OF 2] by (simp_all add: same_setup_def)
    have "routes_to r2 cap value (b_id (rt_backends r1 ! i)) og"
      by (rule routes_to_kept [OF k call_target_routes [OF 1 [unfolded out]]])
    then have "routes_to r2 cap value (b_id (rt_backends r2 ! i)) og"
      using map_nth_eq [OF settings_ids [OF k(1)]] by simp
    then show ?thesis
      using r2 law_trans [OF r2 law_forward_call [OF assms]] by (simp add: serve_target_def 1 out 2)
  next
    case False
    then show ?thesis using t by (auto simp: serve_target_def 1 split: sum.splits option.splits)
  qed
qed

lemma law_route_call:
  assumes "cap \<in> set CAPABILITIES"
  shows "R r (snd (route_call env message rid cap r))"
proof -
  obtain out r1 where 1: "filter_request env cap message r = (out, r1)" by force
  note f = law_filter_request [OF 1]
  show ?thesis
    using f law_trans [OF f law_serve_search] law_trans [OF f law_serve_target [OF assms]]
    by (auto simp: route_call_def 1 Let_def split: sum.splits option.splits)
qed

lemma law_dispatch: "R r (snd (dispatch env se message rid r))"
  using found_capability lists_no_calls tools_list_no_call
  by (auto simp: dispatch_def Let_def law_refl law_route_task law_route_subscription
      intro!: law_aggregate law_route_call split: option.splits)

lemma law_route_request:
  assumes "route_request env se message rid r = (err, s)"
  shows "R r s"
proof -
  have task: "R r (emit (ToClient reply) (snd (originate_task message rid r)))" for reply
    by (rule law_after_unseen [OF _ law_client])
      (auto simp: originate_task_def spawn_task_execution_def unseen_def Let_def split: prod.splits)
  have pool: "R r (spawn_pooled_call env message rid r)"
    by (rule law_unseen) (auto simp: spawn_pooled_call_def unseen_def Let_def split: option.splits)
  obtain res r1 where 1: "dispatch env se message rid r = (res, r1)" by force
  have d: "R r r1" using law_dispatch [of r se message rid] 1 by simp
  then have e: "R r (emit (ToClient v) r1)" for v using law_trans law_client by blast
  then have "R r (emit_if_changed env (emit (ToClient v) r1))" for v
    using law_trans law_emit_if_changed by blast
  then show ?thesis
    using assms task pool d e
    by (auto simp: route_request_def 1 Let_def split: if_splits sum.splits prod.splits)
qed

lemma law_route_message: "route_message env se message r = (err, s) \<Longrightarrow> R r s"
  by (auto simp: route_message_def law_route_client_reply law_notification law_route_request
      split: if_splits option.splits)

lemma law_route_loop: "route_loop env se raws r = (err, s) \<Longrightarrow> R r s"
proof (induction raws arbitrary: r)
  case (Cons raw raws)
  then show ?case
    using law_route_message law_trans by (fastforce simp: law_refl split: sum.splits prod.splits option.splits)
qed (simp add: law_refl)

lemma law_session:
  assumes "session env se r0 es r"
  shows "R r0 r"
  using assms
proof induction
  case (ping es r i res s)
  have "R r s" using ping.hyps(4) by (rule law_request) (simp add: call_methods)
  then show ?case using ping.IH law_emit_if_changed law_trans by blast
qed (blast intro: law_refl law_trans law_route_message law_receive_backend law_spawned_step law_publish)+

lemma law_serve: "serve env se raws r = (err, s) \<Longrightarrow> R r s"
proof -
  assume h: "serve env se raws r = (err, s)"
  obtain out rest r1 where 1: "handshake env raws r = (out, rest, r1)" by (metis prod_cases3)
  obtain e r2 where 2: "route_loop env se rest r1 = (e, r2)" by force
  have "R r r1" "R r r2" using law_handshake [OF 1] law_route_loop [OF 2] law_trans by blast+
  moreover have "R r2 (drain r2)" by (rule law_unseen) (simp add: drain_def unseen_def)
  then have "R r (drain r2)" using \<open>R r r2\<close> law_trans by blast
  moreover have "s = r1 \<or> s = r2 \<or> s = drain r2"
    using h by (simp add: serve_def 1 2 split: sum.splits bool.splits option.splits)
  ultimately show "R r s" by blast
qed

end

interpretation kept: router_law env same_setup for env
  by unfold_locales (use request_setup in \<open>fastforce simp: same_setup_def\<close>)

section \<open>The log accounts for the calls\<close>

definition append_all :: "env \<Rightarrow> json list \<Rightarrow> audit_log \<Rightarrow> audit_log" where
  "append_all env recs l = foldl (\<lambda>l entry. snd (audit_append (e_enc env) entry l)) l recs"

text \<open>The calls that went out, by method, backend and the name they carry, and those that records of
  the log attest, by method and exposed name. A record attests a call when the settings of the
  router route its name to that backend, with the name the call carries; a call whose parameters
  are no object carries none.\<close>

definition call_name :: "json \<Rightarrow> str option" where
  "call_name message =
     Option.bind (List.find (\<lambda>c. Some (cap_call c) = method_of message) CAPABILITIES)
       (\<lambda>c. param_str (cap_field c) message)"

definition sent_calls :: "wire list \<Rightarrow> (str \<times> str option \<times> str option) list" where
  "sent_calls ws = List.map_filter (\<lambda>w. case w of
     ToBackend bid m \<Rightarrow> if is_call m then Some (the (method_of m), Some bid, call_name m) else None
   | ToClient m \<Rightarrow> None) ws"

definition attested :: "json list \<Rightarrow> (str \<times> str option \<times> str option) list" where
  "attested recs = List.map_filter (\<lambda>entry.
     if jget ''type'' entry = Some (JStr ''attestation'')
     then Some (unwrap_or (get_str ''method'' entry) [], None, get_str ''name'' entry) else None) recs"

definition attests :: "router \<Rightarrow> str \<times> str option \<times> str option \<Rightarrow> str \<times> str option \<times> str option \<Rightarrow> bool" where
  "attests r call entry \<longleftrightarrow>
     (case (call, entry) of
        ((m, to, name), (m', _, exposed)) \<Rightarrow> m' = m \<and>
          (\<exists>cap value bid original. cap \<in> set CAPABILITIES \<and> cap_call cap = m \<and> exposed = Some value \<and> to = Some bid \<and>
             routes_to r cap value bid original \<and> name \<in> {None, Some original}))"

definition accounted :: "env \<Rightarrow> router \<Rightarrow> router \<Rightarrow> bool" where
  "accounted env r s \<longleftrightarrow> settings s = settings r \<and> reverse_from (rt_reverse r) (rt_reverse s) \<and>
     (\<exists>ws recs. rt_wire s = rt_wire r @ ws \<and> rt_audit s = map_option (append_all env recs) (rt_audit r) \<and>
        (if rt_audit r = None then recs = [] else list_emb (attests s) (sent_calls ws) (attested recs)))"

lemma append_all_simps [simp]:
  "append_all env [] l = l" "append_all env [x] l = snd (audit_append (e_enc env) x l)"
  "append_all env (xs @ ys) l = append_all env ys (append_all env xs l)"
  by (simp_all add: append_all_def)

lemma append_nothing [simp]: "map_option (append_all env []) l = l"
  by (cases l) simp_all

lemma sent_calls_simps [simp]:
  "sent_calls [] = []" "sent_calls [ToClient m] = []"
  "sent_calls [ToBackend bid m] = (if is_call m then [(the (method_of m), Some bid, call_name m)] else [])"
  "sent_calls (vs @ ws) = sent_calls vs @ sent_calls ws"
  by (auto simp: sent_calls_def List.map_filter_def is_call_def split: option.splits)

lemma attested_simps [simp]:
  "attested [] = []" "attested (xs @ ys) = attested xs @ attested ys"
  "attested [attestation_record p m n] = [(m, None, n)]"
  by (simp_all add: attested_def List.map_filter_def attestation_record_def get_str_def jopt_str_def unwrap_or_def json_simps
      split: option.splits)

lemma attests_kept:
  "settings s = settings r \<Longrightarrow> reverse_from (rt_reverse r) (rt_reverse s) \<Longrightarrow> attests r call entry \<Longrightarrow> attests s call entry"
  unfolding attests_def using routes_to_kept [of s r] by (fastforce split: prod.splits)

lemma emb_kept:
  "settings s = settings r \<Longrightarrow> reverse_from (rt_reverse r) (rt_reverse s) \<Longrightarrow>
     list_emb (attests r) calls recs \<Longrightarrow> list_emb (attests s) calls recs"
  using attests_kept list_emb_mono by (metis (mono_tags, lifting) list_emb_mono)

lemma request_effect:
  assumes "request env i m params r = (x, s)"
  shows "rt_audit s = rt_audit r \<and>
    (rt_wire s = rt_wire r \<or>
     rt_wire s = rt_wire r @ [ToBackend (b_id (rt_backends r ! i)) (backend_request_value (rt_backends r ! i) m params)])"
  using assms
  by (auto simp: request_def record_breaker_def clock_def emit_def Let_def
      split: delivery.splits option.splits if_splits)

lemma accounted_trans:
  assumes "accounted env r s" "accounted env s t"
  shows "accounted env r t"
proof -
  have e: "settings s = settings r" "settings t = settings s" "reverse_from (rt_reverse r) (rt_reverse s)"
      "reverse_from (rt_reverse s) (rt_reverse t)"
    using assms by (simp_all add: accounted_def)
  obtain ws1 recs1 where 1: "rt_wire s = rt_wire r @ ws1" "rt_audit s = map_option (append_all env recs1) (rt_audit r)"
      "if rt_audit r = None then recs1 = [] else list_emb (attests s) (sent_calls ws1) (attested recs1)"
    using assms(1) unfolding accounted_def by blast
  obtain ws2 recs2 where 2: "rt_wire t = rt_wire s @ ws2" "rt_audit t = map_option (append_all env recs2) (rt_audit s)"
      "if rt_audit s = None then recs2 = [] else list_emb (attests t) (sent_calls ws2) (attested recs2)"
    using assms(2) unfolding accounted_def by blast
  have "rt_audit t = map_option (append_all env (recs1 @ recs2)) (rt_audit r)"
    using 1(2) 2(2) by (cases "rt_audit r") simp_all
  moreover have "if rt_audit r = None then recs1 @ recs2 = []
      else list_emb (attests t) (sent_calls (ws1 @ ws2)) (attested (recs1 @ recs2))"
    using 1(2,3) 2(3) emb_kept [OF e(2,4)] by (cases "rt_audit r") (simp_all add: list_emb_append_mono)
  moreover have "rt_wire t = rt_wire r @ ws1 @ ws2" using 1(1) 2(1) by simp
  ultimately show ?thesis unfolding accounted_def using e reverse_from_trans by metis
qed

lemma accountedI:
  assumes "settings s = settings r" "reverse_from (rt_reverse r) (rt_reverse s)" "rt_wire s = rt_wire r @ ws"
    and "rt_audit s = map_option (append_all env recs) (rt_audit r)"
    and "if rt_audit r = None then recs = [] else list_emb (attests r) (sent_calls ws) (attested recs)"
  shows "accounted env r s"
  using assms emb_kept [OF assms(1,2)] unfolding accounted_def by (metis (full_types))

lemma record_audit_fields [simp]:
  "rt_wire (record_audit env x r) = rt_wire r" "rt_backends (record_audit env x r) = rt_backends r"
  "rt_audit (record_audit env x r) = map_option (append_all env [x]) (rt_audit r)"
  by (simp_all add: record_audit_def split: option.splits)

lemma accounted_call:
  assumes "cap \<in> set CAPABILITIES" "routes_to r cap value (b_id (rt_backends r ! i)) og"
    and "get_str (cap_field cap) params \<in> {None, Some og}"
    and "request env i (cap_call cap) params (record_audit env (attestation_record p (cap_call cap) (Some value)) r) = (x, s)"
  shows "accounted env r s"
proof -
  let ?a = "attestation_record p (cap_call cap) (Some value)"
  let ?b = "b_id (rt_backends r ! i)" and ?m = "backend_request_value (rt_backends r ! i) (cap_call cap) params"
  note e = request_effect [OF assms(4)]
  obtain ws where ws: "rt_wire s = rt_wire r @ ws" "ws \<in> {[], [ToBackend ?b ?m]}"
    using e by (auto simp del: append_all_simps)
  have m: "method_of ?m = Some (cap_call cap)" by (simp add: backend_request_value_def method_of_def get_str_def json_simps)
  have "\<forall>cap \<in> set CAPABILITIES. List.find (\<lambda>c. cap_call c = cap_call cap) CAPABILITIES = Some cap \<and> cap_field cap \<noteq> ''_meta''"
    by code_simp
  then have "List.find (\<lambda>c. cap_call c = cap_call cap) CAPABILITIES = Some cap" "cap_field cap \<noteq> ''_meta''"
    using assms(1) by blast+
  then have "call_name ?m = get_str (cap_field cap) params"
    using guard_field [of "cap_field cap"]
    by (simp add: call_name_def m param_str_def) (simp add: backend_request_value_def get_str_def json_simps)
  then have "attests r (cap_call cap, Some ?b, call_name ?m) (cap_call cap, None, Some value)"
    using assms(1-3) by (auto simp: attests_def)
  then have "list_emb (attests r) (sent_calls ws) [(cap_call cap, None, Some value)]" using ws(2) m by auto
  then show ?thesis
    using e request_setup [OF assms(4)]
    by (intro accountedI [OF _ _ ws(1), of _ "if rt_audit r = None then [] else [?a]"]) auto
qed

interpretation accounts: router_law env "accounted env" for env
proof
  show "accounted env r s" if "unseen r s" for r s
    by (rule accountedI [of _ _ "[]" _ "[]"]) (use that in \<open>simp_all add: unseen_def\<close>)
  show "accounted env r (emit (ToClient message) r)" for r message
    by (rule accountedI [of _ _ "[ToClient message]" _ "[]"]) (simp_all add: emit_def)
  show "accounted env r (emit (ToBackend bid message) r)" if "\<not> is_call message" for r bid message
    by (rule accountedI [of _ _ "[ToBackend bid message]" _ "[]"]) (use that in \<open>simp_all add: emit_def\<close>)
  show "accounted env r (record_audit env x r)" for r x
    by (rule accountedI [of _ _ "[]" _ "if rt_audit r = None then [] else [x]"]) auto
  show "accounted env r (emit (ToClient message) (taken_up v r))" for r v message
    by (rule accountedI [of _ _ "[ToClient message]" _ "[]"]) simp_all
  show "accounted env r (r\<lparr>rt_server_requests := smap_del k (rt_server_requests r)\<rparr>)" for r k
    by (rule accountedI [of _ _ "[]" _ "[]"]) simp_all
qed (fact accounted_trans, fact accounted_call)

lemma attested_methods: "list_emb (attests r) calls recs \<Longrightarrow> subseq (map fst calls) (map fst recs)"
  by (induction rule: list_emb.induct) (auto simp: attests_def split: prod.splits)

section \<open>The requests of backends\<close>

text \<open>A run gives each request of a backend a number of its own, as long as they do not wrap: what is
  outstanding was so before, or has one of the numbers given since.\<close>

definition numbered :: "router \<Rightarrow> router \<Rightarrow> bool" where
  "numbered r s \<longleftrightarrow> (\<exists>n. rt_server_seq s = rt_server_seq r + of_nat n \<and> length (rt_wire r) + n \<le> length (rt_wire s) \<and>
     set (smap_keys (rt_server_requests s)) \<subseteq>
       set (smap_keys (rt_server_requests r)) \<union> (\<lambda>i. server_id (rt_server_seq r + of_nat i)) ` {1..n})"

lemma numbered_step:
  assumes "rt_server_seq s = rt_server_seq r" "length (rt_wire r) \<le> length (rt_wire s)"
    and "set (smap_keys (rt_server_requests s)) \<subseteq> set (smap_keys (rt_server_requests r))"
  shows "numbered r s"
  using assms unfolding numbered_def by (intro exI [of _ 0]) auto

lemma numbered_trans:
  assumes "numbered r s" "numbered s t"
  shows "numbered r t"
proof -
  obtain n where n: "rt_server_seq s = rt_server_seq r + of_nat n" "length (rt_wire r) + n \<le> length (rt_wire s)"
      "set (smap_keys (rt_server_requests s)) \<subseteq>
        set (smap_keys (rt_server_requests r)) \<union> (\<lambda>i. server_id (rt_server_seq r + of_nat i)) ` {1..n}"
    using assms(1) unfolding numbered_def by blast
  obtain m where m: "rt_server_seq t = rt_server_seq s + of_nat m" "length (rt_wire s) + m \<le> length (rt_wire t)"
      "set (smap_keys (rt_server_requests t)) \<subseteq>
        set (smap_keys (rt_server_requests s)) \<union> (\<lambda>i. server_id (rt_server_seq s + of_nat i)) ` {1..m}"
    using assms(2) unfolding numbered_def by blast
  have "server_id (rt_server_seq s + of_nat i) \<in> (\<lambda>i. server_id (rt_server_seq r + of_nat i)) ` {1..n + m}"
    if "i \<in> {1..m}" for i
    using that n(1) by (intro image_eqI [of _ _ "n + i"]) (auto simp: add_ac)
  moreover have "{1..n} \<subseteq> {1..n + m}" by auto
  ultimately have "set (smap_keys (rt_server_requests t)) \<subseteq>
      set (smap_keys (rt_server_requests r)) \<union> (\<lambda>i. server_id (rt_server_seq r + of_nat i)) ` {1..n + m}"
    using n(3) m(3) by blast
  then show ?thesis unfolding numbered_def using n(1,2) m(1,2) by (intro exI [of _ "n + m"]) (simp add: add_ac)
qed

interpretation numbers: router_law env numbered for env
proof
  show "numbered r s" if "unseen r s" for r s
    by (rule numbered_step) (use that in \<open>simp_all add: unseen_def\<close>)
  show "numbered r (r\<lparr>rt_server_requests := smap_del k (rt_server_requests r)\<rparr>)" for r k
    by (rule numbered_step) (use smap_keys_del in \<open>auto simp: smap_del_def\<close>)
  show "numbered r (emit (ToClient message) (taken_up v r))" for r v message
  proof -
    have "set (smap_keys (rt_server_requests (taken_up v r))) =
        insert (server_id (rt_server_seq r + 1)) (set (smap_keys (rt_server_requests r)))"
      unfolding taken_up_def using smap_keys_put by simp
    then show ?thesis unfolding numbered_def by (intro exI [of _ 1]) (simp add: taken_up_def)
  qed
  show "numbered r s" if "request env i m params (record_audit env e r) = (x, s)" for r i m params e x s
    using request_setup [OF that] request_effect [OF that] by (intro numbered_step) auto
qed (fact numbered_trans, (rule numbered_step; simp)+)

lemma fresh_number:
  assumes "numbered r0 r" "rt_server_requests r0 = []" "length (rt_wire r) + 1 < 2 ^ 64"
  shows "server_id (rt_server_seq r + 1) \<notin> set (smap_keys (rt_server_requests r))"
proof
  assume "server_id (rt_server_seq r + 1) \<in> set (smap_keys (rt_server_requests r))"
  then obtain n i where n: "rt_server_seq r = rt_server_seq r0 + of_nat n" "n + 1 < 2 ^ 64" "i \<in> {1..n}"
      "server_id (rt_server_seq r + 1) = server_id (rt_server_seq r0 + of_nat i)"
    using assms unfolding numbered_def by auto
  from n(4) have "unat (rt_server_seq r + 1) = unat (rt_server_seq r0 + of_nat i)" by (simp add: server_id_def)
  then have "rt_server_seq r + 1 = rt_server_seq r0 + of_nat i" by (simp only: word_unat_eq_iff)
  then have "(of_nat (n + 1) :: u64) = of_nat i" using n(1) by (simp add: add_ac)
  then have "unat (of_nat (n + 1) :: u64) = unat (of_nat i :: u64)" by (simp only:)
  then have "(n + 1) mod 2 ^ 64 = i mod 2 ^ 64" by (simp only: unat_of_nat) simp
  then have "n + 1 = i" using n(2,3) by simp
  then show False using n(3) by simp
qed

section \<open>Properties\<close>

lemma append_all_run: "append_all env recs (audit_run (e_enc env) secret old) = audit_run (e_enc env) secret (old @ recs)"
  by (simp add: append_all_def audit_run_def)

text \<open>C4: Accountability: whatever the client, the backends, the pool, the tasks, the pings and
  the publishers do, in whatever order, the audit log of the router stays a log that verifies and
  only grows; and the calls with an id that have gone out to backends are accounted for, one by one
  and in their order, by attestations of the log: a record with the method of the call and an
  exposed name which the router routes to that backend, under the very name the call carries. With
  passed-through names the router routes by its reverse map, whose entries stay as they were made:
  one backend for each name, which has the tool under that very name.\<close>
theorem audit_accounts_for_calls:
  assumes "session env se r0 es r" "rt_audit r0 = Some (audit_run (e_enc env) secret old)" "rt_reverse r0 = []"
  shows "(\<exists>ws recs. rt_wire r = rt_wire r0 @ ws \<and>
      rt_audit r = Some (audit_run (e_enc env) secret (old @ recs)) \<and>
      audit_verify (e_enc env) (audit_run (e_enc env) secret (old @ recs)) \<and>
      list_emb (attests r) (sent_calls ws) (attested recs)) \<and> own_names (rt_reverse r)"
proof -
  obtain ws recs where "rt_wire r = rt_wire r0 @ ws" "rt_audit r = map_option (append_all env recs) (rt_audit r0)"
      "list_emb (attests r) (sent_calls ws) (attested recs)" "reverse_from [] (rt_reverse r)"
    using accounts.law_session [OF assms(1)] assms(2,3) by (auto simp: accounted_def)
  moreover from this(4) have "own_names (rt_reverse r)" by (rule own_names_from) simp
  ultimately show ?thesis
    using assms(2) audit_run_inv [of "e_enc env" secret "old @ recs"]
    by (intro conjI exI [of _ ws] exI [of _ recs]) (simp_all add: append_all_run audit_verify_def)
qed

text \<open>C10: A request a backend originates reaches the client under a fresh id: one that no other
  outstanding request has, as long as fewer than 2^64 messages have been written; and it leaves
  the other outstanding requests as they are. The client's reply under that id goes to that
  backend and no other, with the backend's own id restored; a second reply under the same id goes
  nowhere.\<close>
theorem backend_request_roundtrip:
  assumes "session env se r0 es r" "rt_server_requests r0 = []" "length (rt_wire r) + 1 < 2 ^ 64"
    and "jget ''id'' m = Some original" "method_of m \<noteq> None"
    and "(case get_str ''id'' m of Some k \<Rightarrow> k \<notin> set pending | None \<Rightarrow> True)"
    and "index_of bid r = Some i" "method_of reply = None"
    and "jget ''id'' reply = Some (JStr fresh)" "fresh = ''srv-'' @ show_nat (unat (rt_server_seq r + 1))"
    and "\<not> (\<exists>ws e. e_delivery env ws bid (jput ''id'' original reply) = WriteFailed e)"
  shows "let r1 = receive_backend pending bid m r;
             r2 = snd (route_message env se reply r1);
             r3 = snd (route_message env se reply r2)
         in fresh \<notin> set (smap_keys (rt_server_requests r)) \<and>
            (\<forall>k. k \<noteq> fresh \<longrightarrow> smap_get k (rt_server_requests r1) = smap_get k (rt_server_requests r)) \<and>
            rt_server_seq r1 = rt_server_seq r + 1 \<and>
            rt_wire r1 = rt_wire r @ [ToClient (jput ''id'' (JStr fresh) m)] \<and>
            rt_wire r2 = rt_wire r1 @ [ToBackend bid (jput ''id'' original reply)] \<and>
            jget ''id'' (jput ''id'' original reply) = Some original \<and> r3 = r2"
proof -
  let ?r1 = "receive_backend pending bid m r"
  have skip: "(case get_str ''id'' m of Some k \<Rightarrow> if k \<in> set pending then Some k else None | None \<Rightarrow> None) = None"
    using assms(6) by (auto split: option.splits)
  have r1: "?r1 = emit (ToClient (jput ''id'' (JStr fresh) m))
      (r\<lparr>rt_server_seq := rt_server_seq r + 1,
         rt_server_requests := smap_put fresh (bid, original) (rt_server_requests r)\<rparr>)"
    using assms(4,5,10) by (simp add: receive_backend_def read_backend_def skip Let_def)
  have held: "smap_get fresh (rt_server_requests ?r1) = Some (bid, original)"
    unfolding r1 by (simp add: emit_def store_simps)
  have at: "index_of bid r' = Some i" if "rt_backends r' = rt_backends r" for r'
    using assms(7) that by (simp add: index_of_def)
  have bid: "b_id (rt_backends r ! i) = bid" using index_of_bound [OF assms(7)] by simp
  have reply: "get_str ''id'' reply = Some fresh" using assms(9) by (simp add: get_str_def)
  have step: "route_message env se reply r' = (None, route_client_reply env reply r')" for r'
    using assms(8,9) by (simp add: route_message_def)
  let ?r1d = "?r1\<lparr>rt_server_requests := smap_del fresh (rt_server_requests ?r1)\<rparr>"
  have "rt_backends ?r1d = rt_backends r" by (simp add: r1 emit_def)
  with at have r2: "route_client_reply env reply ?r1 = emit (ToBackend bid (jput ''id'' original reply)) ?r1d"
    using assms(11) bid
    by (auto simp: route_client_reply_def reply held send_to_def send_message_def Let_def split: delivery.splits)
  have "smap_get fresh (rt_server_requests (route_client_reply env reply ?r1)) = None"
    unfolding r2 by (simp add: emit_def store_simps)
  then have "route_client_reply env reply (route_client_reply env reply ?r1) = route_client_reply env reply ?r1"
    by (simp add: route_client_reply_def reply)
  moreover have "fresh \<notin> set (smap_keys (rt_server_requests r))"
    using fresh_number [OF numbers.law_session [OF assms(1)] assms(2,3)] assms(10) by (simp add: server_id_def)
  ultimately show ?thesis
    using jget_is_object [OF assms(9)] by (simp add: step Let_def r2) (simp add: r1 emit_def json_simps store_simps)
qed

theorem backend_request_roundtrip_witness:
  "let m = jobj [(''id'', jint 7), (''method'', JStr ''sampling/createMessage'')];
       reply = jobj [(''id'', JStr ''srv-1''), (''result'', jobj [])];
       r2 = snd (route_message demo_env (\<lambda>_. []) reply (receive_backend [] ''git'' m two_backends))
   in rt_wire r2 = [ToClient (jput ''id'' (JStr ''srv-1'') m), ToBackend ''git'' (jput ''id'' (jint 7) reply)]"
proof -
  let ?m = "jobj [(''id'', jint 7), (''method'', JStr ''sampling/createMessage'')]"
  let ?reply = "jobj [(''id'', JStr ''srv-1''), (''result'', jobj [])]"
  have 1: "jget ''id'' ?m = Some (jint 7)" "method_of ?m \<noteq> None" "get_str ''id'' ?m = None"
    "jget ''id'' ?reply = Some (JStr ''srv-1'')" "method_of ?reply = None"
    by (simp_all add: method_of_def get_str_def json_simps jint_def)
  have 2: "index_of ''git'' two_backends = Some 1" by (simp add: index_of_def)
  have 3: "''srv-1'' = ''srv-'' @ show_nat (unat (rt_server_seq two_backends + 1))"
  proof -
    have "show_nat 1 = ''1''" by code_simp
    then show ?thesis by simp
  qed
  show ?thesis
    using backend_request_roundtrip [OF session.init _ _ 1(1,2) _ 2 1(5,4) 3, of "[]" demo_env "\<lambda>_. []"] 1(3)
    by (simp add: Let_def demo_env_def two_backends_def configure_def)
qed

definition audited_router :: router where
  "audited_router = two_backends\<lparr>rt_audit := Some (audit_new ''k'')\<rparr>"

definition git_call :: json where
  "git_call = jobj [(''id'', JStr ''1''), (''method'', JStr ''tools/call''),
     (''params'', jobj [(''name'', JStr ''git__log'')])]"

theorem audit_accounts_for_calls_witness:
  "\<exists>r recs. session demo_env (\<lambda>_. []) audited_router [FromClient git_call] r \<and>
     rt_audit r = Some (audit_run (e_enc demo_env) ''k'' recs) \<and>
     list_emb (attests r) (sent_calls (rt_wire r)) (attested recs)"
proof -
  let ?s = "\<lambda>_. []"
  obtain err r where r: "route_message demo_env ?s git_call audited_router = (err, r)" by force
  have m: "method_of git_call = Some ''tools/call''" "jget ''id'' git_call = Some (JStr ''1'')"
    by (simp_all add: git_call_def method_of_def get_str_def json_simps)
  then have "route_request demo_env ?s git_call (JStr ''1'') audited_router = (err, r)"
    using r by (simp add: route_message_def)
  moreover have "wf_router audited_router" "rt_resilient audited_router" "\<not> rt_pool_enabled audited_router"
    using two_backends_wf by (simp_all add: audited_router_def wf_router_def)
  ultimately have "err = None" using m(2) by (blast elim: route_request_cases)
  then have s: "session demo_env ?s audited_router [FromClient git_call] r"
    using session.client [OF session.init] r by (metis append_Nil)
  have "rt_audit audited_router = Some (audit_run (e_enc demo_env) ''k'' [])"
    by (simp add: audited_router_def audit_run_def)
  from audit_accounts_for_calls [OF s this] show ?thesis
    using s by (auto simp: audited_router_def two_backends_def configure_def)
qed

text \<open>C34: A call without an id is a notification: with the name of a tool of one backend it goes
  verbatim to every backend that can be written to, it is not in the audit log, and what happens
  does not depend on the filter chain.\<close>
theorem call_without_id_unaccounted:
  assumes "method_of m = Some ''tools/call''" "jget ''id'' m = None"
    and "list_all (\<lambda>b. \<not> (\<exists>ws e. e_delivery env ws (b_id b) m = WriteFailed e)) (rt_backends r)"
  shows "rt_wire (snd (route_message env se m r)) = rt_wire r @ map (\<lambda>b. ToBackend (b_id b) m) (rt_backends r) \<and>
    rt_audit (snd (route_message env se m r)) = rt_audit r \<and>
    route_message env se m (r\<lparr>rt_filters := fs\<rparr>) =
      (None, (snd (route_message env se m r))\<lparr>rt_filters := fs\<rparr>)"
proof -
  have "rt_audit (broadcast env m is s) = rt_audit s" for "is" s
    by (induction "is" arbitrary: s) (simp_all add: send_message_def emit_def Let_def split: delivery.splits)
  moreover have "broadcast env m is (s\<lparr>rt_filters := fs\<rparr>) = (broadcast env m is s)\<lparr>rt_filters := fs\<rparr>" for "is" s
  proof (induction "is" arbitrary: s)
    case (Cons i "is")
    have "snd (send_message env i m (s\<lparr>rt_filters := fs\<rparr>)) = (snd (send_message env i m s))\<lparr>rt_filters := fs\<rparr>"
      by (simp add: send_message_def emit_def Let_def split: delivery.splits)
    then show ?case using Cons.IH by simp
  qed simp
  ultimately show ?thesis
    using notifications_broadcast_verbatim [of m env r se] assms
    by (simp add: route_message_def forward_client_notification_def)
qed

theorem call_without_id_unaccounted_witness:
  "let m = jobj [(''method'', JStr ''tools/call''), (''params'', jobj [(''name'', JStr ''git__log'')])];
       (_, r) = route_message demo_env (\<lambda>_. []) m (audited_router\<lparr>rt_filters := Some []\<rparr>)
   in rt_wire r = [ToBackend ''files'' m, ToBackend ''git'' m] \<and> rt_audit r = Some (audit_new ''k'')"
proof -
  let ?m = "jobj [(''method'', JStr ''tools/call''), (''params'', jobj [(''name'', JStr ''git__log'')])]"
  have "method_of ?m = Some ''tools/call''" "jget ''id'' ?m = None"
    by (simp_all add: method_of_def get_str_def json_simps)
  then show ?thesis
    using call_without_id_unaccounted [of ?m demo_env audited_router "\<lambda>_. []" "Some []"]
    by (simp add: Let_def split_beta audited_router_def demo_env_def)
qed

end
