(* ===== verification/Serve.thy ===== *)
theory Serve
  imports RouterAudit Doctor "HOL-Library.Multiset"
begin

text \<open>
  The rest of the builder of the router (\<open>src/src/router.rs\<close>), and the server \<open>yamp-serve\<close>
  (\<open>src/src/bin/yamp-serve.rs\<close>) once it has started (\<open>Doctor.serve_startup\<close>): the list cache and
  the audit log that all its connections share, the router that \<open>handle\<close> builds for a connection,
  and what the connections do. They run side by side; the relation \<open>serving\<close> takes their steps in
  any order, a step being a message, a spawned task's turn, a ping or a publication. A step is taken
  whole: the model does not interleave the parts of two messages of different connections, which
  the code does wherever it waits, and the properties below claim nothing that depends on it.
\<close>

section \<open>Building a router\<close>

definition backend_resilient :: "str \<Rightarrow> breaker \<Rightarrow> io_error + backend" where
  "backend_resilient i br = backend_new i (Some br)"

definition with_keywords :: "str list \<Rightarrow> backend \<Rightarrow> backend" where
  "with_keywords ks b = b\<lparr>b_keywords := ks\<rparr>"

definition with_token :: "str \<Rightarrow> backend \<Rightarrow> backend" where
  "with_token t b = b\<lparr>b_token := Some t\<rparr>"

definition router_new :: "backend list \<Rightarrow> router" where
  "router_new bs = configure bs"

definition set_namespacing :: "namespacing \<Rightarrow> router \<Rightarrow> router" where
  "set_namespacing ns r =
     r\<lparr>rt_strategy := ns_strategy ns, rt_priority := ns_priority ns, rt_overrides := ns_overrides ns\<rparr>"

definition set_filters :: "filter_obj list \<Rightarrow> router \<Rightarrow> router" where
  "set_filters fs r = r\<lparr>rt_filters := Some fs\<rparr>"

definition set_server_tasks :: "bool \<Rightarrow> router \<Rightarrow> router" where
  "set_server_tasks on r = r\<lparr>rt_server_tasks := on\<rparr>"

definition set_resource_subscriptions :: "bool \<Rightarrow> router \<Rightarrow> router" where
  "set_resource_subscriptions on r = r\<lparr>rt_subs_enabled := on\<rparr>"

definition set_output_limit :: "nat \<Rightarrow> router \<Rightarrow> router" where
  "set_output_limit n r = r\<lparr>rt_output_limit := n\<rparr>"

definition set_list_directives :: "nat \<Rightarrow> str \<Rightarrow> router \<Rightarrow> router" where
  "set_list_directives ttl scope r = r\<lparr>rt_directives := Some (ttl, scope)\<rparr>"

definition set_validate_schemas :: "bool \<Rightarrow> router \<Rightarrow> router" where
  "set_validate_schemas on r = r\<lparr>rt_validate := on\<rparr>"

definition set_audit :: "audit_log \<Rightarrow> router \<Rightarrow> router" where
  "set_audit l r = r\<lparr>rt_audit := Some l\<rparr>"

definition set_trace :: "bool \<Rightarrow> router \<Rightarrow> router" where
  "set_trace on r = r\<lparr>rt_trace := on\<rparr>"

section \<open>The router of a connection\<close>

text \<open>The backends, connected in order; \<open>None\<close> is the panic on an id that is not valid.\<close>

definition configured_token :: "proxy_config option \<Rightarrow> str \<Rightarrow> str option" where
  "configured_token config i =
     Option.bind config (\<lambda>c. Option.bind (List.find (\<lambda>b. bc_id b = i) (pcf_backends c)) bc_token)"

fun connect_backends ::
  "(str \<Rightarrow> io_error option) \<Rightarrow> proxy_config option \<Rightarrow> (str \<times> str) list \<Rightarrow> (io_error + backend list) option" where
  "connect_backends dial config [] = Some (Inr [])"
| "connect_backends dial config ((i, addr) # specs) =
     (case dial addr of
        Some e \<Rightarrow> Some (Inl e)
      | None \<Rightarrow>
          (case backend_new i None of
             Inl e \<Rightarrow> None
           | Inr b \<Rightarrow>
               (let b = (case configured_token config i of Some t \<Rightarrow> with_token t b | None \<Rightarrow> b)
                in map_option (map_sum id ((#) b)) (connect_backends dial config specs))))"

text \<open>What the connections share: the cache, and the log when the configuration has a secret.\<close>

record shared =
  sh_cache :: list_cache
  sh_audit :: "audit_log option"

definition shared_start :: "proxy_config option \<Rightarrow> shared" where
  "shared_start config =
     \<lparr>sh_cache = cache_new DEFAULT_TTL_MS, sh_audit = map_option audit_new (Option.bind config pcf_audit_secret)\<rparr>"

text \<open>\<open>handle\<close>, up to \<open>serve\<close>. A registry that cannot be built panics.\<close>

definition serve_router ::
  "(json \<Rightarrow> str) \<Rightarrow> (wire list \<Rightarrow> str \<Rightarrow> str \<Rightarrow> io_error + str) \<Rightarrow> (str \<Rightarrow> io_error option) \<Rightarrow>
     (str \<times> str) list \<Rightarrow> proxy_config option \<Rightarrow> shared \<Rightarrow> (io_error + router) option" where
  "serve_router render net dial specs config sh =
     (case connect_backends dial config specs of
        None \<Rightarrow> None
      | Some (Inl e) \<Rightarrow> Some (Inl e)
      | Some (Inr bs) \<Rightarrow>
          (let r = set_cache (sh_cache sh) None (router_new bs);
               r = (case sh_audit sh of Some l \<Rightarrow> set_audit l r | None \<Rightarrow> r)
           in case config of
                None \<Rightarrow> Some (Inr r)
              | Some c \<Rightarrow>
                  (case build_registry render net (pcf_handlers c) (\<lambda>_. backend_ids_json (map fst specs)) of
                     Some (Inr reg) \<Rightarrow> Some (Inr (set_namespacing (pcf_namespacing c) (set_registry reg r)))
                   | _ \<Rightarrow> None)))"

section \<open>The connections\<close>

datatype phase = Opening | Open | Over

record conn =
  cn_router :: router
  cn_phase :: phase

text \<open>The connections, what they share, and all that went out on any of them, in order.\<close>

record server =
  sw_conns :: "conn list"
  sw_shared :: shared
  sw_trace :: "wire list"

definition server_begin :: "proxy_config option \<Rightarrow> server" where
  "server_begin config = \<lparr>sw_conns = [], sw_shared = shared_start config, sw_trace = []\<rparr>"

text \<open>A connection works on the shared cache and log; its router as it finds them, and what it
  leaves.\<close>

definition taking :: "server \<Rightarrow> nat \<Rightarrow> router" where
  "taking w k = (cn_router (sw_conns w ! k))
     \<lparr>rt_cache := Some (sh_cache (sw_shared w)), rt_audit := sh_audit (sw_shared w)\<rparr>"

definition leaving :: "server \<Rightarrow> nat \<Rightarrow> phase \<Rightarrow> router \<Rightarrow> server" where
  "leaving w k ph r =
     \<lparr>sw_conns = (sw_conns w)[k := \<lparr>cn_router = r, cn_phase = ph\<rparr>],
      sw_shared = \<lparr>sh_cache = unwrap_or (rt_cache r) (sh_cache (sw_shared w)), sh_audit = rt_audit r\<rparr>,
      sw_trace = sw_trace w @ drop (length (rt_wire (cn_router (sw_conns w ! k)))) (rt_wire r)\<rparr>"

definition running :: "server \<Rightarrow> nat \<Rightarrow> phase \<Rightarrow> bool" where
  "running w k ph \<longleftrightarrow> k < length (sw_conns w) \<and> cn_phase (sw_conns w ! k) = ph"

inductive serving ::
  "(json \<Rightarrow> byte list) \<Rightarrow> (json \<Rightarrow> str) \<Rightarrow> (wire list \<Rightarrow> str \<Rightarrow> str \<Rightarrow> io_error + str) \<Rightarrow>
     (str \<times> str) list \<Rightarrow> proxy_config option \<Rightarrow> server \<Rightarrow> bool"
  for canon render net specs config where
  begin_empty: "serving canon render net specs config (server_begin config)"
| accept: "\<lbrakk>serving canon render net specs config w;
      serve_router render net dial specs config (sw_shared w) = Some (Inr r)\<rbrakk>
    \<Longrightarrow> serving canon render net specs config
          (w\<lparr>sw_conns := sw_conns w @ [\<lparr>cn_router = r, cn_phase = Opening\<rparr>]\<rparr>)"
| opened: "\<lbrakk>serving canon render net specs config w; running w k Opening; e_enc env = canon;
      handshake env raws (taking w k) = (out, rest, r)\<rbrakk>
    \<Longrightarrow> serving canon render net specs config (leaving w k (if out = Inr True then Open else Over) r)"
| event: "\<lbrakk>serving canon render net specs config w; running w k Open; e_enc env = canon;
      session env show_error (taking w k) [e] r\<rbrakk>
    \<Longrightarrow> serving canon render net specs config (leaving w k Open r)"
| failed_event: "\<lbrakk>serving canon render net specs config w; running w k Open; e_enc env = canon;
      route_message env show_error m (taking w k) = (Some err, r)\<rbrakk>
    \<Longrightarrow> serving canon render net specs config (leaving w k Over r)"
| closed: "\<lbrakk>serving canon render net specs config w; running w k Open\<rbrakk>
    \<Longrightarrow> serving canon render net specs config (leaving w k Over (drain (taking w k)))"

section \<open>Lemmas\<close>

lemma connected_backends:
  "connect_backends dial config specs = Some (Inr bs) \<Longrightarrow>
     map (\<lambda>b. (b_id b, b_token b)) bs = map (\<lambda>(i, addr). (i, configured_token config i)) specs \<and>
     list_all (\<lambda>b. b_breaker b = None) bs"
proof (induction specs arbitrary: bs)
  case (Cons spec specs)
  obtain i addr where spec: "spec = (i, addr)" by force
  obtain b rest where b: "dial addr = None" "backend_new i None = Inr b"
      "connect_backends dial config specs = Some (Inr rest)"
      "bs = (case configured_token config i of Some t \<Rightarrow> with_token t b | None \<Rightarrow> b) # rest"
  proof -
    obtain b z where b: "dial addr = None" "backend_new i None = Inr b" "connect_backends dial config specs = Some z"
        "map_sum id ((#) (case configured_token config i of Some t \<Rightarrow> with_token t b | None \<Rightarrow> b)) z = Inr bs"
      using Cons.prems by (auto simp: spec Let_def split: option.splits sum.splits)
    then show thesis using that by (cases z) auto
  qed
  then have "b_id b = i" "b_token b = None" "b_breaker b = None" by (auto simp: backend_new_def split: if_splits)
  then show ?case using Cons.IH [OF b(3)] b(4) by (auto simp: spec with_token_def split: option.splits)
qed simp

lemma taking_settings [simp]: "settings (taking w k) = settings (cn_router (sw_conns w ! k))"
  by (simp add: taking_def settings_def)

lemma taking_simps [simp]:
  "rt_cache (taking w k) = Some (sh_cache (sw_shared w))" "rt_audit (taking w k) = sh_audit (sw_shared w)"
  "rt_wire (taking w k) = rt_wire (cn_router (sw_conns w ! k))"
  "rt_reverse (taking w k) = rt_reverse (cn_router (sw_conns w ! k))"
  by (simp_all add: taking_def)

lemma drain_unseen: "unseen r (drain r)"
  by (simp add: unseen_def drain_def settings_def)

text \<open>What a step of a connection does, whichever it is.\<close>

lemma serving_steps [consumes 1, case_names begin_empty accept step]:
  assumes "serving canon render net specs config w"
    and "P (server_begin config)"
    and "\<And>w dial r. P w \<Longrightarrow> serve_router render net dial specs config (sw_shared w) = Some (Inr r) \<Longrightarrow>
      P (w\<lparr>sw_conns := sw_conns w @ [\<lparr>cn_router = r, cn_phase = Opening\<rparr>]\<rparr>)"
    and "\<And>w k ph r env. P w \<Longrightarrow> k < length (sw_conns w) \<Longrightarrow> e_enc env = canon \<Longrightarrow>
      same_setup (taking w k) r \<Longrightarrow> accounted env (taking w k) r \<Longrightarrow> P (leaving w k ph r)"
  shows "P w"
  using assms(1)
proof induction
  case (opened w k env raws out rest r)
  then show ?case
    using assms(4) [OF opened.IH] kept.law_handshake accounts.law_handshake by (simp add: running_def)
next
  case (event w k env show_error e r)
  then show ?case
    using assms(4) [OF event.IH] kept.law_session accounts.law_session by (simp add: running_def)
next
  case (failed_event w k env show_error m err r)
  then show ?case
    using assms(4) [OF failed_event.IH] kept.law_route_message accounts.law_route_message by (simp add: running_def)
next
  case (closed w k)
  let ?env = "undefined\<lparr>e_enc := canon\<rparr>"
  show ?case
    using closed.hyps(2) kept.law_unseen [OF drain_unseen] accounts.law_unseen [OF drain_unseen]
    by (intro assms(4) [OF closed.IH, of k ?env]) (simp_all add: running_def)
qed (use assms(2,3) in auto)

text \<open>Every connection has the settings \<open>handle\<close> gave it.\<close>

lemma serving_settings:
  assumes "serving canon render net specs config w"
  shows "\<forall>c \<in> set (sw_conns w). \<exists>dial sh r. serve_router render net dial specs config sh = Some (Inr r) \<and>
    settings (cn_router c) = settings r"
  using assms
proof (induction rule: serving_steps)
  case (accept w dial r)
  then show ?case by auto
next
  case (step w k ph r env)
  then have "settings r = settings (cn_router (sw_conns w ! k))" by (simp add: same_setup_def)
  moreover have "sw_conns w ! k \<in> set (sw_conns w)" using step by simp
  ultimately show ?case
    using step.IH set_update_subset_insert [of "sw_conns w" k] by (fastforce simp: leaving_def)
qed (simp add: server_begin_def)

lemma connection_settings:
  assumes "serving canon render net specs config w" "k < length (sw_conns w)"
  obtains dial sh r where "serve_router render net dial specs config sh = Some (Inr r)"
    "settings (taking w k) = settings r"
  using bspec [OF serving_settings [OF assms(1)] nth_mem [OF assms(2)]] by auto

lemma router_setup:
  assumes "serve_router render net dial specs config sh = Some (Inr r)"
  shows "map (\<lambda>b. (b_id b, b_token b)) (rt_backends r) = map (\<lambda>(i, addr). (i, configured_token config i)) specs \<and>
    \<not> rt_resilient r \<and> rt_principal r = None \<and> rt_filters r = None \<and> rt_issuer r = None \<and> rt_audience r = None \<and>
    \<not> rt_pool_enabled r \<and> rt_cache r = Some (sh_cache sh) \<and> rt_audit r = sh_audit sh \<and> rt_wire r = []"
proof -
  obtain bs where bs: "connect_backends dial config specs = Some (Inr bs)"
    using assms by (auto simp: serve_router_def split: option.splits sum.splits)
  then have "\<not> list_ex (\<lambda>b. b_breaker b \<noteq> None) bs"
    using connected_backends [OF bs] by (auto simp: list_ex_iff list_all_iff)
  then show ?thesis
    using assms connected_backends [OF bs]
    by (auto simp: serve_router_def bs Let_def set_cache_def set_audit_def set_namespacing_def set_registry_def
        router_new_def configure_def split: option.splits sum.splits)
qed

text \<open>Which backends a connection has, and whose token.\<close>

lemma configured_token_source:
  assumes "bearer (configured_token config i) = Some cred"
  shows "\<exists>c b. config = Some c \<and> b \<in> set (pcf_backends c) \<and> bc_id b = i \<and> bearer (bc_token b) = Some cred"
proof -
  obtain c b where cb: "config = Some c" "List.find (\<lambda>b. bc_id b = i) (pcf_backends c) = Some b" "bearer (bc_token b) = Some cred"
    using assms by (auto simp: configured_token_def bearer_def bind_eq_Some_conv)
  then show ?thesis
    using find_Some_iff [of "\<lambda>b. bc_id b = i" "pcf_backends c" b] nth_mem by blast
qed

lemma taking_backends:
  assumes "serving canon render net specs config w" "k < length (sw_conns w)"
  shows "wf_router (taking w k)"
    and "b \<in> set (rt_backends (taking w k)) \<Longrightarrow>
      b_id b \<in> fst ` set specs \<and> b_token b = configured_token config (b_id b)"
proof -
  obtain dial sh r0 where r0: "serve_router render net dial specs config sh = Some (Inr r0)"
      "settings (taking w k) = settings r0"
    using connection_settings [OF assms] .
  have b: "map (\<lambda>b. (b_id b, b_token b)) (rt_backends (taking w k)) =
      map (\<lambda>(i, addr). (i, configured_token config i)) specs"
    using arg_cong [OF r0(2), of "\<lambda>t. map (\<lambda>(i, token, kw). (i, token)) (fst t)"] router_setup [OF r0(1)]
    by (simp add: settings_def taking_def o_def)
  show "b_id b \<in> fst ` set specs \<and> b_token b = configured_token config (b_id b)" if "b \<in> set (rt_backends (taking w k))"
    using arg_cong [OF b, of set] that by (force simp: image_iff set_eq_iff split: prod.splits)
  have "wf_router r0"
    using r0(1) by (auto simp: wf_router_def serve_router_def Let_def set_cache_def set_audit_def set_namespacing_def
        set_registry_def router_new_def configure_def split: option.splits sum.splits)
  then show "wf_router (taking w k)"
    using r0(2) by (auto simp: wf_router_def settings_def taking_def)
qed

text \<open>The log, over the history of all connections.\<close>

lemma subseq_mset: "subseq xs ys \<Longrightarrow> mset xs \<subseteq># mset ys"
proof (induction rule: list_emb.induct)
  case (list_emb_Cons xs ys y)
  then show ?case by (metis add_mset_add_single mset.simps(2) mset_subset_eq_add_left subset_mset.order_trans)
qed simp_all

lemma serve_reverse: "serve_router render net dial specs config sh = Some (Inr r) \<Longrightarrow> rt_reverse r = []"
  by (auto simp: serve_router_def Let_def set_cache_def set_audit_def set_namespacing_def set_registry_def
      router_new_def configure_def split: option.splits sum.splits)

lemma shared_log:
  assumes "serving canon render net specs config w" "Option.bind config pcf_audit_secret = Some secret"
  shows "\<exists>recs. sh_audit (sw_shared w) = Some (audit_run canon secret recs) \<and>
    subseq (map fst (sent_calls (sw_trace w))) (map fst (attested recs)) \<and>
    (\<forall>c \<in> set (sw_conns w). list_emb (attests (cn_router c)) (sent_calls (rt_wire (cn_router c))) (attested recs) \<and>
        own_names (rt_reverse (cn_router c)))"
  using assms(1)
proof (induction rule: serving_steps)
  case begin_empty
  then show ?case
    using assms(2) by (intro exI [of _ "[]"]) (simp add: server_begin_def shared_start_def audit_run_def)
next
  case (accept w dial r)
  then show ?case
    using router_setup [OF accept.hyps] serve_reverse [OF accept.hyps] by (auto simp: sent_calls_def)
next
  case (step w k ph r env)
  let ?c = "cn_router (sw_conns w ! k)"
  obtain recs where recs: "sh_audit (sw_shared w) = Some (audit_run canon secret recs)"
      "subseq (map fst (sent_calls (sw_trace w))) (map fst (attested recs))"
      "\<forall>c \<in> set (sw_conns w). list_emb (attests (cn_router c)) (sent_calls (rt_wire (cn_router c))) (attested recs) \<and>
        own_names (rt_reverse (cn_router c))"
    using step.IH by blast
  obtain ws new where new: "rt_wire r = rt_wire ?c @ ws" "list_emb (attests r) (sent_calls ws) (attested new)"
      "rt_audit r = Some (append_all env new (audit_run canon secret recs))" "settings r = settings ?c"
      "reverse_from (rt_reverse ?c) (rt_reverse r)"
    using step.hyps(4) recs(1) by (auto simp: accounted_def)
  have conn: "list_emb (attests ?c) (sent_calls (rt_wire ?c)) (attested recs)" "own_names (rt_reverse ?c)"
    using recs(3) step.hyps(1) by simp_all
  note names = own_names_from [OF new(5) conn(2)]
  have "list_emb (attests r) (sent_calls (rt_wire r)) (attested (recs @ new))"
    using new(1,2) emb_kept [OF new(4,5) conn(1)] by (simp add: list_emb_append_mono)
  moreover have "list_emb P xs (attested (recs @ new))" if "list_emb P xs (attested recs)" for P xs
    using that by (simp add: list_emb_prefix)
  moreover have "subseq (map fst (sent_calls (sw_trace w @ ws))) (map fst (attested (recs @ new)))"
    using recs(2) attested_methods [OF new(2)] by (simp add: list_emb_append_mono)
  ultimately show ?case
    using recs(3) new names step.hyps(2) append_all_run [of env new secret recs]
    by (intro exI [of _ "recs @ new"]) (auto simp: leaving_def dest!: subsetD [OF set_update_subset_insert])
qed

lemma shared_anonymous:
  assumes "serving canon render net specs config w"
    and "smap_get key (entries (sh_cache (sw_shared w))) = Some e"
  shows "ce_principal e = None"
proof -
  have "(\<forall>c \<in> set (sw_conns w). rt_principal (cn_router c) = None) \<and>
      (\<forall>key e. smap_get key (entries (sh_cache (sw_shared w))) = Some e \<longrightarrow> ce_principal e = None)"
    using assms(1)
  proof (induction rule: serving_steps)
    case begin_empty
    then show ?case by (simp add: server_begin_def shared_start_def cache_new_def)
  next
    case (accept w dial r)
    then show ?case using router_setup [OF accept.hyps] by auto
  next
    case (step w k ph r env)
    have k: "sw_conns w ! k \<in> set (sw_conns w)" using step.hyps by simp
    have "rt_principal (taking w k) = None" using step.IH k by (simp add: taking_def)
    then have p: "rt_principal r = None" and c: "cache_from None (Some (sh_cache (sw_shared w))) (rt_cache r)"
      using step.hyps settings_principal [of r "taking w k"] by (simp_all add: same_setup_def)
    have "ce_principal e = None" if "smap_get key (entries (unwrap_or (rt_cache r) (sh_cache (sw_shared w)))) = Some e" for key e
      using c that step.IH by (cases key) (auto simp: cache_from_def split: option.splits, blast)
    moreover have "rt_principal (cn_router c) = None" if "c \<in> set ((sw_conns w)[k := \<lparr>cn_router = r, cn_phase = ph\<rparr>])" for c
      using that p step.IH set_update_subset_insert [of "sw_conns w" k] by fastforce
    ultimately show ?case by (auto simp: leaving_def)
  qed
  then show ?thesis using assms(2) by blast
qed

section \<open>A server to run on\<close>

text \<open>One backend, which marks its tools private, and a configuration with a token and a log.\<close>

definition git_config :: proxy_config where
  "git_config =
     \<lparr>pcf_listen = ''127.0.0.1:9100'', pcf_backends = [\<lparr>bc_id = ''git'', bc_addresses = [''a''], bc_token = Some ''t''\<rparr>],
      pcf_resilience = resilience_default, pcf_client_tokens = [], pcf_namespacing = namespacing_default,
      pcf_handlers = \<lparr>hc_meta_tools = False, hc_rest = []\<rparr>, pcf_audit_secret = Some ''k''\<rparr>"

definition private_list :: json where
  "private_list = jobj [(''tools'', JArr [jobj [(''name'', JStr ''log'')]]), (''cacheScope'', JStr PRIVATE)]"

definition git_env :: env where
  "git_env =
     \<lparr>e_delivery = (\<lambda>ws bid m. Replied (jobj [(''id'', jindex m ''id''),
         (''result'', if method_of m = Some ''tools/list'' then private_list else jobj [])])),
      e_clock = (\<lambda>_. Fin 0), e_now = (\<lambda>_. 0), e_enc = (\<lambda>_. []),
      e_dec = (\<lambda>_. Some (jobj [(''id'', JStr ''0''), (''method'', JStr ''initialize'')])),
      e_parse_error = (\<lambda>_. []), e_lower = id, e_validator = (\<lambda>_. None)\<rparr>"

definition list_tools :: json where
  "list_tools = jobj [(''id'', JStr ''1''), (''method'', JStr ''tools/list'')]"

definition git_router :: router where
  "git_router = (case serve_router (\<lambda>_. []) (\<lambda>_ _ _. Inr []) (\<lambda>_. None) [(''git'', ''a'')] (Some git_config)
      (shared_start (Some git_config)) of Some (Inr r) \<Rightarrow> r | _ \<Rightarrow> undefined)"

lemma git_valid: "valid_backend_id ''git''"
  by code_simp

lemma git_router_simps [simp]:
  "rt_backends git_router = [\<lparr>b_id = ''git'', b_next_id = 0, b_breaker = None, b_token = Some ''t'', b_keywords = [],
     b_capabilities = jobj [], b_server_info = None\<rparr>]"
  "\<not> rt_resilient git_router" "rt_single git_router" "rt_issuer git_router = None" "rt_audience git_router = None"
  "rt_cache git_router = Some (cache_new DEFAULT_TTL_MS)" "rt_audit git_router = Some (audit_new ''k'')"
  "\<not> rt_server_tasks git_router" "\<not> rt_pool_enabled git_router" "rt_strategy git_router = PREFIX"
  "rt_principal git_router = None"
  by (simp_all add: git_router_def serve_router_def git_config_def shared_start_def backend_new_def git_valid
      configured_token_def with_token_def Let_def build_registry_def registry_new_def set_namespacing_def
      set_registry_def set_audit_def set_cache_def router_new_def configure_def namespacing_default_def registry_ids_def)

lemma request_method: "method_of (backend_request_value b m params) = Some m"
  by (simp add: backend_request_value_def method_of_def get_str_def json_simps)

lemma git_delivery:
  "e_delivery git_env ws bid (backend_request_value b m params) = Replied (jobj [(''id'', jindex (backend_request_value b m params) ''id''),
     (''result'', if m = ''tools/list'' then private_list else jobj [])])"
  by (simp add: git_env_def request_method)

lemma git_delivers: "e_delivery git_env ws bid m \<noteq> WriteFailed e"
  by (simp add: git_env_def)

lemma git_no_variants: "compose_variants [jobj []] = []"
  by code_simp

lemma git_decode: "rpc_decode git_env raw = Inr (jobj [(''id'', JStr ''0''), (''method'', JStr ''initialize'')])"
  by (simp add: rpc_decode_def git_env_def)

lemma git_init: "method_of (jobj [(''id'', JStr ''0''), (''method'', JStr ''initialize'')]) = Some ''initialize''"
  by (simp add: method_of_def get_str_def json_simps)

lemma git_handshake:
  "\<exists>r. handshake git_env [[]] git_router = (Inr True, [], r) \<and> rt_variants r = [] \<and>
     rt_cache r = Some (cache_new DEFAULT_TTL_MS) \<and>
     rt_backends r = [\<lparr>b_id = ''git'', b_next_id = 1, b_breaker = None, b_token = Some ''t'', b_keywords = [],
       b_capabilities = jobj [], b_server_info = None\<rparr>]"
  by (simp add: git_delivers git_decode handshake_init_def git_init Let_def backend_handshake_def git_delivery json_simps
      request_def record_breaker_def send_message_def available_def set_backend_def emit_def git_no_variants variant_ids_def
      split: delivery.split)

lemma list_tools_fields:
  "method_of list_tools = Some ''tools/list''" "jget ''id'' list_tools = Some (JStr ''1'')"
  "params_or_empty list_tools = jobj []" "selected_variant (jobj []) = None"
  by (simp_all add: list_tools_def method_of_def get_str_def params_or_empty_def selected_variant_def json_simps)

lemma tools_capability:
  "List.find (\<lambda>c. cap_list c = ''tools/list'') CAPABILITIES = Some (CAPABILITIES ! 0)"
  "List.find (\<lambda>c. cap_call c = ''tools/list'') CAPABILITIES = None"
  "cap_list (CAPABILITIES ! 0) = ''tools/list''"
  by (simp_all add: CAPABILITIES_def)

lemma label_keeps: "label_items cap patterns bid items r = (out, s) \<Longrightarrow> \<not> is_passthrough cap r \<Longrightarrow> s = r"
  by (induction items arbitrary: out) (auto simp: Let_def split: option.splits prod.splits if_splits)

lemma git_lists:
  assumes "rt_variants r = []" "rt_cache r = Some (cache_new DEFAULT_TTL_MS)" "settings r = settings git_router"
    and "rt_backends r = [\<lparr>b_id = ''git'', b_next_id = 1, b_breaker = None, b_token = Some ''t'', b_keywords = [],
       b_capabilities = jobj [], b_server_info = None\<rparr>]"
  shows "\<exists>s. route_message git_env (\<lambda>_. []) list_tools r = (None, s) \<and>
     rt_cache s = Some (cache_put ''git'' ''tools/list'' None private_list (Fin 0) (cache_new DEFAULT_TTL_MS))"
proof -
  have f: "\<not> rt_resilient r" "rt_single r" "\<not> rt_server_tasks r" "\<not> rt_pool_enabled r" "rt_principal r = None"
      "rt_strategy r = PREFIX"
    using assms(3) by (simp_all add: settings_def)
  define params where "params = list_params False (jobj []) False JNull None None True ''git''"
  let ?r = "emit (ToBackend ''git'' (backend_request_value (rt_backends r ! 0) ''tools/list'' params))
     (set_backend 0 ((rt_backends r ! 0)\<lparr>b_next_id := 2\<rparr>) (r\<lparr>rt_ticks := Suc (rt_ticks r)\<rparr>))"
  have clk: "clock git_env q = (Fin 0, q\<lparr>rt_ticks := Suc (rt_ticks q)\<rparr>)" for q
    by (simp add: clock_def git_env_def)
  obtain out s where c: "collect git_env (CAPABILITIES ! 0) (jobj []) JNull None r = (out, s)" by force
  have ob: "as_object (jobj []) = Some []" "get_array k (jobj []) = None" for k by (simp_all add: jobj_def get_array_def json_simps smap_puts_def)
  have "rt_cache s = Some (cache_put ''git'' ''tools/list'' None private_list (Fin 0) (cache_new DEFAULT_TTL_MS)) \<and>
      (\<exists>x. out = Inr x) \<and> \<not> rt_resilient s"
    using c f assms(1,2,4)
    by (simp add: collect_def Let_def tools_capability resolve_cursor_def effective_variant_def backend_selected_def filter_list_def ob json_simps
      cache_get_def cache_new_def clk request_def git_delivery record_breaker_def set_backend_def emit_def)
      (auto simp: is_passthrough_def strategy_defs split: prod.splits dest!: label_keeps)
  then show ?thesis
    by (simp add: route_message_def list_tools_fields route_request_def runs_spawned_def f tools_capability
       dispatch_def is_task_method_def TASKS_METHODS_def is_subscribe_method_def SUBSCRIBE_METHOD_def UNSUBSCRIBE_METHOD_def Let_def
       variant_error_def json_simps aggregate_def cursor_problem_def resolve_cursor_def c)
      (auto simp: Let_def emit_def split: sum.splits option.splits)
qed

lemma taking_leaving:
  assumes "k < length (sw_conns w)" "rt_cache r \<noteq> None"
  shows "taking (leaving w k ph r) k = r"
  using assms by (auto simp: taking_def leaving_def)

lemma taking_accepted:
  assumes "rt_cache r = Some (sh_cache (sw_shared w))" "rt_audit r = sh_audit (sw_shared w)"
  shows "taking (w\<lparr>sw_conns := sw_conns w @ [\<lparr>cn_router = r, cn_phase = ph\<rparr>]\<rparr>) (length (sw_conns w)) = r"
  using assms by (simp add: taking_def)

abbreviation git_serving :: "server \<Rightarrow> bool" where
  "git_serving \<equiv> serving (\<lambda>_. []) (\<lambda>_. []) (\<lambda>_ _ _. Inr []) [(''git'', ''a'')] (Some git_config)"

lemma git_accepts:
  "\<exists>r. serve_router (\<lambda>_. []) (\<lambda>_ _ _. Inr []) (\<lambda>_. None) [(''git'', ''a'')] (Some git_config) sh = Some (Inr r) \<and>
     map b_id (rt_backends r) = [''git''] \<and> rt_cache r = Some (sh_cache sh) \<and> rt_audit r = sh_audit sh"
  by (simp add: serve_router_def git_config_def backend_new_def git_valid configured_token_def with_token_def Let_def
      build_registry_def registry_new_def set_namespacing_def set_registry_def set_audit_def set_cache_def
      router_new_def configure_def split: option.split)

text \<open>A client lists the tools, and another one connects.\<close>

lemma git_world:
  "\<exists>w. git_serving w \<and> length (sw_conns w) = 2 \<and> running w 0 Open \<and> map b_id (rt_backends (taking w 1)) = [''git''] \<and>
     entries (sh_cache (sw_shared w)) = [((''git'', ''tools/list''),
       \<lparr>ce_result = private_list, ce_expires_at = Fin 300, ce_scope = PRIVATE, ce_principal = None\<rparr>)]"
proof -
  let ?w0 = "server_begin (Some git_config)"
  have sh0: "sw_shared ?w0 = shared_start (Some git_config)" "sw_conns ?w0 = []" by (simp_all add: server_begin_def)
  have r: "serve_router (\<lambda>_. []) (\<lambda>_ _ _. Inr []) (\<lambda>_. None) [(''git'', ''a'')] (Some git_config) (sw_shared ?w0) =
      Some (Inr git_router)"
    using git_accepts [of "shared_start (Some git_config)"] sh0 by (auto simp: git_router_def)
  let ?w1 = "?w0\<lparr>sw_conns := sw_conns ?w0 @ [\<lparr>cn_router = git_router, cn_phase = Opening\<rparr>]\<rparr>"
  have w1: "git_serving ?w1" by (rule serving.accept [OF serving.begin_empty r])
  have t1: "taking ?w1 0 = git_router"
  proof -
    have "rt_cache git_router = Some (sh_cache (sw_shared ?w0))" "rt_audit git_router = sh_audit (sw_shared ?w0)"
      by (simp_all add: server_begin_def shared_start_def git_config_def)
    from taking_accepted [OF this, of Opening] show ?thesis by (simp only: sh0 list.size)
  qed
  obtain r1 where r1: "handshake git_env [[]] (taking ?w1 0) = (Inr True, [], r1)" "rt_variants r1 = []"
      "rt_cache r1 = Some (cache_new DEFAULT_TTL_MS)"
      "rt_backends r1 = [\<lparr>b_id = ''git'', b_next_id = 1, b_breaker = None, b_token = Some ''t'', b_keywords = [],
         b_capabilities = jobj [], b_server_info = None\<rparr>]"
    using git_handshake t1 by auto
  let ?w2 = "leaving ?w1 0 Open r1"
  have w2: "git_serving ?w2"
    using serving.opened [OF w1 _ _ r1(1)] sh0 by (simp add: running_def git_env_def)
  have t2: "taking ?w2 0 = r1" using r1(3) sh0 by (intro taking_leaving) simp_all
  have s1: "settings r1 = settings git_router"
    using kept.law_handshake [OF r1(1)] t1 by (simp add: same_setup_def)
  obtain r2 where r2: "route_message git_env (\<lambda>_. []) list_tools r1 = (None, r2)"
      "rt_cache r2 = Some (cache_put ''git'' ''tools/list'' None private_list (Fin 0) (cache_new DEFAULT_TTL_MS))"
    using git_lists [OF r1(2,3) s1 r1(4)] by blast
  let ?w3 = "leaving ?w2 0 Open r2"
  have e: "session git_env (\<lambda>_. []) (taking ?w2 0) [FromClient list_tools] r2"
    using session.client [OF session.init r2(1)] t2 by simp
  have len: "length (sw_conns ?w2) = 1" "running ?w2 0 Open" using sh0 by (simp_all add: leaving_def running_def)
  have w3: "git_serving ?w3"
    using serving.event [OF w2 len(2) _ e] by (simp add: git_env_def)
  obtain r3 where r3: "serve_router (\<lambda>_. []) (\<lambda>_ _ _. Inr []) (\<lambda>_. None) [(''git'', ''a'')] (Some git_config) (sw_shared ?w3) =
      Some (Inr r3)" "map b_id (rt_backends r3) = [''git'']" "rt_cache r3 = Some (sh_cache (sw_shared ?w3))"
      "rt_audit r3 = sh_audit (sw_shared ?w3)"
    using git_accepts [of "sw_shared ?w3"] by (elim exE conjE)
  let ?w4 = "?w3\<lparr>sw_conns := sw_conns ?w3 @ [\<lparr>cn_router = r3, cn_phase = Opening\<rparr>]\<rparr>"
  have len3: "length (sw_conns ?w3) = 1" using len by (simp add: leaving_def)
  have "git_serving ?w4" by (rule serving.accept [OF w3 r3(1)])
  moreover have "taking ?w4 1 = r3" using taking_accepted [OF r3(3,4), of Opening] len3 by simp
  moreover have "entries (cache_put ''git'' ''tools/list'' None private_list (Fin 0) (cache_new DEFAULT_TTL_MS)) =
      [((''git'', ''tools/list''), \<lparr>ce_result = private_list, ce_expires_at = Fin 300, ce_scope = PRIVATE, ce_principal = None\<rparr>)]"
    by code_simp
  ultimately show ?thesis
    using r2(2) r3(2) len3 by (intro exI [of _ ?w4]) (simp add: leaving_def running_def nth_append)
qed

definition git_log_call :: json where
  "git_log_call = jobj [(''id'', JStr ''2''), (''method'', JStr ''tools/call''), (''params'', jobj [(''name'', JStr ''log'')])]"

lemma git_log_call_fields: "method_of git_log_call = Some ''tools/call''" "jget ''id'' git_log_call = Some (JStr ''2'')"
  by (simp_all add: git_log_call_def method_of_def get_str_def json_simps)

section \<open>Properties\<close>

text \<open>C5: Whatever connections are accepted, and however their messages, spawned tasks, pings and
  publications interleave: the one accountability log of the server verifies; the calls with an id
  that a connection sent to its backends are accounted for by it one by one and in their order,
  under names that the router of the connection routes to where they went, passed-through names
  included; and it attests as many calls of a method as all connections together have sent. The
  order of calls of different connections is not claimed: the code may write the attestation of one
  between that of another and its call.\<close>
theorem shared_log_accounts:
  assumes "serving canon render net specs config w" "Option.bind config pcf_audit_secret = Some secret"
  shows "\<exists>recs. sh_audit (sw_shared w) = Some (audit_run canon secret recs) \<and>
    audit_verify canon (audit_run canon secret recs) \<and>
    image_mset fst (mset (sent_calls (sw_trace w))) \<subseteq># image_mset fst (mset (attested recs)) \<and>
    (\<forall>c \<in> set (sw_conns w). list_emb (attests (cn_router c)) (sent_calls (rt_wire (cn_router c))) (attested recs) \<and>
        own_names (rt_reverse (cn_router c)))"
proof -
  obtain recs where recs: "sh_audit (sw_shared w) = Some (audit_run canon secret recs)"
      "subseq (map fst (sent_calls (sw_trace w))) (map fst (attested recs))"
      "\<forall>c \<in> set (sw_conns w). list_emb (attests (cn_router c)) (sent_calls (rt_wire (cn_router c))) (attested recs) \<and>
        own_names (rt_reverse (cn_router c))"
    using shared_log [OF assms] by blast
  then show ?thesis
    using audit_run_inv [of canon secret recs] subseq_mset [OF recs(2)]
    by (intro exI [of _ recs]) (simp add: audit_verify_def)
qed

text \<open>The log after a call, whether the call ends the connection or not.\<close>

theorem shared_log_accounts_witness:
  "\<exists>w w' err r recs. git_serving w' \<and>
     route_message git_env (\<lambda>_. []) git_log_call (taking w 0) = (err, r) \<and>
     w' = leaving w 0 (if err = None then Open else Over) r \<and>
     sh_audit (sw_shared w') = Some (audit_run (\<lambda>_. []) ''k'' recs) \<and>
     audit_verify (\<lambda>_. []) (audit_run (\<lambda>_. []) ''k'' recs) \<and>
     image_mset fst (mset (sent_calls (sw_trace w'))) \<subseteq># image_mset fst (mset (attested recs)) \<and>
     (\<forall>c \<in> set (sw_conns w'). list_emb (attests (cn_router c)) (sent_calls (rt_wire (cn_router c))) (attested recs) \<and>
        own_names (rt_reverse (cn_router c)))"
proof -
  obtain w where w: "git_serving w" "running w 0 Open" using git_world by (elim exE conjE)
  obtain err r where r: "route_message git_env (\<lambda>_. []) git_log_call (taking w 0) = (err, r)" by force
  have e: "e_enc git_env = (\<lambda>_. [])" by (simp add: git_env_def)
  let ?w = "leaving w 0 (if err = None then Open else Over) r"
  have "git_serving ?w"
  proof (cases err)
    case None
    have "session git_env (\<lambda>_. []) (taking w 0) ([] @ [FromClient git_log_call]) r"
      using session.client [OF session.init] r None by blast
    then show ?thesis using serving.event [OF w e] None by simp
  next
    case (Some x)
    then show ?thesis using serving.failed_event [OF w e] r by simp
  qed
  moreover have "Option.bind (Some git_config) pcf_audit_secret = Some ''k''" by (simp add: git_config_def)
  ultimately show ?thesis using shared_log_accounts [of _ _ _ _ _ ?w] r by blast
qed

text \<open>C7: On every connection, a request of the client reaches only backends of the command line or the
  configuration, and none with another credential than the token configured for that backend.\<close>
theorem connection_credentials:
  assumes "serving canon render net specs config w" "running w k Open"
    and "method_of m \<noteq> None" "jget ''id'' m \<noteq> None"
    and "route_message env show_error m (taking w k) = (err, r)"
  shows "\<exists>ws. rt_wire r = rt_wire (taking w k) @ ws \<and>
    list_all (\<lambda>x. case x of ToClient _ \<Rightarrow> True
      | ToBackend bid sent \<Rightarrow> bid \<in> fst ` set specs \<and>
          (case credential sent of None \<Rightarrow> True
           | Some cred \<Rightarrow> \<exists>c b. config = Some c \<and> b \<in> set (pcf_backends c) \<and> bc_id b = bid \<and>
               bearer (bc_token b) = Some cred)) ws"
proof -
  have k: "k < length (sw_conns w)" using assms(2) by (simp add: running_def)
  note backends = taking_backends [OF assms(1) k]
  obtain rid where rid: "jget ''id'' m = Some rid" using assms(4) by blast
  have "route_request env show_error m rid (taking w k) = (err, r)"
    using assms(3,5) rid by (auto simp: route_message_def)
  from route_request_credentials [OF backends(1) rid this] obtain ws where ws: "rt_wire r = rt_wire (taking w k) @ ws"
      "list_all (\<lambda>x. case x of ToClient _ \<Rightarrow> True
        | ToBackend bid m \<Rightarrow> list_ex (\<lambda>b. b_id b = bid \<and> (credential m = None \<or> credential m = bearer (b_token b)))
                               (rt_backends (taking w k))) ws"
    by blast
  have "case x of ToClient _ \<Rightarrow> True
      | ToBackend bid sent \<Rightarrow> bid \<in> fst ` set specs \<and>
          (case credential sent of None \<Rightarrow> True
           | Some cred \<Rightarrow> \<exists>c b. config = Some c \<and> b \<in> set (pcf_backends c) \<and> bc_id b = bid \<and>
               bearer (bc_token b) = Some cred)" if x: "x \<in> set ws" for x
  proof (cases x)
    case (ToBackend bid sent)
    then obtain b where "b \<in> set (rt_backends (taking w k))" "b_id b = bid"
        "credential sent = None \<or> credential sent = bearer (b_token b)"
      using bspec [OF ws(2) [unfolded list_all_iff] x] by (auto simp: list_ex_iff)
    then have "bid \<in> fst ` set specs" "credential sent = None \<or> credential sent = bearer (configured_token config bid)"
      using backends(2) by auto
    then show ?thesis using configured_token_source [of config bid] by (auto simp: ToBackend split: option.splits)
  qed simp
  then show ?thesis using ws(1) by (simp add: list_all_iff)
qed

theorem connection_credentials_witness:
  "\<exists>w err r ws. git_serving w \<and> route_message git_env (\<lambda>_. []) git_log_call (taking w 0) = (err, r) \<and>
     rt_wire r = rt_wire (taking w 0) @ ws \<and>
     list_all (\<lambda>x. case x of ToClient _ \<Rightarrow> True
       | ToBackend bid sent \<Rightarrow> bid = ''git'' \<and>
           (case credential sent of None \<Rightarrow> True | Some cred \<Rightarrow> cred = JStr ''Bearer t'')) ws"
proof -
  obtain w where w: "git_serving w" "running w 0 Open" using git_world by (elim exE conjE)
  obtain err r where r: "route_message git_env (\<lambda>_. []) git_log_call (taking w 0) = (err, r)" by force
  have t: "bearer (bc_token b) = Some (JStr ''Bearer t'')" if "b \<in> set (pcf_backends git_config)" for b
    using that by (auto simp: git_config_def bearer_def)
  show ?thesis
    using connection_credentials [OF w _ _ r] w(1) r t
    by (fastforce simp: git_log_call_fields list_all_iff split: wire.splits option.splits)
qed

text \<open>C33: The list cache is one for all clients and knows no principal: what any connection's list
  request has put into it is served to every other connection, marked private or not, until it
  expires.\<close>
theorem private_lists_shared:
  assumes "serving canon render net specs config w" "k < length (sw_conns w)"
    and "smap_get (b_id (rt_backends (taking w k) ! i), method) (entries (sh_cache (sw_shared w))) = Some e"
    and "\<not> f64_le (ce_expires_at e) (e_clock env (rt_ticks (taking w k)))"
  shows "\<exists>r. cache_hits env True method [i] (taking w k) = ([(b_id (rt_backends (taking w k) ! i), ce_result e)], [], r)"
proof -
  obtain dial sh r0 where r0: "serve_router render net dial specs config sh = Some (Inr r0)"
      "settings (taking w k) = settings r0"
    using connection_settings [OF assms(1,2)] .
  have "rt_principal (taking w k) = None" using router_setup [OF r0(1)] settings_principal [OF r0(2)] by simp
  then show ?thesis
    using shared_anonymous [OF assms(1,3)] assms(3,4) by (simp add: clock_def cache_get_def Let_def)
qed

theorem private_lists_shared_witness:
  "\<exists>w r. git_serving w \<and> length (sw_conns w) = 2 \<and> jget ''cacheScope'' private_list = Some (JStr PRIVATE) \<and>
     cache_hits git_env True ''tools/list'' [0] (taking w 1) = ([(''git'', private_list)], [], r)"
proof -
  obtain w where w: "git_serving w" "length (sw_conns w) = 2" "running w 0 Open" "map b_id (rt_backends (taking w 1)) = [''git'']"
      "entries (sh_cache (sw_shared w)) = [((''git'', ''tools/list''),
         \<lparr>ce_result = private_list, ce_expires_at = Fin 300, ce_scope = PRIVATE, ce_principal = None\<rparr>)]"
    using git_world by (elim exE conjE)
  let ?e = "\<lparr>ce_result = private_list, ce_expires_at = Fin 300, ce_scope = PRIVATE, ce_principal = None\<rparr>"
  have b: "b_id (rt_backends (taking w 1) ! 0) = ''git''"
    using arg_cong [OF w(4), of hd] w(4) by (cases "rt_backends (taking w 1)") (simp_all only: list.map list.sel nth_Cons_0 list.distinct)
  have "smap_get (b_id (rt_backends (taking w 1) ! 0), ''tools/list'') (entries (sh_cache (sw_shared w))) = Some ?e"
    unfolding w(5) b by simp
  moreover have "\<not> f64_le (ce_expires_at ?e) (e_clock git_env (rt_ticks (taking w 1)))"
    by (simp add: git_env_def f64_le_def f64_eq_def)
  ultimately obtain r where "cache_hits git_env True ''tools/list'' [0] (taking w 1) = ([(''git'', private_list)], [], r)"
    using private_lists_shared [OF w(1), of 1 0 "''tools/list''" ?e git_env] w(2) unfolding b by auto
  moreover have "jget ''cacheScope'' private_list = Some (JStr PRIVATE)"
    by (simp add: private_list_def json_simps)
  ultimately show ?thesis using w(1,2) by blast
qed

text \<open>C32: A configuration whose handlers clash, which the diagnosis accepts, makes every connection
  that reaches its backends panic, and only such a configuration does; otherwise a connection
  has its router unless a backend cannot be reached, and then it ends with the first error.\<close>
theorem accepted_config_connections:
  assumes "wf_json data" "from_value data = Inr c" "those (map backend_spec (pcf_backends c)) = Some specs"
  shows "case List.find (\<lambda>(i, addr). dial addr \<noteq> None) specs of
      Some (i, addr) \<Rightarrow> serve_router render net dial specs (Some c) sh = Some (Inl (the (dial addr)))
    | None \<Rightarrow> if distinct (handler_ids (pcf_handlers c))
              then \<exists>r. serve_router render net dial specs (Some c) sh = Some (Inr r)
              else serve_router render net dial specs (Some c) sh = None"
proof -
  note ok = from_value_ok [OF assms(1,2)]
  have spec_id: "backend_spec b = Some (i, addr) \<Longrightarrow> i = bc_id b" for b i addr
    by (auto simp: backend_spec_def split: list.splits)
  have ids: "map fst specs = map bc_id bs" if "those (map backend_spec bs) = Some specs" for bs specs
    using that by (induction bs arbitrary: specs) (auto split: option.splits dest: spec_id)
  have valid: "list_all (\<lambda>s. valid_backend_id (fst s)) specs"
    using ok ids [OF assms(3)] by (simp add: proxy_config_ok_def Let_def list_all_iff) (metis (no_types) image_eqI image_iff list.set_map)
  have connect: "case List.find (\<lambda>(i, addr). dial addr \<noteq> None) ss of
      Some (i, addr) \<Rightarrow> connect_backends dial (Some c) ss = Some (Inl (the (dial addr)))
    | None \<Rightarrow> \<exists>bs. connect_backends dial (Some c) ss = Some (Inr bs)" if "list_all (\<lambda>s. valid_backend_id (fst s)) ss" for ss
    using that
  proof (induction ss)
    case (Cons s ss)
    then show ?case by (cases s) (auto simp: backend_new_def Let_def split: option.splits)
  qed simp
  obtain out where out: "build_registry render net (pcf_handlers c) (\<lambda>_. backend_ids_json (map fst specs)) = Some out"
      "(\<exists>r. out = Inr r) \<longleftrightarrow> distinct (handler_ids (pcf_handlers c))"
    using build_registry_cases [OF ok] by blast
  show ?thesis
    using connect [OF valid] out by (cases out) (auto simp: serve_router_def Let_def split: option.splits)
qed

text \<open>A configuration whose handlers clash.\<close>

definition twice_yamp :: json where
  "twice_yamp =
     jobj [(''listen'', JStr ''127.0.0.1:9100''),
           (''backends'', jobj [(''files'', jobj [(''address'', JStr ''a'')])]),
           (''handlers'', jobj [(''metaTools'', JBool True),
              (''rest'', JArr [jobj [(''id'', JStr ''yamp''), (''baseUrl'', JStr ''http://x'')]])])]"

theorem accepted_config_connections_witness:
  "\<exists>c. from_value twice_yamp = Inr c \<and>
     serve_router (\<lambda>_. []) (\<lambda>_ _ _. Inr []) (\<lambda>_. None) [(''files'', ''a'')] (Some c) (shared_start (Some c)) = None"
proof -
  have wf: "wf_json twice_yamp" by code_simp
  have none: "first_error twice_yamp = None" by code_simp
  have rest: "rest_entries twice_yamp = [jobj [(''id'', JStr ''yamp''), (''baseUrl'', JStr ''http://x'')]]"
    and meta: "as_bool (jindex (jindex twice_yamp ''handlers'') ''metaTools'') = Some True"
    and backs: "backend_entries twice_yamp = [(''files'', jobj [(''address'', JStr ''a'')])]" by code_simp+
  obtain c where c: "from_value twice_yamp = Inr c" using none by (simp add: from_value_def)
  have "\<not> distinct (handler_ids (pcf_handlers c))" "those (map backend_spec (pcf_backends c)) = Some [(''files'', ''a'')]"
    using none c by (auto simp: from_value_def handler_ids_def rest meta backs resolve_rest_def resolve_backend_def
        backend_spec_def strings_of_def map_filter_def json_simps)
  then show ?thesis
    using accepted_config_connections [OF wf c, where specs = "[(''files'', ''a'')]" and dial = "\<lambda>_. None" and sh = "shared_start (Some c)"] c
    by simp
qed

end
