(* ===== verification/ForwardExample.thy ===== *)
theory ForwardExample
  imports Serve
begin

text \<open>
  The runnable example \<open>src/examples/forward_router.rs\<close>: two in-process backends behind a
  \<open>ForwardRouter\<close>, and a client that makes its handshake, lists the tools and prints what it got.
  The backend program is an action on its connection; what it replies to the requests of the
  router is the delivery with which the router is run. The example is the end-to-end run of the
  model of the router: the theorem at the end computes what the client prints.
\<close>

section \<open>The backend program\<close>

definition example_server_info :: "str \<Rightarrow> json" where
  "example_server_info name = jobj [(''name'', JStr (name @ ''-server''))]"

definition example_initialize_reply :: "str \<Rightarrow> json \<Rightarrow> json" where
  "example_initialize_reply name init =
     jobj [(''jsonrpc'', JStr ''2.0''), (''id'', jindex init ''id''),
           (''result'', jobj [(''protocolVersion'', JStr PROXY_PROTOCOL_VERSION),
              (''capabilities'', jobj [(''tools'', jobj [])]), (''serverInfo'', example_server_info name)])]"

definition example_listing :: "str list \<Rightarrow> json \<Rightarrow> json" where
  "example_listing tools message =
     jobj [(''jsonrpc'', JStr ''2.0''), (''id'', jindex message ''id''),
           (''result'', jobj [(''tools'', JArr (map (\<lambda>t. jobj [(''name'', JStr t)]) tools))])]"

function example_loop :: "codec \<Rightarrow> str list \<Rightarrow> (chan, unit) action" where
  "example_loop k tools c =
     (case recv c of
        (Inl e, c) \<Rightarrow> (Inl e, c)
      | (Inr None, c) \<Rightarrow> send_eof_to c
      | (Inr (Some raw), c) \<Rightarrow>
          (case decode_message k raw of
             Inl e \<Rightarrow> (Inl e, c)
           | Inr message \<Rightarrow>
               if method_of message = Some ''tools/list''
               then (case send_message_to (c_enc k (example_listing tools message)) c of
                       (Inl e, c) \<Rightarrow> (Inl e, c)
                     | (Inr _, c) \<Rightarrow> example_loop k tools c)
               else example_loop k tools c))"
  by pat_completeness auto
termination
  by (relation "measure (\<lambda>(k, tools, c). length (ch_in c))")
    (auto dest!: recv_cases(1) [OF sym] put_packet_cases(1) [OF sym])

declare example_loop.simps [simp del]

text \<open>\<open>None\<close> is the panic when the connection ends before its first message.\<close>

definition example_backend :: "codec \<Rightarrow> str \<Rightarrow> str list \<Rightarrow> chan \<Rightarrow> ((io_error + unit) \<times> chan) option" where
  "example_backend k name tools c =
     (case recv c of
        (Inl e, c) \<Rightarrow> Some (Inl e, c)
      | (Inr None, c) \<Rightarrow> None
      | (Inr (Some raw), c) \<Rightarrow>
          Some (and_then (lift (decode_message k raw)) (\<lambda>init.
                and_then (send_message_to (c_enc k (example_initialize_reply name init))) (\<lambda>_.
                and_then recv (\<lambda>_. example_loop k tools))) c))"

section \<open>The client\<close>

definition example_script :: "json list" where
  "example_script =
     [jobj [(''jsonrpc'', JStr ''2.0''), (''id'', JStr ''1''), (''method'', JStr ''initialize''),
            (''params'', jobj [(''protocolVersion'', JStr ''2024-11-05''), (''capabilities'', jobj []),
               (''clientInfo'', jobj [(''name'', JStr ''demo'')])])],
      jobj [(''jsonrpc'', JStr ''2.0''), (''method'', JStr ''notifications/initialized'')],
      jobj [(''jsonrpc'', JStr ''2.0''), (''id'', JStr ''2''), (''method'', JStr ''tools/list'')]]"

text \<open>What the client receives, and what it prints of it; \<open>None\<close> where it panics.\<close>

definition to_client :: "wire list \<Rightarrow> json list" where
  "to_client ws = List.map_filter (\<lambda>w. case w of ToClient m \<Rightarrow> Some m | ToBackend bid m \<Rightarrow> None) ws"

definition listed_names :: "json \<Rightarrow> str list option" where
  "listed_names listing =
     Option.bind (as_array (jindex (jindex listing ''result'') ''tools''))
       (\<lambda>tools. those (map (\<lambda>t. as_str (jindex t ''name'')) tools))"

definition example_prints :: "(json \<Rightarrow> str) \<Rightarrow> (str list \<Rightarrow> str) \<Rightarrow> json list \<Rightarrow> str list option" where
  "example_prints render pretty received =
     (case received of
        init # listing # _ \<Rightarrow>
          map_option (\<lambda>names. [''client sees serverInfo: '' @ render (jindex (jindex init ''result'') ''serverInfo''),
                               ''aggregated, namespaced tools: '' @ pretty names]) (listed_names listing)
      | _ \<Rightarrow> None)"

section \<open>The run\<close>

definition line_backend :: "str \<Rightarrow> backend" where
  "line_backend i = (case backend_new i None of Inr b \<Rightarrow> b | Inl e \<Rightarrow> undefined)"

definition example_router :: router where
  "example_router = router_new [line_backend ''github'', line_backend ''slack'']"

text \<open>The replies of the two backend programs to what the router sends them.\<close>

definition example_tools :: "str \<Rightarrow> str list" where
  "example_tools bid = (if bid = ''github'' then [''create_issue'', ''search''] else [''post_message''])"

definition example_delivery :: "wire list \<Rightarrow> str \<Rightarrow> json \<Rightarrow> delivery" where
  "example_delivery ws bid message =
     (if filter (\<lambda>w. case w of ToBackend i m \<Rightarrow> i = bid | ToClient m \<Rightarrow> False) ws = []
      then Replied (example_initialize_reply bid message)
      else if method_of message = Some ''tools/list'' then Replied (example_listing (example_tools bid) message)
      else ReplyTimedOut)"

definition example_run :: "env \<Rightarrow> (manual_error \<Rightarrow> str) \<Rightarrow> io_error option \<times> router" where
  "example_run env show_error = serve env show_error (map (e_enc env) example_script) example_router"

section \<open>Lemmas\<close>

text \<open>The delivery is what the backend programs send: replayed over a history of messages, it gives
  the output of the program.\<close>

fun delivered :: "wire list \<Rightarrow> str \<Rightarrow> json list \<Rightarrow> json list" where
  "delivered ws bid [] = []"
| "delivered ws bid (m # ms) =
     (case example_delivery ws bid m of Replied v \<Rightarrow> [v] | _ \<Rightarrow> []) @ delivered (ws @ [ToBackend bid m]) bid ms"

lemma example_loop_sends:
  assumes "\<forall>m \<in> set ms. c_dec k (c_enc k m) = Inr m" "ToBackend bid x \<in> set ws" "tools = example_tools bid"
  shows "example_loop k tools \<lparr>ch_in = map (\<lambda>m. Inr (c_enc k m)) ms, ch_out = sent, ch_faults = []\<rparr> =
    (Inr (), \<lparr>ch_in = [], ch_out = sent @ map (\<lambda>v. Payload (c_enc k v)) (delivered ws bid ms) @ [Eof], ch_faults = []\<rparr>)"
  using assms
proof (induction ms arbitrary: sent ws)
  case Nil
  then show ?case by (simp add: example_loop.simps recv_def put_packet_def)
next
  case (Cons m ms)
  have "filter (\<lambda>w. case w of ToBackend i m \<Rightarrow> i = bid | ToClient m \<Rightarrow> False) ws \<noteq> []"
    using Cons.prems(2) by (force simp: filter_empty_conv)
  then show ?case
    using Cons.IH [of "ws @ [ToBackend bid m]"] Cons.prems
    by (subst example_loop.simps) (simp add: recv_def put_packet_def decode_message_def example_delivery_def)
qed

lemma example_backend_sends:
  assumes "\<forall>m \<in> set (init # second # ms). c_dec k (c_enc k m) = Inr m" "method_of second \<noteq> Some ''tools/list''"
  shows "example_backend k bid (example_tools bid)
      \<lparr>ch_in = map (\<lambda>m. Inr (c_enc k m)) (init # second # ms), ch_out = [], ch_faults = []\<rparr> =
    Some (Inr (), \<lparr>ch_in = [],
       ch_out = map (\<lambda>v. Payload (c_enc k v)) (delivered [] bid (init # second # ms)) @ [Eof], ch_faults = []\<rparr>)"
  using assms example_loop_sends [of ms k bid init "[ToBackend bid init, ToBackend bid second]"]
  by (simp add: example_backend_def recv_def put_packet_def decode_message_def and_then_def lift_def example_delivery_def)

lemma line_backend_eq:
  "i = ''github'' \<or> i = ''slack'' \<Longrightarrow> line_backend i = \<lparr>b_id = i, b_next_id = 0, b_breaker = None, b_token = None,
     b_keywords = [], b_capabilities = jobj [], b_server_info = None\<rparr>"
proof -
  have "valid_backend_id ''github''" "valid_backend_id ''slack''" by code_simp+
  then show "i = ''github'' \<or> i = ''slack'' \<Longrightarrow> line_backend i = \<lparr>b_id = i, b_next_id = 0, b_breaker = None, b_token = None,
     b_keywords = [], b_capabilities = jobj [], b_server_info = None\<rparr>"
    by (auto simp: line_backend_def backend_new_def)
qed

lemma example_router_simps [simp]:
  "rt_backends example_router = [line_backend ''github'', line_backend ''slack'']"
  "\<not> rt_resilient example_router" "\<not> rt_single example_router" "rt_issuer example_router = None" "rt_audience example_router = None"
  "rt_cache example_router = None" "rt_audit example_router = None" "rt_wire example_router = []"
  "\<not> rt_server_tasks example_router" "\<not> rt_pool_enabled example_router" "rt_strategy example_router = PREFIX"
  "rt_principal example_router = None" "rt_registry example_router = []" "\<not> rt_disclose example_router"
  "rt_directives example_router = None" "rt_trace example_router" "rt_filters example_router = None"
  by (simp_all add: example_router_def router_new_def configure_def line_backend_eq)

lemma script_length: "length example_script = 3"
  by (simp add: example_script_def)

lemma script_fields:
  "method_of (example_script ! 0) = Some ''initialize''" "id_or_null (example_script ! 0) = JStr ''1''"
  "method_of (example_script ! 2) = Some ''tools/list''" "jget ''id'' (example_script ! 2) = Some (JStr ''2'')"
  "params_or_empty (example_script ! 2) = jobj []"
  by (simp_all add: example_script_def method_of_def get_str_def json_simps id_or_null_def params_or_empty_def)

definition greeted :: "str \<Rightarrow> nat \<Rightarrow> backend" where
  "greeted i n = \<lparr>b_id = i, b_next_id = of_nat n, b_breaker = None, b_token = None, b_keywords = [],
     b_capabilities = jobj [(''tools'', jobj [])], b_server_info = Some (example_server_info i)\<rparr>"

lemma example_handshake:
  assumes "e_delivery env = example_delivery" "e_dec env (e_enc env (example_script ! 0)) = Some (example_script ! 0)"
  shows "\<exists>r caps. handshake env (map (e_enc env) example_script) example_router =
      (Inr True, [e_enc env (example_script ! 2)], r) \<and> rt_variants r = [] \<and> rt_cache r = None \<and>
      rt_backends r = [greeted ''github'' 1, greeted ''slack'' 1] \<and>
      to_client (rt_wire r) = [initialize_reply (JStr ''1'') caps] \<and>
      (\<exists>m1 m2. ToBackend ''github'' m1 \<in> set (rt_wire r) \<and> ToBackend ''slack'' m2 \<in> set (rt_wire r))"
proof -
  have v: "variant_ids (compose_variants [jobj [(''tools'', jobj [])], jobj [(''tools'', jobj [])]]) = []" by code_simp
  have s: "map (e_enc env) example_script = [e_enc env (example_script ! 0), e_enc env (example_script ! 1), e_enc env (example_script ! 2)]"
    by (simp add: example_script_def)
  show ?thesis
    unfolding s
    by (simp add: rpc_decode_def assms handshake_init_def script_fields Let_def backend_handshake_def line_backend_eq
        request_def example_delivery_def example_initialize_reply_def json_simps
        record_breaker_def send_message_def available_def set_backend_def emit_def v greeted_def to_client_def)
      blast
qed

text \<open>The two lists, labelled.\<close>

lemma example_labels:
  assumes "\<not> is_passthrough (CAPABILITIES ! 0) r" "\<not> rt_single r"
  shows "label_items (CAPABILITIES ! 0) [] ''github'' [jobj [(''name'', JStr ''create_issue'')], jobj [(''name'', JStr ''search'')]] r =
      ([jobj [(''name'', JStr ''github__create_issue'')], jobj [(''name'', JStr ''github__search'')]], r)"
    and "label_items (CAPABILITIES ! 0) [] ''slack'' [jobj [(''name'', JStr ''post_message'')]] r =
      ([jobj [(''name'', JStr ''slack__post_message'')]], r)"
  using assms
  by (simp_all add: exposed_label_def CAPABILITIES_def ns_prefix_def DELIMITER_def name_matches_def get_str_def json_simps jobj_def smap_puts_def)

definition asked_before :: "str \<Rightarrow> router \<Rightarrow> bool" where
  "asked_before bid r \<longleftrightarrow> (\<exists>m. ToBackend bid m \<in> set (rt_wire r))"

lemma example_request:
  assumes "e_delivery env = example_delivery" "rt_backends r ! i = greeted bid n" "asked_before bid r"
  shows "\<exists>m. request env i ''tools/list'' params r =
    (Inr (example_listing (example_tools bid) m), emit (ToBackend bid m) (set_backend i (greeted bid (Suc n)) r))"
proof -
  have "filter (\<lambda>w. case w of ToBackend i m \<Rightarrow> i = bid | ToClient m \<Rightarrow> False) (rt_wire r) \<noteq> []"
    using assms(3) by (force simp: filter_empty_conv asked_before_def)
  moreover have "b_id (greeted bid n) = bid" by (simp add: greeted_def)
  moreover have "(greeted bid n)\<lparr>b_next_id := b_next_id (greeted bid n) + 1\<rparr> = greeted bid (Suc n)"
    by (simp add: greeted_def)
  moreover have "record_breaker env i True (emit w (set_backend i (greeted bid (Suc n)) r)) = emit w (set_backend i (greeted bid (Suc n)) r)" for w
    by (cases "i < length (rt_backends r)")
      (use assms(2) in \<open>simp_all add: record_breaker_def emit_def set_backend_def greeted_def list_update_beyond\<close>)
  ultimately show ?thesis
    using assms(1,2) by (auto simp: request_def Let_def example_delivery_def request_method)
qed

lemma listing_fields:
  "get_array (cap_collection (CAPABILITIES ! 0)) (unwrap_or (jget ''result'' (example_listing tools m)) (jobj [])) =
     Some (map (\<lambda>t. jobj [(''name'', JStr t)]) tools)"
  "get_str ''nextCursor'' (unwrap_or (jget ''result'' (example_listing tools m)) (jobj [])) = None"
  by (simp_all add: example_listing_def CAPABILITIES_def get_array_def get_str_def json_simps)

lemma example_collect:
  assumes "e_delivery env = example_delivery" "rt_variants r = []" "rt_cache r = None"
    and "\<not> rt_resilient r" "\<not> rt_single r" "rt_strategy r = PREFIX"
    and "rt_backends r = [greeted ''github'' 1, greeted ''slack'' 1]"
    and "asked_before ''github'' r" "asked_before ''slack'' r"
  shows "\<exists>s. collect env (CAPABILITIES ! 0) (jobj []) JNull None r =
     (Inr (map (\<lambda>n. jobj [(''name'', JStr n)]) [''github__create_issue'', ''github__search'', ''slack__post_message''], [], []), s) \<and>
     to_client (rt_wire s) = to_client (rt_wire r)"
proof -
  have ob: "as_object (jobj []) = Some []" "get_array k (jobj []) = None" for k
    by (simp_all add: jobj_def get_array_def json_simps smap_puts_def)
  have g: "b_id (greeted i n) = i" "b_keywords (greeted i n) = []" for i n by (simp_all add: greeted_def)
  obtain m1 where m1: "request env 0 ''tools/list'' params r = (Inr (example_listing (example_tools ''github'') m1),
      emit (ToBackend ''github'' m1) (set_backend 0 (greeted ''github'' 2) r))"
    if "params = list_params False (jobj []) False JNull None None False ''github''" for params
    using example_request [OF assms(1), of r 0 "''github''" 1] assms(7,8) by (auto simp: numeral_2_eq_2)
  let ?r1 = "emit (ToBackend ''github'' m1) (set_backend 0 (greeted ''github'' 2) r)"
  have "rt_backends ?r1 ! Suc 0 = greeted ''slack'' 1" "asked_before ''slack'' ?r1"
    using assms(7,9) by (auto simp: emit_def set_backend_def asked_before_def)
  note r1 = this
  from r1 obtain m2 where m2: "request env (Suc 0) ''tools/list'' params ?r1 = (Inr (example_listing (example_tools ''slack'') m2),
      emit (ToBackend ''slack'' m2) (set_backend (Suc 0) (greeted ''slack'' 2) ?r1))"
    if "params = list_params False (jobj []) False JNull None None False ''slack''" for params
    using example_request [OF assms(1), of ?r1 "Suc 0" "''slack''" 1] by (auto simp: numeral_2_eq_2)
  let ?r2 = "emit (ToBackend ''slack'' m2) (set_backend (Suc 0) (greeted ''slack'' 2) ?r1)"
  have np: "\<not> is_passthrough (CAPABILITIES ! 0) ?r2" "\<not> rt_single ?r2" "\<not> rt_resilient ?r2" "rt_cache ?r2 = None"
      "rt_backends ?r2 = [greeted ''github'' 2, greeted ''slack'' 2]"
    using assms by (simp_all add: is_passthrough_def emit_def set_backend_def strategy_defs)
  show ?thesis
    by (simp add: collect_def Let_def assms(2-7) g ob tools_capability resolve_cursor_def effective_variant_def backend_selected_def
        filter_list_def upt_rec json_simps m1 m2 r1 np example_labels listing_fields next_cursors_def example_tools_def
          del: label_items.simps)
      (simp add: emit_def set_backend_def to_client_def map_filter_def)
qed

text \<open>The listing request, routed.\<close>

lemma example_aggregate:
  assumes "collect env (CAPABILITIES ! 0) (jobj []) JNull None r = (Inr (items, [], []), s)"
    and "rt_strategy s = PREFIX" "rt_registry s = []" "\<not> rt_disclose s" "rt_directives s = None"
  shows "aggregate env show_error rid (CAPABILITIES ! 0) (jobj []) JNull None r =
    (Inr (rpc_result rid (apply_trace (rt_trace s) (JObj [(''tools'', JArr items)]))), s)"
proof -
  have "cap_collection (CAPABILITIES ! 0) = ''tools''" by (simp add: CAPABILITIES_def)
  then show ?thesis
    using assms
    by (simp add: aggregate_def effective_variant_def cursor_problem_def resolve_cursor_def json_simps aggregate_items_def
        registry_tools_def strategy_defs Let_def)
qed

lemma listed_reply:
  "listed_names (rpc_result rid (apply_trace trace (JObj [(''tools'', JArr (map (\<lambda>n. jobj [(''name'', JStr n)]) names))]))) = Some names"
proof -
  have "those (map Some names) = Some names" by (induction names) simp_all
  then show ?thesis
    by (simp add: listed_names_def rpc_result_def apply_trace_def jindex_def json_simps o_def)
qed

lemma to_client_emit [simp]: "to_client (rt_wire (emit (ToClient m) r)) = to_client (rt_wire r) @ [m]"
  by (simp add: emit_def to_client_def map_filter_def)

lemma example_list:
  assumes "e_delivery env = example_delivery" "rt_variants r = []" "rt_cache r = None" "settings r = settings example_router"
    and "rt_backends r = [greeted ''github'' 1, greeted ''slack'' 1]"
    and "asked_before ''github'' r" "asked_before ''slack'' r"
  shows "\<exists>s listing. route_message env show_error (example_script ! 2) r = (None, s) \<and>
     to_client (rt_wire s) = to_client (rt_wire r) @ [listing] \<and>
     listed_names listing = Some [''github__create_issue'', ''github__search'', ''slack__post_message'']"
proof -
  have one: "cap_list (CAPABILITIES ! 0) \<notin> set CALL_METHODS" by code_simp
  have f: "\<not> rt_resilient q" "\<not> rt_single q" "\<not> rt_server_tasks q" "\<not> rt_pool_enabled q" "rt_principal q = None"
      "rt_strategy q = PREFIX" "rt_directives q = None" "\<not> rt_disclose q" "rt_registry q = []"
    if "settings q = settings example_router" for q
    using that by (simp_all add: settings_def)
  note r = f [OF assms(4)]
  let ?names = "[''github__create_issue'', ''github__search'', ''slack__post_message'']"
  obtain s where c: "collect env (CAPABILITIES ! 0) (jobj []) JNull None r =
      (Inr (map (\<lambda>n. jobj [(''name'', JStr n)]) ?names, [], []), s)" "to_client (rt_wire s) = to_client (rt_wire r)"
    using example_collect [OF assms(1-3) r(1,2,6) assms(5-7)] by blast
  have "settings s = settings example_router"
    using kept.law_collect [OF c(1) one] assms(4) by (simp add: same_setup_def)
  note s = f [OF this]
  let ?reply = "rpc_result (JStr ''2'') (apply_trace (rt_trace s) (JObj [(''tools'', JArr (map (\<lambda>n. jobj [(''name'', JStr n)]) ?names))]))"
  have e: "\<not> rt_resilient (emit w s)" for w using s(1) by (simp add: emit_def)
  have "route_message env show_error (example_script ! 2) r = (None, emit (ToClient ?reply) s)"
    unfolding route_message_def
    by (simp add: script_fields route_request_def runs_spawned_def r s tools_capability
       dispatch_def is_task_method_def TASKS_METHODS_def is_subscribe_method_def SUBSCRIBE_METHOD_def UNSUBSCRIBE_METHOD_def
       variant_error_def json_simps selected_variant_def example_aggregate [OF c(1) s(6,9,8,7)] e Let_def del: list.map)
  moreover have "to_client (rt_wire (emit (ToClient ?reply) s)) = to_client (rt_wire r) @ [?reply]"
    using c(2) to_client_emit by metis
  ultimately show ?thesis using listed_reply by blast
qed

text \<open>C23: What the example prints: the server it sees is the router, and the tools of the two backends come
  as one list, each under the name of its backend. The script decodes to itself, and the replies are
  those of the two backend programs (\<open>example_backend_sends\<close>).\<close>
theorem example_prints_namespaced:
  assumes "e_delivery env = example_delivery" "\<forall>m \<in> set example_script. e_dec env (e_enc env m) = Some m"
  shows "\<exists>r. example_run env show_error = (None, r) \<and>
    example_prints render pretty (to_client (rt_wire r)) =
      Some [''client sees serverInfo: '' @ render proxy_server_info,
            ''aggregated, namespaced tools: '' @
              pretty [''github__create_issue'', ''github__search'', ''slack__post_message'']]"
proof -
  have dec: "e_dec env (e_enc env (example_script ! i)) = Some (example_script ! i)" if "i < 3" for i
    using bspec [OF assms(2) nth_mem [of i]] that script_length by simp
  obtain r caps m1 m2 where r: "handshake env (map (e_enc env) example_script) example_router =
        (Inr True, [e_enc env (example_script ! 2)], r)" "rt_variants r = []" "rt_cache r = None"
      "rt_backends r = [greeted ''github'' 1, greeted ''slack'' 1]"
      "to_client (rt_wire r) = [initialize_reply (JStr ''1'') caps]"
      "ToBackend ''github'' m1 \<in> set (rt_wire r)" "ToBackend ''slack'' m2 \<in> set (rt_wire r)"
    using example_handshake [OF assms(1) dec [of 0]] by auto
  have "settings r = settings example_router"
    using kept.law_handshake [OF r(1)] by (simp add: same_setup_def)
  then obtain s listing where s: "route_message env show_error (example_script ! 2) r = (None, s)"
      "to_client (rt_wire s) = to_client (rt_wire r) @ [listing]"
      "listed_names listing = Some [''github__create_issue'', ''github__search'', ''slack__post_message'']"
    using example_list [OF assms(1) r(2,3) _ r(4), of show_error] r(6,7) by (auto simp: asked_before_def)
  have "example_run env show_error = (None, drain s)"
    by (simp add: example_run_def serve_def r(1) rpc_decode_def dec s(1))
  moreover have "rt_wire (drain s) = rt_wire s" by (simp add: drain_def)
  moreover have "jindex (jindex (initialize_reply (JStr ''1'') caps) ''result'') ''serverInfo'' = proxy_server_info"
    by (simp add: initialize_reply_def rpc_result_def jindex_def json_simps)
  ultimately show ?thesis
    using s(2,3) r(5) by (simp add: example_prints_def)
qed

definition example_env :: env where
  "example_env = undefined
     \<lparr>e_delivery := example_delivery,
      e_enc := (\<lambda>m. if m = example_script ! 0 then [0] else if m = example_script ! 1 then [1] else [2]),
      e_dec := (\<lambda>raw. if raw = [0] then Some (example_script ! 0)
         else if raw = [1] then Some (example_script ! 1) else Some (example_script ! 2))\<rparr>"

theorem example_prints_namespaced_witness:
  "\<exists>r. example_run example_env (\<lambda>_. []) = (None, r) \<and>
    example_prints (\<lambda>_. ''S'') concat (to_client (rt_wire r)) =
      Some [''client sees serverInfo: S'',
            ''aggregated, namespaced tools: github__create_issuegithub__searchslack__post_message'']"
proof -
  have "example_script = [example_script ! 0, example_script ! 1, example_script ! 2]" by (simp add: example_script_def)
  then have "set example_script = {example_script ! 0, example_script ! 1, example_script ! 2}"
    by (metis list.set(1) list.set(2))
  then have "\<forall>m \<in> set example_script. e_dec example_env (e_enc example_env m) = Some m"
    by (auto simp: example_env_def)
  moreover have "e_delivery example_env = example_delivery" by (simp add: example_env_def)
  ultimately show ?thesis
    using example_prints_namespaced [of example_env "\<lambda>_. []" "\<lambda>_. ''S''" concat] by simp
qed

end
