(* ===== verification/Spec2Isabelle.thy ===== *)
theory Spec2Isabelle
  imports Cache Pool Resilience Namespace Errors Routing Collision Tasks Encoding Capability Signing
    Sha_Vectors Filters Policy Framing Registry RouterTheorems
    Config Peers Rest HttpClient Doctor Interception Stateless Callout ServeHttp HttpServer Streamable
    RouterShutdown RouterAudit Serve ForwardExample
begin

text \<open>
  A verification library of the MCP proxy \<open>yamp\<close> (the Rust crate under \<open>src/src/\<close>). The proxy stands
  between a client and several tool servers, its backends. It composes their lists of tools,
  prompts and resources under names of its own, routes each call to the backend its name belongs
  to, and adds policy: credentials, filters, caching, circuit breakers, quotas, audit.

  \<^bold>\<open>How the program is put together.\<close> A session of the forward router (\<open>router.rs\<close>) makes a
  handshake with the client and every backend and then runs one route loop; readers of the
  backends, pooled calls, runs of tasks, health pings and resource publishers run beside it and
  share its maps. The loop uses the smaller modules: names (\<open>namespace.rs\<close>, \<open>collision.rs\<close>),
  composition (\<open>capability.rs\<close>, \<open>variants.rs\<close>), \<open>cache.rs\<close>, \<open>resilience.rs\<close>, \<open>pool.rs\<close>,
  \<open>tasks.rs\<close>, \<open>subscriptions.rs\<close>, \<open>filters.rs\<close>, \<open>auth.rs\<close>, \<open>signing.rs\<close>, \<open>handler.rs\<close>. Beside it stand
  other modes: the one-backend proxy, the two transparent modes, the stateless forwarder, the
  content scanner and the REST adapter; and the programs under \<open>src/src/bin/\<close> that read a
  configuration and serve one of the modes on sockets.

  \<^bold>\<open>Theories, from the bottom.\<close>

  \<^item> \<open>Prelude\<close>, \<open>Store\<close>, \<open>F64\<close>, \<open>Json\<close>: strings as UTF-8 bytes, keyed maps (locale \<open>keyed_store\<close>),
    binary64 with its rounding, \<open>serde_json::Value\<close> with its three kinds of number and the helpers of
    \<open>jsonrpc.rs\<close>. \<open>Encoding\<close>: \<open>base64.rs\<close> and hex. \<open>Peers\<close>: a message connection as a script
    of receives and write outcomes, Rust's \<open>?\<close>, a codec for the text of JSON, UTF-8.
  \<^item> \<open>Namespace\<close> (locale \<open>name_codec\<close>, interpreted for names and for URIs), \<open>Errors\<close> (\<open>errors.rs\<close>,
    \<open>version.rs\<close>), \<open>Routing\<close> (\<open>routing.rs\<close>, \<open>media.rs\<close>, \<open>status.rs\<close>), \<open>Collision\<close>, \<open>Capability\<close>
    (\<open>capability.rs\<close>, \<open>variants.rs\<close>): pure functions, with their round trips and what they compute.
  \<^item> \<open>Cache\<close>, \<open>Resilience\<close>, \<open>Pool\<close>, \<open>Tasks\<close> (\<open>tasks.rs\<close>, \<open>subscriptions.rs\<close>): state machines, each related
    to the history of the operations on it.
  \<^item> \<open>Signing\<close> (SHA-256, HMAC, the hash-chained log; \<open>Sha_Vectors\<close> evaluates a test message), \<open>Filters\<close>
    (\<open>content.rs\<close>, \<open>filters.rs\<close>; the chain refines a single pass), \<open>Policy\<close> (\<open>policy.rs\<close>, \<open>auth.rs\<close>,
    \<open>observability.rs\<close>, \<open>tap.rs\<close>, \<open>security.rs\<close>, \<open>instrument.rs\<close>), \<open>Registry\<close> (\<open>handler.rs\<close>, \<open>server.rs\<close>,
    \<open>schema.rs\<close>).
  \<^item> \<open>Framing\<close>: \<open>transport/\<close> and the byte-level relay. The locale \<open>framing\<close> is the contract of a
    transport and \<open>bridge\<close> the relay over two of them; both are interpreted for every pair of the
    three framings.
  \<^item> \<open>RouterCore\<close> (the state record \<open>router\<close> and what it does to one backend), \<open>RouterRoute\<close> (lists,
    calls, tasks, subscriptions, one message of the loop), \<open>RouterSession\<close> (construction, handshake,
    spawned tasks, \<open>serve\<close>), \<open>RouterRun\<close> (the relation \<open>session\<close>: loop, readers, pool, tasks, pings
    and publishers in any order), \<open>RouterProps\<close> (the frame of every operation), \<open>RouterTheorems\<close>
    (the properties), \<open>RouterShutdown\<close> (the drain and what runs beside it, until every backend is
    closed), \<open>RouterAudit\<close> (locales \<open>router_base\<close> and \<open>router_law\<close>, which adds the calls of tools: a
    relation between the router before and after that holds of the primitive effects holds of
    every operation and every run; interpreted for the settings, for the audit log and for the
    numbers of the backends' requests). The locale \<open>handle_law\<close> of \<open>RouterRun\<close> does the same for what
    ties a pooled call to its handle; it is interpreted for the pool and for the abort handles
    that a shutdown uses.
  \<^item> \<open>Config\<close> and \<open>Doctor\<close>: \<open>config.rs\<close> with its diagnosis and resolution against a declarative
    specification, the preflight of \<open>doctor.rs\<close>, the tools \<open>yamp-config\<close> and \<open>yamp-doctor\<close>, the start of
    \<open>yamp-serve\<close>. \<open>Serve\<close>: the builders of the router and the server \<open>yamp-serve\<close>, whose connections
    share a cache and a log.
  \<^item> \<open>Interception\<close> (the relay message by message, \<open>transparent.rs\<close>, \<open>forward.rs\<close>), \<open>Stateless\<close>
    (\<open>stateless.rs\<close>, \<open>transparent_l2.rs\<close>), \<open>Callout\<close> (\<open>callout.rs\<close>, \<open>icap.rs\<close>), \<open>Rest\<close> and \<open>HttpClient\<close>
    (\<open>rest.rs\<close>), \<open>ServeHttp\<close> (a connection of \<open>yamp-serve-http\<close> and of \<open>yamp-serve-stateless\<close>),
    \<open>HttpServer\<close> (all connections of \<open>yamp-serve-http\<close> on their pool of sockets), \<open>Streamable\<close>
    (\<open>yamp-serve-streamable\<close>). \<open>ForwardExample\<close>: \<open>src/examples/forward_router.rs\<close>, run through the model.

  \<^bold>\<open>How state and effects are represented.\<close> A struct is a record and a mutable one is passed and
  returned; an \<open>io::Result\<close> is a sum with the error on the left; a panic is \<open>None\<close>; a \<open>HashMap\<close> or
  \<open>BTreeMap\<close> is a list sorted by key. Everything the router writes is appended to \<open>rt_wire\<close> in the order
  of the writes. Concurrency is a relation whose steps are taken in any order: \<open>session\<close> for the parts
  of one router, \<open>drained\<close> for its shutdown, \<open>link_step\<close> for the two directions of a link, \<open>serving\<close>
  and \<open>http_serving\<close> for the connections of a server, a list of events for \<open>yamp-serve-streamable\<close>.
  Sockets that several connections take turns on are entries of one table. Integers keep their width where they can wrap:
  the \<open>u64\<close> clocks and deadlines of the pool, the sequence numbers of requests and tasks, the
  \<open>u32\<close> words of SHA-256 and base64.

  \<^bold>\<open>What the properties show.\<close> For the router: in every interleaving each request of the client is
  answered exactly once, still in the pool, or dropped under an id that a cancellation named, and any
  other answer the client sees relays a reply that no backend request waits for; a resilient router
  without a pool answers the requests among its input lines in order and ends with its input or at a
  line that is no JSON; a backend's request gets an id no other outstanding one has; no request carries a credential but the backend's own; a call reaches
  only the backend its name resolves to; every call with an id that is sent has its attestation, under a
  name that resolves, under the strategy of the router, to where it went, in a log that verifies, per session and over all connections of the
  server; a shutdown loses only what its window cuts off, as far as ids are not reused, within a number of polls
  that is bounded as long as the system clock is not set back (the readings of that clock are free).
  For the other modes: interception delivers exactly what its policy allows, links end only on an error
  or the end of both streams, the clients of a server with shared sockets are answered from their own
  requests while responses say where they end, an open session began with an authorised
  \<open>initialize\<close>, stateless and HTTP calls are confined to one backend, arguments add no
  delimiter and no control character to a URL, a scan's verdict comes from a valid answer, the cache, or the failure policy. For the
  data: cache, breaker, task store and filter chain against their histories or specifications,
  configurations against a declarative well-formedness, framings and encodings by round trips,
  the log by reduction to SHA-256 collisions. Several theorems state what goes wrong: answers that miss
  a deadline or are still unwritten when the drain ends, reused request ids, clocks that are set
  back, unframed responses, colliding handlers, shared private lists, calls without an id.

  \<^bold>\<open>Termination and fuel.\<close> Loops over input are functions with a termination proof (the length of what
  is still to be read). The one fuelled function is \<open>pump\<close> of \<open>Framing\<close>, generic in its transport; more
  fuel than the input has bytes is enough for every transport (\<open>Framing.bridge\<close>), and a relay of messages
  is the relation \<open>link_step\<close>, whose runs are shown to be bounded.

  \<^bold>\<open>Parameters.\<close> What is outside the sources is an argument: the text of JSON and its parser
  (\<open>serde_json\<close>; where a proof needs that a value is read back from its text, this is a hypothesis),
  the schema validator (\<open>jsonschema\<close>), Unicode lowercasing, the clocks, the file system, what a peer
  sends and which writes fail, what an HTTP server answers, local handlers and filters (trait objects).

  \<^bold>\<open>Not modelled.\<close> \<open>tokio\<close> itself: sockets, task scheduling below the granularity of the steps,
  signals; writes to the client of the router, taken to succeed; \<open>lib.rs\<close>, which lists the
  modules. In \<open>session\<close> a pooled call ends in one step; \<open>RouterShutdown\<close> splits it. The spawning of a call and
  the storing of its abort handle are one step, as a comment in the code has it; on several threads the
  call may run first. A step of \<open>serving\<close>
  is a whole message, so orders finer than that between connections are not covered, nor does a
  property claim them. The iteration order of a \<open>HashMap\<close> is not modelled; where the code could see
  it, \<open>Store\<close> says so. Tests and conformance data are left aside.
\<close>

end
